(* ===== verification/Prelude.thy ===== *)
theory Prelude
  imports Complex_Main "HOL-Library.Word" "HOL-Library.AList" "HOL-Library.Multiset"
begin

text \<open>
  Shared vocabulary of the CacheGrid development.

  \<^item> Go's basic types: \<open>string\<close> is a byte string (HOL's \<^typ>\<open>string\<close>, whose characters are
    bytes), \<open>[]byte\<close> is a list of 8-bit words, \<open>int64\<close>, \<open>uint64\<close>, \<open>uint32\<close> are words whose
    arithmetic wraps around; a signed comparison reads both sides with \<^const>\<open>sint\<close>.
  \<^item> \<open>time.Time\<close> is the number of nanoseconds since the Unix epoch, an unbounded \<^typ>\<open>int\<close>
    (Go's \<open>Time\<close> has a range far beyond 64-bit nanoseconds); the zero \<open>Time\<close> is \<open>None\<close> where
    the code tests \<open>IsZero\<close>. \<open>time.Now()\<close> is an argument of every definition that reads the
    clock, one argument for every reading the code makes. \<open>time.Duration\<close> is an \<open>int64\<close>.
  \<^item> A Go map is an association list with distinct keys, in the order in which a \<open>range\<close> loop
    happens to visit it.
  The lemmas below are those that several components share.
\<close>

named_theorems gomap_simps \<open>lookup and domain laws of Go maps\<close>

section \<open>Machine types and time\<close>

type_synonym byte = "8 word"
type_synonym bytes = "byte list"
type_synonym int64 = "64 word"
type_synonym uint64 = "64 word"
type_synonym uint32 = "32 word"
type_synonym instant = int
type_synonym duration = int64

text \<open>\<open>d > 0\<close> for a Go duration or any other \<open>int64\<close>.\<close>

definition pos64 :: "int64 \<Rightarrow> bool" where
  "pos64 d \<longleftrightarrow> 0 < sint d"

definition less64 :: "int64 \<Rightarrow> int64 \<Rightarrow> bool" where
  "less64 a b \<longleftrightarrow> sint a < sint b"

text \<open>\<open>Time.Add\<close>; and \<open>Time.Sub\<close>, which saturates at the ends of the \<open>Duration\<close> range.\<close>

definition time_add :: "instant \<Rightarrow> duration \<Rightarrow> instant" where
  "time_add t d = t + sint d"

definition time_sub :: "instant \<Rightarrow> instant \<Rightarrow> duration" where
  "time_sub t u = word_of_int (max (- (2 ^ 63)) (min (2 ^ 63 - 1) (t - u)))"

text \<open>\<open>time.Until(t)\<close>, with the clock reading as an argument.\<close>

definition time_until :: "instant \<Rightarrow> instant \<Rightarrow> duration" where
  "time_until now t = time_sub t now"

text \<open>\<open>time.Second\<close>.\<close>

definition second :: duration where
  "second = 1000000000"

section \<open>Big-endian words (\<open>encoding/binary\<close>)\<close>

unbundle bit_operations_syntax

definition PutUint64 :: "uint64 \<Rightarrow> bytes" where
  "PutUint64 v =
     [ucast (drop_bit 56 v), ucast (drop_bit 48 v), ucast (drop_bit 40 v), ucast (drop_bit 32 v),
      ucast (drop_bit 24 v), ucast (drop_bit 16 v), ucast (drop_bit 8 v), ucast (drop_bit 0 v)]"

definition Uint64 :: "bytes \<Rightarrow> uint64" where
  "Uint64 b =
     push_bit 0 (ucast (b ! 7)) OR push_bit 8 (ucast (b ! 6)) OR push_bit 16 (ucast (b ! 5)) OR
     push_bit 24 (ucast (b ! 4)) OR push_bit 32 (ucast (b ! 3)) OR push_bit 40 (ucast (b ! 2)) OR
     push_bit 48 (ucast (b ! 1)) OR push_bit 56 (ucast (b ! 0))"

section \<open>Go maps\<close>

type_synonym ('k, 'v) gomap = "('k \<times> 'v) list"

text \<open>\<open>v, ok := m[k]\<close>, \<open>m[k] = v\<close> and \<open>delete(m, k)\<close>.\<close>

abbreviation gm_get :: "('k, 'v) gomap \<Rightarrow> 'k \<Rightarrow> 'v option" where
  "gm_get m k \<equiv> map_of m k"

abbreviation gm_set :: "'k \<Rightarrow> 'v \<Rightarrow> ('k, 'v) gomap \<Rightarrow> ('k, 'v) gomap" where
  "gm_set k v m \<equiv> AList.update k v m"

abbreviation gm_del :: "'k \<Rightarrow> ('k, 'v) gomap \<Rightarrow> ('k, 'v) gomap" where
  "gm_del k m \<equiv> AList.delete k m"

abbreviation gm_keys :: "('k, 'v) gomap \<Rightarrow> 'k list" where
  "gm_keys m \<equiv> map fst m"

abbreviation gm_wf :: "('k, 'v) gomap \<Rightarrow> bool" where
  "gm_wf m \<equiv> distinct (gm_keys m)"

text \<open>The sum of a weight over the values of a map.\<close>

definition gm_sum :: "('v \<Rightarrow> 'a::ab_group_add) \<Rightarrow> ('k, 'v) gomap \<Rightarrow> 'a" where
  "gm_sum f m = sum_list (map (f \<circ> snd) m)"

section \<open>Lemmas on machine types\<close>

lemma sint64_bounds: "- (2 ^ 63) \<le> sint (x :: int64)" "sint (x :: int64) < 2 ^ 63"
  using sint_range_size [of x] by (simp_all add: word_size)

lemma sint_word_of_int_id:
  "- (2 ^ 63) \<le> i \<Longrightarrow> i < 2 ^ 63 \<Longrightarrow> sint (word_of_int i :: int64) = i"
  by (simp add: sint_sbintrunc' signed_take_bit_int_eq_self)

lemma sint_time_sub:
  "sint (time_sub t u) = max (- (2 ^ 63)) (min (2 ^ 63 - 1) (t - u))"
  unfolding time_sub_def by (rule sint_word_of_int_id) auto

lemma pos64_time_until [simp]: "pos64 (time_until now t) \<longleftrightarrow> now < t"
  by (auto simp: pos64_def time_until_def sint_time_sub)

lemma less64_time_until_0 [simp]: "less64 (time_until now t) 0 \<longleftrightarrow> t < now"
  by (auto simp: less64_def time_until_def sint_time_sub)

lemma time_until_self [simp]: "time_until t t = 0"
  by (simp add: time_until_def time_sub_def)

lemma time_add_until: "now < t \<Longrightarrow> t - now < 2 ^ 63 \<Longrightarrow> time_add now (time_until now t) = t"
  by (simp add: time_add_def time_until_def sint_time_sub)

lemma pos64_0 [simp]: "\<not> pos64 0"
  by (simp add: pos64_def)

section \<open>Lemmas on big-endian words\<close>

lemma length_PutUint64 [simp]: "length (PutUint64 v) = 8"
  by (simp add: PutUint64_def)

lemma bit_byte_of:
  "bit (push_bit k (ucast (ucast (drop_bit k v) :: byte)) :: uint64) n \<longleftrightarrow>
   k \<le> n \<and> n < k + 8 \<and> bit (v :: uint64) n"
proof -
  have "n < 64" if "bit v n" using that bit_imp_le_length [of v n] by simp
  then show ?thesis by (auto simp: bit_simps)
qed

lemma Uint64_PutUint64 [simp]: "Uint64 (PutUint64 v) = v"
proof (rule bit_word_eqI)
  fix n assume "n < LENGTH(64)"
  then have n: "n < 64" by simp
  have "bit (Uint64 (PutUint64 v)) n \<longleftrightarrow> bit v n \<and>
     (0 \<le> n \<and> n < 8 \<or> 8 \<le> n \<and> n < 16 \<or> 16 \<le> n \<and> n < 24 \<or> 24 \<le> n \<and> n < 32 \<or>
      32 \<le> n \<and> n < 40 \<or> 40 \<le> n \<and> n < 48 \<or> 48 \<le> n \<and> n < 56 \<or> 56 \<le> n \<and> n < 64)"
    unfolding Uint64_def PutUint64_def bit_or_iff
    by (simp add: bit_byte_of del: push_bit_0_id drop_bit_0) blast
  also have "\<dots> \<longleftrightarrow> bit v n" using n by linarith
  finally show "bit (Uint64 (PutUint64 v)) n = bit v n" .
qed

lemma Uint64_append [simp]: "Uint64 (take 8 (PutUint64 v @ b)) = v"
  by simp

section \<open>Lemmas on Go maps\<close>

lemma gm_get_set [simp, gomap_simps]: "gm_get (gm_set k v m) = (gm_get m)(k \<mapsto> v)"
  by (rule update_conv')

lemma gm_get_del [simp, gomap_simps]: "gm_get (gm_del k m) = (gm_get m)(k := None)"
  by (rule delete_conv')

lemma gm_wf_set [simp, intro]: "gm_wf m \<Longrightarrow> gm_wf (gm_set k v m)"
  by (rule distinct_update)

lemma gm_wf_del [simp, intro]: "gm_wf m \<Longrightarrow> gm_wf (gm_del k m)"
  by (rule distinct_delete)

declare map_of_eq_Some_iff [simp del]

lemma gm_in_set: "gm_wf m \<Longrightarrow> (k, v) \<in> set m \<longleftrightarrow> gm_get m k = Some v"
  by (simp add: map_of_eq_Some_iff)

lemma gm_notin: "k \<notin> fst ` set m \<longleftrightarrow> gm_get m k = None"
  by (simp add: map_of_eq_None_iff)

lemma gm_set_set: "gm_wf m \<Longrightarrow> set (gm_set k v m) = insert (k, v) {p \<in> set m. fst p \<noteq> k}"
  by (induction m) (auto simp: image_iff split: if_splits)

lemma gm_set_del: "set (gm_del k m) = {p \<in> set m. fst p \<noteq> k}"
  by (auto simp: AList.delete_eq)

lemma length_gm_del: "gm_wf m \<Longrightarrow> gm_get m k = Some v \<Longrightarrow> Suc (length (gm_del k m)) = length m"
proof (induction m)
  case (Cons p m)
  then show ?case
    by (cases p) (auto simp: map_of_eq_None_iff split: if_splits)
qed simp

lemma length_gm_del_le [simp]: "length (gm_del k m) \<le> length m"
  by (rule length_delete_le)

lemma length_gm_set:
  "length (gm_set k v m) = (if gm_get m k = None then Suc (length m) else length m)"
  by (induction m) auto

lemma gm_sum_Nil [simp]: "gm_sum f [] = 0"
  by (simp add: gm_sum_def)

lemma gm_sum_Cons [simp]: "gm_sum f (p # m) = f (snd p) + gm_sum f m"
  by (simp add: gm_sum_def)

lemma gm_sum_del: "gm_wf m \<Longrightarrow> gm_get m k = Some v \<Longrightarrow> gm_sum f (gm_del k m) = gm_sum f m - f v"
proof (induction m)
  case (Cons p m)
  then show ?case
    by (cases p) (auto simp: map_of_eq_None_iff algebra_simps split: if_splits)
qed simp

lemma gm_sum_set_new: "gm_get m k = None \<Longrightarrow> gm_sum f (gm_set k v m) = gm_sum f m + f v"
  by (induction m) (auto simp: algebra_simps split: if_splits)

lemma gm_sum_set:
  assumes "gm_wf m" "gm_get m k = Some v"
  shows "gm_sum f (gm_set k w m) = gm_sum f m - f v + f w"
  using assms
proof (induction m)
  case (Cons p m)
  then show ?case
    by (cases p) (auto simp: map_of_eq_None_iff algebra_simps split: if_splits)
qed simp

lemma gm_eq_if_wf:
  assumes "gm_wf m" "(k, v) \<in> set m" "(k, w) \<in> set m"
  shows "v = w"
  using assms by (metis eq_key_imp_eq_value)

end
