(* ===== verification/Entry_LRU.thy ===== *)
theory Entry_LRU
  imports Prelude
begin

text \<open>
  \<open>src/internal/cache/entry.go\<close> and \<open>src/internal/cache/eviction.go\<close>: cache entries and the
  recency list. The code's \<open>*list.Element\<close> is the address of a list cell; an address is a
  natural number, \<open>lru_next\<close> is the next one \<open>container/list\<close> would allocate, and a cell is
  the pair of its address and the entry it points to. An entry is immutable once it is in the
  list, so the list and the map of a shard may both hold its value.
\<close>

section \<open>Definitions\<close>

type_synonym elem = nat

record entry =
  eKey :: string
  eValue :: bytes
  eExpiresAt :: "instant option"
  eSize :: int64
  eElement :: elem

definition IsExpired :: "instant \<Rightarrow> entry \<Rightarrow> bool" where
  "IsExpired now e = (case eExpiresAt e of None \<Rightarrow> False | Some t \<Rightarrow> now > t)"

definition entry_TTL :: "instant \<Rightarrow> entry \<Rightarrow> duration" where
  "entry_TTL now e =
     (case eExpiresAt e of
        None \<Rightarrow> - 1
      | Some t \<Rightarrow>
          (let remaining = time_until now t
           in if less64 remaining 0 then 0 else remaining))"

definition EstimateSize :: "string \<Rightarrow> bytes \<Rightarrow> int64" where
  "EstimateSize key value = of_nat (length key) + of_nat (length value) + 184"

record lru_list =
  ll :: "(elem \<times> entry) list"
  lru_next :: elem

definition NewLRUList :: lru_list where
  "NewLRUList = \<lparr>ll = [], lru_next = 0\<rparr>"

definition PushFront :: "entry \<Rightarrow> lru_list \<Rightarrow> elem \<times> lru_list" where
  "PushFront e l =
     (lru_next l, l\<lparr>ll := (lru_next l, e) # ll l, lru_next := Suc (lru_next l)\<rparr>)"

definition lru_remove :: "elem \<Rightarrow> lru_list \<Rightarrow> lru_list" where
  "lru_remove el l = l\<lparr>ll := filter (\<lambda>c. fst c \<noteq> el) (ll l)\<rparr>"

definition MoveToFront :: "elem \<Rightarrow> lru_list \<Rightarrow> lru_list" where
  "MoveToFront el l =
     (case find (\<lambda>c. fst c = el) (ll l) of
        None \<Rightarrow> l
      | Some c \<Rightarrow> l\<lparr>ll := c # filter (\<lambda>c. fst c \<noteq> el) (ll l)\<rparr>)"

definition RemoveOldest :: "lru_list \<Rightarrow> entry option \<times> lru_list" where
  "RemoveOldest l =
     (if ll l = [] then (None, l)
      else let c = last (ll l) in (Some (snd c), lru_remove (fst c) l))"

definition lru_len :: "lru_list \<Rightarrow> nat" where
  "lru_len l = length (ll l)"

section \<open>Lemmas\<close>

lemma entry_TTL_pos: "pos64 (entry_TTL now e) \<longleftrightarrow> (\<exists>t. eExpiresAt e = Some t \<and> now < t)"
  by (auto simp: entry_TTL_def Let_def less64_def pos64_def time_until_def sint_time_sub
      split: option.splits)

lemma filter_ne_snoc_distinct:
  assumes "distinct (map fst (cs @ [c]))"
  shows "filter (\<lambda>x. fst x \<noteq> fst c) (cs @ [c]) = cs"
  using assms by (auto simp: filter_id_conv image_iff)

lemma filter_last_distinct:
  assumes "distinct (map fst cs)" "cs \<noteq> []"
  shows "filter (\<lambda>c. fst c \<noteq> fst (last cs)) cs = butlast cs"
proof -
  have "cs = butlast cs @ [last cs]" using assms(2) by simp
  then show ?thesis using filter_ne_snoc_distinct [of "butlast cs" "last cs"] assms by simp
qed

lemma RemoveOldest_Nil: "ll l = [] \<Longrightarrow> RemoveOldest l = (None, l)"
  by (simp add: RemoveOldest_def)

lemma RemoveOldest_eq:
  "distinct (map fst (ll l)) \<Longrightarrow> ll l \<noteq> [] \<Longrightarrow>
   RemoveOldest l = (Some (snd (last (ll l))), l\<lparr>ll := butlast (ll l)\<rparr>)"
  by (simp add: RemoveOldest_def Let_def lru_remove_def filter_last_distinct)

lemma length_RemoveOldest:
  "RemoveOldest l = (Some e, l') \<Longrightarrow> length (ll l') < length (ll l)"
  by (auto simp: RemoveOldest_def Let_def lru_remove_def intro!: length_filter_less [of "last (ll l)"]
      split: if_splits)

lemma find_distinct_cell:
  "distinct (map fst cs) \<Longrightarrow> (el, e) \<in> set cs \<Longrightarrow> find (\<lambda>c. fst c = el) cs = Some (el, e)"
  by (induction cs) (auto simp: image_iff)

end
