(* ===== verification/Serializer.thy ===== *)
theory Serializer
  imports Prelude
begin

text \<open>
  \<open>src/internal/cache/serializer.go\<close>. The msgpack library is not part of the repository: its
  two functions are parameters, one pair for the \<open>int64\<close> counters that the stores read and
  write themselves and one for the values of the users of the cache. What the code relies on
  is \<open>msgpack_int_ok\<close>: an encoded counter decodes to itself, and encoding one never fails.
\<close>

section \<open>Definitions\<close>

record msgpack =
  marshal_int64 :: "int64 \<Rightarrow> string + bytes"
  unmarshal_int64 :: "bytes \<Rightarrow> string + int64"

text \<open>An \<open>interface{}\<close> value is a \<open>[]byte\<close> or a value of some other type.\<close>

datatype 'v gvalue = GBytes bytes | GVal 'v

text \<open>A destination pointer is a \<open>*[]byte\<close> or a pointer to some other type \<open>'d\<close>.\<close>

datatype 'd dest = DestBytes | DestVal 'd

record ('v, 'd) msgpack_any = msgpack +
  marshal_any :: "'v \<Rightarrow> string + bytes"
  unmarshal_any :: "bytes \<Rightarrow> 'd \<Rightarrow> string + 'v"

fun Serialize :: "('v \<Rightarrow> string + bytes) \<Rightarrow> 'v gvalue \<Rightarrow> string + bytes" where
  "Serialize marshal (GBytes b) = Inr b"
| "Serialize marshal (GVal v) = marshal v"

fun Deserialize :: "(bytes \<Rightarrow> 'd \<Rightarrow> string + 'v) \<Rightarrow> bytes \<Rightarrow> 'd dest \<Rightarrow> string + 'v gvalue" where
  "Deserialize unmarshal data DestBytes = Inr (GBytes data)"
| "Deserialize unmarshal data (DestVal d) =
     (case unmarshal data d of Inl err \<Rightarrow> Inl err | Inr v \<Rightarrow> Inr (GVal v))"

text \<open>Documented behaviour of msgpack on \<open>int64\<close>: total encoding, and decoding inverts it.\<close>

definition msgpack_int_ok :: "('a) msgpack_scheme \<Rightarrow> bool" where
  "msgpack_int_ok mp \<longleftrightarrow>
     (\<forall>n. \<exists>b. marshal_int64 mp n = Inr b \<and> unmarshal_int64 mp b = Inr n)"

text \<open>The bytes of an encoded counter (arbitrary where the encoder fails).\<close>

definition int64_bytes :: "('a) msgpack_scheme \<Rightarrow> int64 \<Rightarrow> bytes" where
  "int64_bytes mp n = (case marshal_int64 mp n of Inr b \<Rightarrow> b | Inl _ \<Rightarrow> [])"

text \<open>Destinations that accept a value back: bytes into \<open>*[]byte\<close>, a value into its own type.\<close>

definition dest_for :: "('v \<Rightarrow> 'd) \<Rightarrow> 'v gvalue \<Rightarrow> 'd dest" where
  "dest_for ty v = (case v of GBytes _ \<Rightarrow> DestBytes | GVal x \<Rightarrow> DestVal (ty x))"

text \<open>A concrete counter codec, at which the hypothesis above holds.\<close>

definition fixed_msgpack :: msgpack where
  "fixed_msgpack =
     \<lparr>marshal_int64 = (\<lambda>n. Inr (PutUint64 n)),
      unmarshal_int64 = (\<lambda>b. if length b = 8 then Inr (Uint64 b) else Inl ''invalid code'')\<rparr>"

section \<open>Lemmas\<close>

lemma msgpack_int_ok_fixed: "msgpack_int_ok fixed_msgpack"
  by (simp add: msgpack_int_ok_def fixed_msgpack_def)

lemma msgpack_int_marshal: "msgpack_int_ok mp \<Longrightarrow> marshal_int64 mp n = Inr (int64_bytes mp n)"
  unfolding msgpack_int_ok_def int64_bytes_def by (metis sum.simps(6))

lemma msgpack_int_unmarshal: "msgpack_int_ok mp \<Longrightarrow> unmarshal_int64 mp (int64_bytes mp n) = Inr n"
  unfolding msgpack_int_ok_def int64_bytes_def by (metis sum.simps(6))

text \<open>A value that was encoded comes back from the destination of its own type.\<close>

lemma Serialize_Deserialize:
  assumes "\<And>v b. marshal v = Inr b \<Longrightarrow> unmarshal b (ty v) = Inr v"
    and "Serialize marshal v = Inr b"
  shows "Deserialize unmarshal b (dest_for ty v) = Inr v"
  using assms by (cases v) (auto simp: dest_for_def)

end
