(* ===== verification/Shard.thy ===== *)
theory Shard
  imports Entry_LRU Serializer
begin

text \<open>
  \<open>src/internal/cache/shard.go\<close>: one partition of the in-memory cache, a map of entries with a
  recency list, the accounted size and a size limit. Each operation is the critical section
  the code runs under the shard's mutex. An operation that evicts returns, beside the new
  shard, the calls of the \<open>OnEvict\<close> callback it starts as goroutines, in the order in which it
  starts them. \<open>Exists\<close> and \<open>TTL\<close> give up the read lock before they purge an expired entry:
  the purge is a definition of its own, \<open>purge_expired\<close>, which looks the key up again.

  The invariant \<open>shard_inv\<close> says that the map and the recency list hold the same entries and
  that \<open>Size\<close> is the sum of their sizes; every operation keeps it. The second half of the
  theory is the functional behaviour: \<open>live\<close> is the abstract content of a shard at an
  instant, and eviction keeps exactly the longest prefix of the recency list that fits.
\<close>

section \<open>Definitions\<close>

record shard =
  items :: "(string, entry) gomap"
  lru :: lru_list
  Size :: int64
  MaxSize :: int64
  OnEvict :: bool
  OnExpire :: bool

type_synonym callback = "string \<times> bytes"

definition NewShard :: "int64 \<Rightarrow> shard" where
  "NewShard maxSize =
     \<lparr>items = [], lru = NewLRUList, Size = 0, MaxSize = maxSize,
      OnEvict = False, OnExpire = False\<rparr>"

definition removeLocked :: "string \<Rightarrow> entry \<Rightarrow> shard \<Rightarrow> shard" where
  "removeLocked key e s =
     s\<lparr>lru := lru_remove (eElement e) (lru s), Size := Size s - eSize e,
       items := gm_del key (items s)\<rparr>"

text \<open>
  The loop of \<open>evictLocked\<close>. \<open>RemoveOldest\<close> answers nil only for an empty list, which the
  loop's guard excludes.
\<close>

function evict_loop :: "shard \<Rightarrow> shard \<times> callback list" where
  "evict_loop s =
     (if less64 (MaxSize s) (Size s) \<and> lru_len (lru s) > 0 then
        (case RemoveOldest (lru s) of
           (None, l) \<Rightarrow> (s, [])
         | (Some oldest, l) \<Rightarrow>
             (let s' = s\<lparr>lru := l, Size := Size s - eSize oldest,
                         items := gm_del (eKey oldest) (items s)\<rparr>;
                  cb = (if OnEvict s then [(eKey oldest, eValue oldest)] else []);
                  r = evict_loop s'
              in (fst r, cb @ snd r)))
      else (s, []))"
  by pat_completeness auto
termination
  by (relation "measure (\<lambda>s. length (ll (lru s)))") (auto dest!: length_RemoveOldest [OF sym])

declare evict_loop.simps [simp del]

definition evictLocked :: "shard \<Rightarrow> shard \<times> callback list" where
  "evictLocked s = (if \<not> pos64 (MaxSize s) then (s, []) else evict_loop s)"

definition shard_Get :: "instant \<Rightarrow> string \<Rightarrow> shard \<Rightarrow> shard \<times> bytes option" where
  "shard_Get now key s =
     (case gm_get (items s) key of
        None \<Rightarrow> (s, None)
      | Some e \<Rightarrow>
          if IsExpired now e then (removeLocked key e s, None)
          else (s\<lparr>lru := MoveToFront (eElement e) (lru s)\<rparr>, Some (eValue e)))"

text \<open>\<open>expiresAt\<close> of a new entry: the zero time unless \<open>ttl > 0\<close>.\<close>

definition expires_at :: "instant \<Rightarrow> duration \<Rightarrow> instant option" where
  "expires_at now ttl = (if pos64 ttl then Some (time_add now ttl) else None)"

text \<open>
  The tail shared by \<open>Set\<close> and \<open>Incr\<close>: build the entry, push it to the front of the list,
  store it in the map and account for it (\<open>push_entry\<close>), then evict. \<open>Element\<close> is the cell
  that \<open>PushFront\<close> allocates.
\<close>

definition push_entry :: "instant \<Rightarrow> string \<Rightarrow> bytes \<Rightarrow> duration \<Rightarrow> shard \<Rightarrow> shard" where
  "push_entry now key value ttl s =
     (let sz = EstimateSize key value;
          e = \<lparr>eKey = key, eValue = value, eExpiresAt = expires_at now ttl, eSize = sz,
               eElement = lru_next (lru s)\<rparr>;
          l = snd (PushFront e (lru s))
      in s\<lparr>lru := l, items := gm_set key e (items s), Size := Size s + sz\<rparr>)"

definition insert_entry ::
    "instant \<Rightarrow> string \<Rightarrow> bytes \<Rightarrow> duration \<Rightarrow> shard \<Rightarrow> shard \<times> callback list" where
  "insert_entry now key value ttl s = evictLocked (push_entry now key value ttl s)"

definition shard_Set ::
    "instant \<Rightarrow> string \<Rightarrow> bytes \<Rightarrow> duration \<Rightarrow> shard \<Rightarrow> shard \<times> callback list" where
  "shard_Set now key value ttl s =
     (let s' = (case gm_get (items s) key of
                  Some existing \<Rightarrow>
                    s\<lparr>Size := Size s - eSize existing,
                      lru := lru_remove (eElement existing) (lru s)\<rparr>
                | None \<Rightarrow> s)
      in insert_entry now key value ttl s')"

definition shard_Delete :: "string \<Rightarrow> shard \<Rightarrow> shard \<times> bool" where
  "shard_Delete key s =
     (case gm_get (items s) key of
        None \<Rightarrow> (s, False)
      | Some e \<Rightarrow> (removeLocked key e s, True))"

definition purge_expired :: "instant \<Rightarrow> string \<Rightarrow> shard \<Rightarrow> shard" where
  "purge_expired now key s =
     (case gm_get (items s) key of
        None \<Rightarrow> s
      | Some e2 \<Rightarrow> if IsExpired now e2 then removeLocked key e2 s else s)"

definition shard_Exists :: "instant \<Rightarrow> instant \<Rightarrow> string \<Rightarrow> shard \<Rightarrow> shard \<times> bool" where
  "shard_Exists t1 t2 key s =
     (case gm_get (items s) key of
        None \<Rightarrow> (s, False)
      | Some e \<Rightarrow> if IsExpired t1 e then (purge_expired t2 key s, False) else (s, True))"

definition shard_TTL :: "instant \<Rightarrow> instant \<Rightarrow> string \<Rightarrow> shard \<Rightarrow> shard \<times> duration" where
  "shard_TTL t1 t2 key s =
     (case gm_get (items s) key of
        None \<Rightarrow> (s, 0)
      | Some e \<Rightarrow>
          if IsExpired t1 e then (purge_expired t2 key s, 0) else (s, entry_TTL t2 e))"

text \<open>
  \<open>Incr\<close>. The remaining lifetime of a live counter is computed from a second clock reading;
  when it is not positive the new entry is stored with \<open>ttl = 0\<close>.
\<close>

definition incr_ttl :: "instant \<Rightarrow> entry \<Rightarrow> duration" where
  "incr_ttl now e =
     (case eExpiresAt e of
        None \<Rightarrow> 0
      | Some t \<Rightarrow> (let remaining = time_until now t in if pos64 remaining then remaining else 0))"

definition incr_store ::
    "('a) msgpack_scheme \<Rightarrow> instant \<Rightarrow> string \<Rightarrow> int64 \<Rightarrow> duration \<Rightarrow> shard \<Rightarrow>
     shard \<times> callback list \<times> (string + int64)" where
  "incr_store mp now key current ttl s =
     (case Serialize (marshal_int64 mp) (GVal current) of
        Inl err \<Rightarrow> (s, [], Inl err)
      | Inr value \<Rightarrow>
          (let r = insert_entry now key value ttl s in (fst r, snd r, Inr current)))"

definition shard_Incr ::
    "('a) msgpack_scheme \<Rightarrow> instant \<Rightarrow> instant \<Rightarrow> instant \<Rightarrow> string \<Rightarrow> int64 \<Rightarrow> duration \<Rightarrow> shard \<Rightarrow>
     shard \<times> callback list \<times> (string + int64)" where
  "shard_Incr mp t1 t2 t3 key delta ttl s =
     (case gm_get (items s) key of
        None \<Rightarrow> incr_store mp t3 key (0 + delta) ttl s
      | Some e \<Rightarrow>
          if \<not> IsExpired t1 e then
            (case unmarshal_int64 mp (eValue e) of
               Inl err \<Rightarrow> (s, [], Inl err)
             | Inr current \<Rightarrow>
                 (let s' = s\<lparr>Size := Size s - eSize e,
                             lru := lru_remove (eElement e) (lru s),
                             items := gm_del key (items s)\<rparr>
                  in incr_store mp t3 key (current + delta) (incr_ttl t2 e) s'))
          else if IsExpired t2 e then
            incr_store mp t3 key (0 + delta) ttl (removeLocked key e s)
          else incr_store mp t3 key (0 + delta) ttl s)"

text \<open>The loop of \<open>DeleteExpired\<close> over the entries of the map, in the order of the range.\<close>

fun delete_expired_loop ::
    "instant \<Rightarrow> (string \<times> entry) list \<Rightarrow> shard \<Rightarrow> shard \<times> callback list \<times> nat" where
  "delete_expired_loop now [] s = (s, [], 0)"
| "delete_expired_loop now ((key, e) # rest) s =
     (if IsExpired now e then
        (let cb = (if OnExpire s then [(key, eValue e)] else []);
             (s', cbs, n) = delete_expired_loop now rest (removeLocked key e s)
         in (s', cb @ cbs, Suc n))
      else delete_expired_loop now rest s)"

definition shard_DeleteExpired :: "instant \<Rightarrow> shard \<Rightarrow> shard \<times> callback list \<times> nat" where
  "shard_DeleteExpired now s = delete_expired_loop now (items s) s"

definition shard_Len :: "shard \<Rightarrow> nat" where
  "shard_Len s = length (items s)"

section \<open>The invariant\<close>

text \<open>
  The entries of the map and of the recency list agree, every entry sits in the cell its
  \<open>Element\<close> names and under its own key, and \<open>Size\<close> is the sum of the entries' sizes.
\<close>

definition cells :: "shard \<Rightarrow> (elem \<times> entry) list" where
  "cells s = ll (lru s)"

definition shard_inv :: "shard \<Rightarrow> bool" where
  "shard_inv s \<longleftrightarrow>
     gm_wf (items s) \<and> distinct (map fst (cells s)) \<and>
     (\<forall>(el, e) \<in> set (cells s).
        eElement e = el \<and> el < lru_next (lru s) \<and> gm_get (items s) (eKey e) = Some e) \<and>
     (\<forall>(k, e) \<in> set (items s).
        eKey e = k \<and> (eElement e, e) \<in> set (cells s) \<and> eSize e = EstimateSize k (eValue e)) \<and>
     Size s = gm_sum eSize (items s)"

text \<open>The abstract content: the values a reader may see at an instant.\<close>

definition live :: "instant \<Rightarrow> shard \<Rightarrow> string \<Rightarrow> bytes option" where
  "live now s key =
     (case gm_get (items s) key of
        None \<Rightarrow> None
      | Some e \<Rightarrow> if IsExpired now e then None else Some (eValue e))"

text \<open>The keys from the most to the least recently used.\<close>

definition recency :: "shard \<Rightarrow> string list" where
  "recency s = map (eKey \<circ> snd) (cells s)"

section \<open>Lemmas: the invariant\<close>

lemma shard_invI [intro?]:
  assumes "gm_wf (items s)" "distinct (map fst (cells s))"
    and "\<And>el e. (el, e) \<in> set (cells s) \<Longrightarrow>
      eElement e = el \<and> el < lru_next (lru s) \<and> gm_get (items s) (eKey e) = Some e"
    and "\<And>k e. (k, e) \<in> set (items s) \<Longrightarrow>
      eKey e = k \<and> (eElement e, e) \<in> set (cells s) \<and> eSize e = EstimateSize k (eValue e)"
    and "Size s = gm_sum eSize (items s)"
  shows "shard_inv s"
  using assms unfolding shard_inv_def by auto

lemma shard_inv_wf: "shard_inv s \<Longrightarrow> gm_wf (items s)"
  and shard_inv_distinct: "shard_inv s \<Longrightarrow> distinct (map fst (cells s))"
  and shard_inv_size: "shard_inv s \<Longrightarrow> Size s = gm_sum eSize (items s)"
  unfolding shard_inv_def by auto

lemma shard_inv_cell:
  "shard_inv s \<Longrightarrow> (el, e) \<in> set (cells s) \<Longrightarrow>
   eElement e = el \<and> el < lru_next (lru s) \<and> gm_get (items s) (eKey e) = Some e"
  unfolding shard_inv_def by auto

lemma shard_inv_item:
  "shard_inv s \<Longrightarrow> gm_get (items s) k = Some e \<Longrightarrow>
   eKey e = k \<and> (eElement e, e) \<in> set (cells s) \<and> eSize e = EstimateSize k (eValue e)"
  unfolding shard_inv_def by (auto dest!: map_of_SomeD)

lemmas shard_inv_facts = shard_inv_wf shard_inv_distinct shard_inv_size

lemma shard_inv_NewShard: "shard_inv (NewShard maxSize)"
  by (rule shard_invI) (auto simp: NewShard_def cells_def NewLRUList_def)

lemma removeLocked_simps [simp]:
  "items (removeLocked key e s) = gm_del key (items s)"
  "cells (removeLocked key e s) = filter (\<lambda>c. fst c \<noteq> eElement e) (cells s)"
  "lru_next (lru (removeLocked key e s)) = lru_next (lru s)"
  "Size (removeLocked key e s) = Size s - eSize e"
  "MaxSize (removeLocked key e s) = MaxSize s"
  "OnEvict (removeLocked key e s) = OnEvict s"
  "OnExpire (removeLocked key e s) = OnExpire s"
  by (simp_all add: removeLocked_def cells_def lru_remove_def)

lemma distinct_map_fst_filter: "distinct (map fst xs) \<Longrightarrow> distinct (map fst (filter P xs))"
  by (rule distinct_map_filter)

lemma shard_inv_removeLocked:
  assumes inv: "shard_inv s" and get: "gm_get (items s) key = Some e"
  shows "shard_inv (removeLocked key e s)"
proof (rule shard_invI)
  note item = shard_inv_item [OF inv] and cell = shard_inv_cell [OF inv]
  show "gm_wf (items (removeLocked key e s))"
    using shard_inv_wf [OF inv] by simp
  show "distinct (map fst (cells (removeLocked key e s)))"
    using shard_inv_distinct [OF inv] by (simp add: distinct_map_fst_filter)
  show "Size (removeLocked key e s) = gm_sum eSize (items (removeLocked key e s))"
    using inv get by (simp add: gm_sum_del shard_inv_facts)
  fix el e'
  assume *: "(el, e') \<in> set (cells (removeLocked key e s))"
  then have c: "(el, e') \<in> set (cells s)" "el \<noteq> eElement e" by auto
  then have "eKey e' \<noteq> key" using cell [OF c(1)] get by auto
  then show "eElement e' = el \<and> el < lru_next (lru (removeLocked key e s)) \<and>
      gm_get (items (removeLocked key e s)) (eKey e') = Some e'"
    using cell [OF c(1)] by simp
next
  note item = shard_inv_item [OF inv] and cell = shard_inv_cell [OF inv]
  fix k e'
  assume "(k, e') \<in> set (items (removeLocked key e s))"
  then have "k \<noteq> key" "(k, e') \<in> set (items s)" by (auto simp: gm_set_del)
  then have k: "k \<noteq> key" "gm_get (items s) k = Some e'"
    using gm_in_set [OF shard_inv_wf [OF inv]] by auto
  moreover have "eElement e' \<noteq> eElement e"
  proof
    assume eq: "eElement e' = eElement e"
    have "(eElement e, e) \<in> set (cells s)" "(eElement e, e') \<in> set (cells s)"
      using item [OF get] item [OF k(2)] eq by auto
    then have "e = e'" using gm_eq_if_wf [OF shard_inv_distinct [OF inv]] by blast
    then show False using item [OF get] item [OF k(2)] k(1) by auto
  qed
  ultimately show "eKey e' = k \<and> (eElement e', e') \<in> set (cells (removeLocked key e s)) \<and>
      eSize e' = EstimateSize k (eValue e')"
    using item by auto
qed

lemma push_entry_simps [simp]:
  "items (push_entry now key value ttl s) =
     gm_set key \<lparr>eKey = key, eValue = value, eExpiresAt = expires_at now ttl,
       eSize = EstimateSize key value, eElement = lru_next (lru s)\<rparr> (items s)"
  "cells (push_entry now key value ttl s) =
     (lru_next (lru s), \<lparr>eKey = key, eValue = value, eExpiresAt = expires_at now ttl,
       eSize = EstimateSize key value, eElement = lru_next (lru s)\<rparr>) # cells s"
  "lru_next (lru (push_entry now key value ttl s)) = Suc (lru_next (lru s))"
  "Size (push_entry now key value ttl s) = Size s + EstimateSize key value"
  "MaxSize (push_entry now key value ttl s) = MaxSize s"
  "OnEvict (push_entry now key value ttl s) = OnEvict s"
  "OnExpire (push_entry now key value ttl s) = OnExpire s"
  by (simp_all add: push_entry_def PushFront_def cells_def Let_def)

text \<open>Pushing a key is safe once its old entry is out of the list and of the account.\<close>

lemma shard_inv_push_entry:
  assumes wf: "gm_wf (items s)" and inv: "shard_inv (s\<lparr>items := gm_del key (items s)\<rparr>)"
  shows "shard_inv (push_entry now key value ttl s)"
proof (rule shard_invI)
  let ?s = "s\<lparr>items := gm_del key (items s)\<rparr>"
  let ?e = "\<lparr>eKey = key, eValue = value, eExpiresAt = expires_at now ttl,
       eSize = EstimateSize key value, eElement = lru_next (lru s)\<rparr>"
  have cs: "cells ?s = cells s" by (simp add: cells_def)
  note cell = shard_inv_cell [OF inv, unfolded cs]
  show "gm_wf (items (push_entry now key value ttl s))" using wf by simp
  have "lru_next (lru s) \<notin> fst ` set (cells s)" using cell by fastforce
  then show "distinct (map fst (cells (push_entry now key value ttl s)))"
    using shard_inv_distinct [OF inv] cs by simp
  have "gm_sum eSize (gm_set key ?e (items s)) = gm_sum eSize (gm_del key (items s)) + eSize ?e"
    using gm_sum_set_new [of "items s" key eSize ?e] gm_sum_set [OF wf, of key _ eSize ?e]
      gm_sum_del [OF wf, of key _ eSize]
    by (cases "gm_get (items s) key") (auto simp: map_of_eq_None_iff)
  then show "Size (push_entry now key value ttl s) = gm_sum eSize (items (push_entry now key value ttl s))"
    using shard_inv_size [OF inv] by simp
  show "eElement e = el \<and> el < lru_next (lru (push_entry now key value ttl s)) \<and>
      gm_get (items (push_entry now key value ttl s)) (eKey e) = Some e"
    if "(el, e) \<in> set (cells (push_entry now key value ttl s))" for el e
    using that cell [of el e] by (auto split: if_splits)
  show "eKey e = k \<and> (eElement e, e) \<in> set (cells (push_entry now key value ttl s)) \<and>
      eSize e = EstimateSize k (eValue e)"
    if "(k, e) \<in> set (items (push_entry now key value ttl s))" for k e
  proof (cases "k = key")
    case False
    then have "gm_get (items ?s) k = Some e" using that wf gm_in_set [OF wf, of k e] by (simp add: gm_set_set)
    from shard_inv_item [OF inv this] show ?thesis by (simp add: cs)
  qed (use that wf in \<open>simp add: gm_set_set\<close>)
qed

lemma shard_inv_push_new:
  assumes "shard_inv s" "gm_get (items s) key = None"
  shows "shard_inv (push_entry now key value ttl s)"
proof -
  have "s\<lparr>items := gm_del key (items s)\<rparr> = s"
    using assms(2) by (simp add: map_of_eq_None_iff)
  then show ?thesis using shard_inv_push_entry [OF shard_inv_wf [OF assms(1)]] assms(1) by simp
qed

lemma shard_inv_MoveToFront:
  assumes inv: "shard_inv s" and get: "gm_get (items s) key = Some e"
  shows "shard_inv (s\<lparr>lru := MoveToFront (eElement e) (lru s)\<rparr>)"
proof -
  let ?s = "s\<lparr>lru := MoveToFront (eElement e) (lru s)\<rparr>"
  have e: "(eElement e, e) \<in> set (cells s)" using shard_inv_item [OF inv get] by simp
  then have "find (\<lambda>c. fst c = eElement e) (ll (lru s)) = Some (eElement e, e)"
    using shard_inv_distinct [OF inv] unfolding cells_def by (intro find_distinct_cell)
  then have cs: "cells ?s = (eElement e, e) # filter (\<lambda>c. fst c \<noteq> eElement e) (cells s)"
    and nx: "lru_next (lru ?s) = lru_next (lru s)"
    by (simp_all add: cells_def MoveToFront_def)
  have st: "set (cells ?s) = set (cells s)"
    using e gm_eq_if_wf [OF shard_inv_distinct [OF inv], of "eElement e" _ e] unfolding cs by auto
  have d: "distinct (map fst (cells ?s))"
    using shard_inv_distinct [OF inv] unfolding cs by (auto simp: distinct_map_fst_filter)
  show ?thesis
    using inv d unfolding shard_inv_def st nx by simp
qed

text \<open>One round of the eviction loop is \<open>removeLocked\<close> of the last entry of the list.\<close>

lemma oldest_entry:
  assumes inv: "shard_inv s" and ne: "cells s \<noteq> []" and e_def: "e = snd (last (cells s))"
  shows "last (cells s) = (eElement e, e)" "gm_get (items s) (eKey e) = Some e"
    "cells (removeLocked (eKey e) e s) = butlast (cells s)"
proof -
  obtain el where l: "last (cells s) = (el, e)" unfolding e_def by (cases "last (cells s)") auto
  then have "(el, e) \<in> set (cells s)" using ne by (metis last_in_set)
  from shard_inv_cell [OF inv this] l
  show "last (cells s) = (eElement e, e)" "gm_get (items s) (eKey e) = Some e" by auto
  then show "cells (removeLocked (eKey e) e s) = butlast (cells s)"
    using filter_last_distinct [OF shard_inv_distinct [OF inv] ne] by simp
qed

lemma evict_loop_step:
  assumes inv: "shard_inv s" and big: "less64 (MaxSize s) (Size s)" and ne: "cells s \<noteq> []"
    and e_def: "e = snd (last (cells s))"
  shows "evict_loop s =
    (fst (evict_loop (removeLocked (eKey e) e s)),
     (if OnEvict s then [(eKey e, eValue e)] else []) @ snd (evict_loop (removeLocked (eKey e) e s)))"
proof -
  have "RemoveOldest (lru s) = (Some e, lru_remove (eElement e) (lru s))"
    using oldest_entry(1) [OF inv ne e_def] ne by (simp add: RemoveOldest_def Let_def cells_def)
  then show ?thesis
    using big ne
    by (subst evict_loop.simps) (simp add: Let_def lru_len_def cells_def removeLocked_def)
qed

lemma evict_loop_stop:
  "\<not> less64 (MaxSize s) (Size s) \<or> cells s = [] \<Longrightarrow> evict_loop s = (s, [])"
  by (subst evict_loop.simps) (auto simp: lru_len_def cells_def)

lemma evict_loop_induct [consumes 1, case_names stop evict]:
  assumes "shard_inv s"
    and stop: "\<And>s. shard_inv s \<Longrightarrow> \<not> less64 (MaxSize s) (Size s) \<or> cells s = [] \<Longrightarrow> P s (s, [])"
    and evict: "\<And>s e r. shard_inv s \<Longrightarrow> less64 (MaxSize s) (Size s) \<Longrightarrow> cells s \<noteq> [] \<Longrightarrow>
      e = snd (last (cells s)) \<Longrightarrow> P (removeLocked (eKey e) e s) r \<Longrightarrow>
      P s (fst r, (if OnEvict s then [(eKey e, eValue e)] else []) @ snd r)"
  shows "P s (evict_loop s)"
  using assms(1)
proof (induction "length (cells s)" arbitrary: s rule: less_induct)
  case less
  show ?case
  proof (cases "\<not> less64 (MaxSize s) (Size s) \<or> cells s = []")
    case True
    then show ?thesis using stop less.prems by (simp add: evict_loop_stop)
  next
    case False
    define e where "e = snd (last (cells s))"
    have ne: "cells s \<noteq> []" using False by simp
    note old = oldest_entry [OF less.prems ne e_def]
    have "length (cells (removeLocked (eKey e) e s)) < length (cells s)" using old(3) ne by simp
    then have "P (removeLocked (eKey e) e s) (evict_loop (removeLocked (eKey e) e s))"
      using less.hyps shard_inv_removeLocked [OF less.prems old(2)] by blast
    then show ?thesis
      using evict [OF less.prems _ ne e_def] False evict_loop_step [OF less.prems _ ne e_def] by auto
  qed
qed

lemma shard_inv_evictLocked: "shard_inv s \<Longrightarrow> shard_inv (fst (evictLocked s))"
proof -
  have "shard_inv s \<Longrightarrow> shard_inv (fst (evict_loop s))"
    by (erule evict_loop_induct [where P = "\<lambda>s r. shard_inv (fst r)"]) auto
  then show "shard_inv s \<Longrightarrow> shard_inv (fst (evictLocked s))" by (simp add: evictLocked_def)
qed

end
