(* ===== verification/Shard_Refine.thy ===== *)
theory Shard_Refine
  imports Shard
begin

text \<open>
  The specification a shard implements: a list of keys with their values and expiry times, from
  the most to the least recently used. A read moves its key to the front, a write puts its key
  in front and then keeps the longest prefix that fits the size limit, a read of an expired key
  drops it, a sweep drops every expired key. \<open>shard_step\<close> runs an operation of \<open>shard.go\<close>,
  \<open>spec_step\<close> the same operation of the specification; the refinement lemma says that the two
  agree on the result and on the list, for every operation, so a shard is an LRU cache.
\<close>

section \<open>Definitions\<close>

type_synonym lru_view = "(string, bytes \<times> instant option) gomap"

definition view_of :: "shard \<Rightarrow> lru_view" where
  "view_of s = map (\<lambda>c. (eKey (snd c), (eValue (snd c), eExpiresAt (snd c)))) (cells s)"

definition dead :: "instant \<Rightarrow> instant option \<Rightarrow> bool" where
  "dead now x = (case x of None \<Rightarrow> False | Some t \<Rightarrow> now > t)"

definition view_size :: "lru_view \<Rightarrow> int64" where
  "view_size v = sum_list (map (\<lambda>(k, b, x). EstimateSize k b) v)"

text \<open>The length of the longest prefix, up to a bound, whose size does not exceed the limit.\<close>

fun fit_count :: "int64 \<Rightarrow> lru_view \<Rightarrow> nat \<Rightarrow> nat" where
  "fit_count maxSize v 0 = 0"
| "fit_count maxSize v (Suc n) =
     (if less64 maxSize (view_size (take (Suc n) v)) then fit_count maxSize v n else Suc n)"

definition spec_evict :: "bool \<Rightarrow> int64 \<Rightarrow> lru_view \<Rightarrow> lru_view \<times> callback list" where
  "spec_evict ev maxSize v =
     (if \<not> pos64 maxSize then (v, [])
      else let n = fit_count maxSize v (length v)
           in (take n v, if ev then map (\<lambda>(k, b, x). (k, b)) (rev (drop n v)) else []))"

definition spec_put ::
    "bool \<Rightarrow> int64 \<Rightarrow> instant \<Rightarrow> string \<Rightarrow> bytes \<Rightarrow> duration \<Rightarrow> lru_view \<Rightarrow> lru_view \<times> callback list" where
  "spec_put ev maxSize now key value ttl v =
     spec_evict ev maxSize ((key, value, expires_at now ttl) # gm_del key v)"

definition spec_get :: "instant \<Rightarrow> string \<Rightarrow> lru_view \<Rightarrow> lru_view \<times> bytes option" where
  "spec_get now key v =
     (case gm_get v key of
        None \<Rightarrow> (v, None)
      | Some (b, x) \<Rightarrow>
          if dead now x then (gm_del key v, None) else ((key, b, x) # gm_del key v, Some b))"

definition spec_peek :: "instant \<Rightarrow> string \<Rightarrow> lru_view \<Rightarrow> lru_view \<times> (bytes \<times> instant option) option" where
  "spec_peek now key v =
     (case gm_get v key of
        None \<Rightarrow> (v, None)
      | Some (b, x) \<Rightarrow> if dead now x then (gm_del key v, None) else (v, Some (b, x)))"

definition remaining_ttl :: "instant \<Rightarrow> instant option \<Rightarrow> duration" where
  "remaining_ttl now x =
     (case x of None \<Rightarrow> - 1 | Some t \<Rightarrow> if now < t then time_until now t else 0)"

definition spec_incr ::
    "('a) msgpack_scheme \<Rightarrow> bool \<Rightarrow> int64 \<Rightarrow> instant \<Rightarrow> instant \<Rightarrow> instant \<Rightarrow> string \<Rightarrow> int64 \<Rightarrow> duration \<Rightarrow>
     lru_view \<Rightarrow> lru_view \<times> callback list \<times> (string + int64)" where
  "spec_incr mp ev maxSize t1 t2 t3 key delta ttl v =
     (let put = (\<lambda>n d. case marshal_int64 mp n of
                   Inl err \<Rightarrow> (gm_del key v, [], Inl err)
                 | Inr b \<Rightarrow> (let r = spec_put ev maxSize t3 key b d v in (fst r, snd r, Inr n)))
      in case gm_get v key of
           None \<Rightarrow> put delta ttl
         | Some (b, x) \<Rightarrow>
             if dead t1 x then put delta ttl
             else (case unmarshal_int64 mp b of
                     Inl err \<Rightarrow> (v, [], Inl err)
                   | Inr n \<Rightarrow> put (n + delta)
                       (case x of Some t \<Rightarrow> if t2 < t then time_until t2 t else 0 | None \<Rightarrow> 0)))"

definition spec_sweep :: "instant \<Rightarrow> lru_view \<Rightarrow> lru_view \<times> nat" where
  "spec_sweep now v =
     (filter (\<lambda>(k, b, x). \<not> dead now x) v, length (filter (\<lambda>(k, b, x). dead now x) v))"

text \<open>Operations with their clock readings, and what they answer.\<close>

datatype shard_op =
    OpGet instant string
  | OpSet instant string bytes duration
  | OpDelete string
  | OpExists instant instant string
  | OpTTL instant instant string
  | OpIncr instant instant instant string int64 duration
  | OpSweep instant

datatype shard_out =
    OutValue "bytes option"
  | OutEvicted "callback list"
  | OutBool bool
  | OutDuration duration
  | OutIncr "callback list" "string + int64"
  | OutCount nat

fun shard_step :: "('a) msgpack_scheme \<Rightarrow> shard_op \<Rightarrow> shard \<Rightarrow> shard \<times> shard_out" where
  "shard_step mp (OpGet now k) s = (let r = shard_Get now k s in (fst r, OutValue (snd r)))"
| "shard_step mp (OpSet now k b ttl) s =
     (let r = shard_Set now k b ttl s in (fst r, OutEvicted (snd r)))"
| "shard_step mp (OpDelete k) s = (let r = shard_Delete k s in (fst r, OutBool (snd r)))"
| "shard_step mp (OpExists t1 t2 k) s = (let r = shard_Exists t1 t2 k s in (fst r, OutBool (snd r)))"
| "shard_step mp (OpTTL t1 t2 k) s = (let r = shard_TTL t1 t2 k s in (fst r, OutDuration (snd r)))"
| "shard_step mp (OpIncr t1 t2 t3 k d ttl) s =
     (let r = shard_Incr mp t1 t2 t3 k d ttl s in (fst r, OutIncr (fst (snd r)) (snd (snd r))))"
| "shard_step mp (OpSweep now) s =
     (let r = shard_DeleteExpired now s in (fst r, OutCount (snd (snd r))))"

fun spec_step ::
    "('a) msgpack_scheme \<Rightarrow> bool \<Rightarrow> int64 \<Rightarrow> shard_op \<Rightarrow> lru_view \<Rightarrow> lru_view \<times> shard_out" where
  "spec_step mp ev m (OpGet now k) v = (let r = spec_get now k v in (fst r, OutValue (snd r)))"
| "spec_step mp ev m (OpSet now k b ttl) v =
     (let r = spec_put ev m now k b ttl v in (fst r, OutEvicted (snd r)))"
| "spec_step mp ev m (OpDelete k) v = (gm_del k v, OutBool (k \<in> set (gm_keys v)))"
| "spec_step mp ev m (OpExists t1 t2 k) v =
     (let r = spec_peek t1 k v in (fst r, OutBool (snd r \<noteq> None)))"
| "spec_step mp ev m (OpTTL t1 t2 k) v =
     (let r = spec_peek t1 k v
      in (fst r, OutDuration (case snd r of None \<Rightarrow> 0 | Some (b, x) \<Rightarrow> remaining_ttl t2 x)))"
| "spec_step mp ev m (OpIncr t1 t2 t3 k d ttl) v =
     (let r = spec_incr mp ev m t1 t2 t3 k d ttl v in (fst r, OutIncr (fst (snd r)) (snd (snd r))))"
| "spec_step mp ev m (OpSweep now) v = (let r = spec_sweep now v in (fst r, OutCount (snd r)))"

text \<open>The clock readings of one operation are in order (Go's clock is monotonic).\<close>

fun op_ok :: "shard_op \<Rightarrow> bool" where
  "op_ok (OpExists t1 t2 k) = (t1 \<le> t2)"
| "op_ok (OpTTL t1 t2 k) = (t1 \<le> t2)"
| "op_ok (OpIncr t1 t2 t3 k d ttl) = (t1 \<le> t2 \<and> t2 \<le> t3)"
| "op_ok _ = True"

fun shard_run :: "('a) msgpack_scheme \<Rightarrow> shard_op list \<Rightarrow> shard \<Rightarrow> shard \<times> shard_out list" where
  "shard_run mp [] s = (s, [])"
| "shard_run mp (op # ops) s =
     (let (s', out) = shard_step mp op s; (s'', outs) = shard_run mp ops s' in (s'', out # outs))"

fun spec_run ::
    "('a) msgpack_scheme \<Rightarrow> bool \<Rightarrow> int64 \<Rightarrow> shard_op list \<Rightarrow> lru_view \<Rightarrow> lru_view \<times> shard_out list" where
  "spec_run mp ev m [] v = (v, [])"
| "spec_run mp ev m (op # ops) v =
     (let (v', out) = spec_step mp ev m op v; (v'', outs) = spec_run mp ev m ops v'
      in (v'', out # outs))"

section \<open>Lemmas: the view of a shard\<close>

lemma IsExpired_dead: "IsExpired now e = dead now (eExpiresAt e)"
  by (simp add: IsExpired_def dead_def)

lemma dead_mono: "dead now x \<Longrightarrow> now \<le> now' \<Longrightarrow> dead now' x"
  by (auto simp: dead_def split: option.splits)

lemma view_of_wf:
  assumes inv: "shard_inv s" shows "gm_wf (view_of s)"
proof -
  have "inj_on (\<lambda>c. eKey (snd c)) (set (cells s))"
  proof (rule inj_onI)
    fix c d assume c: "c \<in> set (cells s)" "d \<in> set (cells s)" "eKey (snd c) = eKey (snd d)"
    have "eElement (snd c) = fst c" "gm_get (items s) (eKey (snd c)) = Some (snd c)"
      "eElement (snd d) = fst d" "gm_get (items s) (eKey (snd d)) = Some (snd d)"
      using shard_inv_cell [OF inv, of "fst c" "snd c"] shard_inv_cell [OF inv, of "fst d" "snd d"] c(1,2)
      by simp_all
    with c(3) show "c = d" by (metis option.inject prod.collapse)
  qed
  moreover have "distinct (cells s)"
    using shard_inv_distinct [OF inv] by (simp add: distinct_map)
  ultimately show ?thesis by (simp add: view_of_def comp_def distinct_map)
qed

lemma view_of_get:
  assumes inv: "shard_inv s"
  shows "gm_get (view_of s) k = map_option (\<lambda>e. (eValue e, eExpiresAt e)) (gm_get (items s) k)"
proof (cases "gm_get (items s) k")
  case None
  have "gm_get (view_of s) k = None"
  proof (rule ccontr)
    assume "gm_get (view_of s) k \<noteq> None"
    then have "k \<in> fst ` set (view_of s)" by (simp add: map_of_eq_None_iff)
    then obtain c where "c \<in> set (cells s)" "eKey (snd c) = k" by (auto simp: view_of_def)
    then show False using shard_inv_cell [OF inv, of "fst c" "snd c"] None by simp
  qed
  with None show ?thesis by simp
next
  case (Some e)
  from shard_inv_item [OF inv Some] have "eKey e = k" "(eElement e, e) \<in> set (cells s)" by auto
  then have "(k, (eValue e, eExpiresAt e)) \<in> set (view_of s)"
    unfolding view_of_def by (auto intro!: image_eqI [of _ _ "(eElement e, e)"])
  then have "gm_get (view_of s) k = Some (eValue e, eExpiresAt e)"
    using gm_in_set [OF view_of_wf [OF inv], of k] by blast
  with Some show ?thesis by simp
qed

lemma view_of_removeLocked:
  assumes inv: "shard_inv s" and get: "gm_get (items s) k = Some e"
  shows "view_of (removeLocked k e s) = gm_del k (view_of s)"
proof -
  note item = shard_inv_item [OF inv get]
  have "fst c \<noteq> eElement e \<longleftrightarrow> k \<noteq> eKey (snd c)" if "c \<in> set (cells s)" for c
  proof (cases c)
    case (Pair el e')
    then have c: "(el, e') \<in> set (cells s)" using that by simp
    then have "el = eElement e \<Longrightarrow> e' = e"
      using gm_eq_if_wf [OF shard_inv_distinct [OF inv] c, of e] item by simp
    moreover have "eKey e' = k \<Longrightarrow> e' = e"
      using shard_inv_cell [OF inv c] get by simp
    moreover have "eElement e' = el" "eKey e = k" using shard_inv_cell [OF inv c] item by auto
    ultimately have "el = eElement e \<longleftrightarrow> k = eKey e'" by metis
    then show ?thesis using Pair by simp
  qed
  then have "filter (\<lambda>c. fst c \<noteq> eElement e) (cells s) = filter (\<lambda>c. k \<noteq> eKey (snd c)) (cells s)"
    by (rule filter_cong [OF refl])
  then show ?thesis by (simp add: view_of_def AList.delete_eq filter_map comp_def)
qed

lemma view_of_MoveToFront:
  assumes inv: "shard_inv s" and get: "gm_get (items s) k = Some e"
  shows "view_of (s\<lparr>lru := MoveToFront (eElement e) (lru s)\<rparr>) =
     (k, eValue e, eExpiresAt e) # gm_del k (view_of s)"
proof -
  have "(eElement e, e) \<in> set (cells s)" using shard_inv_item [OF inv get] by simp
  then have "find (\<lambda>c. fst c = eElement e) (ll (lru s)) = Some (eElement e, e)"
    using shard_inv_distinct [OF inv] unfolding cells_def by (intro find_distinct_cell)
  then have "cells (s\<lparr>lru := MoveToFront (eElement e) (lru s)\<rparr>) =
      (eElement e, e) # cells (removeLocked k e s)"
    by (simp add: cells_def MoveToFront_def removeLocked_def lru_remove_def)
  then show ?thesis
    using view_of_removeLocked [OF inv get] shard_inv_item [OF inv get] by (simp add: view_of_def)
qed

lemma view_of_push_entry:
  "view_of (push_entry now k b ttl s) = (k, b, expires_at now ttl) # view_of s"
  by (simp add: view_of_def)

lemma mset_items_cells:
  assumes inv: "shard_inv s"
  shows "mset (map snd (cells s)) = mset (map snd (items s))"
proof -
  have "map fst (cells s) = map (eElement \<circ> snd) (cells s)"
    using shard_inv_cell [OF inv] by (auto simp: comp_def)
  then have 1: "distinct (map snd (cells s))"
    using shard_inv_distinct [OF inv] by (simp add: distinct_map flip: map_map)
  have "map fst (items s) = map (eKey \<circ> snd) (items s)"
    using shard_inv_item [OF inv] gm_in_set [OF shard_inv_wf [OF inv]] by (auto simp: comp_def)
  then have 2: "distinct (map snd (items s))"
    using shard_inv_wf [OF inv] by (simp add: distinct_map flip: map_map)
  have "set (map snd (cells s)) = set (map snd (items s))"
    using inv unfolding shard_inv_def by (force dest: map_of_SomeD)
  with 1 2 show ?thesis using set_eq_iff_mset_eq_distinct by blast
qed

lemma Size_view:
  assumes inv: "shard_inv s" shows "Size s = view_size (view_of s)"
proof -
  have "Size s = sum_list (map eSize (map snd (items s)))"
    using shard_inv_size [OF inv] by (simp add: gm_sum_def comp_def)
  also have "\<dots> = sum_list (map eSize (map snd (cells s)))"
    using mset_items_cells [OF inv] by (metis mset_map sum_mset_sum_list)
  also have "\<dots> = view_size (view_of s)"
  proof -
    have "eSize e = EstimateSize (eKey e) (eValue e)" if "(el, e) \<in> set (cells s)" for el e
      using shard_inv_cell [OF inv that] shard_inv_item [OF inv] by metis
    then have "map (eSize \<circ> snd) (cells s) = map (\<lambda>c. EstimateSize (eKey (snd c)) (eValue (snd c))) (cells s)"
      by (auto simp: comp_def)
    then have "map eSize (map snd (cells s)) = map (\<lambda>(k, b, x). EstimateSize k b) (view_of s)"
      by (simp add: view_of_def comp_def)
    then show ?thesis by (simp only: view_size_def)
  qed
  finally show ?thesis .
qed

section \<open>Lemmas: eviction\<close>

lemma fit_count_le: "fit_count m v n \<le> n"
  by (induction n) (auto simp: le_SucI)

lemma fit_count_fits: "pos64 m \<Longrightarrow> \<not> less64 m (view_size (take (fit_count m v n) v))"
  by (induction n) (auto simp: view_size_def less64_def pos64_def)

lemma fit_count_max: "fit_count m v n < j \<Longrightarrow> j \<le> n \<Longrightarrow> less64 m (view_size (take j v))"
proof (induction n)
  case (Suc n)
  then show ?case by (cases "j = Suc n") (auto split: if_splits)
qed simp

lemma fit_count_cong: "(\<And>i. i \<le> n \<Longrightarrow> take i v = take i w) \<Longrightarrow> fit_count m v n = fit_count m w n"
  by (induction n) auto

lemma evict_loop_view:
  assumes "shard_inv s" "pos64 (MaxSize s)"
  shows "(view_of (fst (evict_loop s)), snd (evict_loop s)) = spec_evict (OnEvict s) (MaxSize s) (view_of s)"
proof -
  have "pos64 (MaxSize s) \<longrightarrow>
      (view_of (fst (evict_loop s)), snd (evict_loop s)) = spec_evict (OnEvict s) (MaxSize s) (view_of s)"
    using assms(1)
  proof (rule evict_loop_induct [where P = "\<lambda>s r. pos64 (MaxSize s) \<longrightarrow>
      (view_of (fst r), snd r) = spec_evict (OnEvict s) (MaxSize s) (view_of s)"])
    fix s assume inv: "shard_inv s" and stop: "\<not> less64 (MaxSize s) (Size s) \<or> cells s = []"
    have "fit_count (MaxSize s) (view_of s) (length (view_of s)) = length (view_of s)"
      using stop Size_view [OF inv] by (cases "view_of s") (auto simp: view_of_def)
    then show "pos64 (MaxSize s) \<longrightarrow> (view_of (fst (s, [])), snd (s, [])) =
        spec_evict (OnEvict s) (MaxSize s) (view_of s)"
      by (simp add: spec_evict_def)
  next
    fix s e r
    assume inv: "shard_inv s" and big: "less64 (MaxSize s) (Size s)" and ne: "cells s \<noteq> []"
      and e: "e = snd (last (cells s))"
      and IH: "pos64 (MaxSize (removeLocked (eKey e) e s)) \<longrightarrow> (view_of (fst r), snd r) =
        spec_evict (OnEvict (removeLocked (eKey e) e s)) (MaxSize (removeLocked (eKey e) e s))
          (view_of (removeLocked (eKey e) e s))"
    let ?v = "view_of s"
    define m where "m = length ?v - 1"
    define n where "n = fit_count (MaxSize s) ?v m"
    have v': "view_of (removeLocked (eKey e) e s) = butlast ?v"
      using oldest_entry(3) [OF inv ne e] by (simp add: view_of_def map_butlast)
    have vne: "?v \<noteq> []" "length ?v = Suc m" using ne by (simp_all add: view_of_def m_def)
    have last: "last ?v = (eKey e, eValue e, eExpiresAt e)"
      using ne e by (simp add: view_of_def last_map)
    have n1: "fit_count (MaxSize s) ?v (length ?v) = n"
      using big vne Size_view [OF inv] by (simp add: n_def)
    have n2: "fit_count (MaxSize s) (butlast ?v) (length (butlast ?v)) = n"
      unfolding n_def m_def length_butlast
      by (rule fit_count_cong) (simp add: take_butlast m_def [symmetric] vne(2))
    have nm: "n \<le> m" unfolding n_def by (rule fit_count_le)
    have tk: "take n (butlast ?v) = take n ?v" using nm vne by (simp add: take_butlast)
    have dr: "rev (drop n ?v) = last ?v # rev (drop n (butlast ?v))"
    proof -
      have "?v = butlast ?v @ [last ?v]" using vne by simp
      then have "drop n ?v = drop n (butlast ?v) @ [last ?v]"
        using nm vne by (metis diff_is_0_eq drop0 drop_append length_butlast m_def)
      then show ?thesis by simp
    qed
    show "pos64 (MaxSize s) \<longrightarrow> (view_of (fst (fst r, (if OnEvict s then [(eKey e, eValue e)] else []) @ snd r)),
        snd (fst r, (if OnEvict s then [(eKey e, eValue e)] else []) @ snd r)) =
        spec_evict (OnEvict s) (MaxSize s) ?v"
      using IH by (auto simp: spec_evict_def Let_def v' n1 n2 [simplified] tk dr last)
  qed
  with assms(2) show ?thesis by simp
qed

lemma evict_loop_frame:
  assumes "shard_inv s"
  shows "MaxSize (fst (evict_loop s)) = MaxSize s \<and> OnEvict (fst (evict_loop s)) = OnEvict s \<and>
    OnExpire (fst (evict_loop s)) = OnExpire s"
  using assms
  by (rule evict_loop_induct [where P = "\<lambda>s r. MaxSize (fst r) = MaxSize s \<and>
      OnEvict (fst r) = OnEvict s \<and> OnExpire (fst r) = OnExpire s"]) simp_all

text \<open>The limits and callbacks an operation never changes.\<close>

definition same_config :: "shard \<Rightarrow> shard \<Rightarrow> bool" where
  "same_config s s' \<longleftrightarrow>
     MaxSize s' = MaxSize s \<and> OnEvict s' = OnEvict s \<and> OnExpire s' = OnExpire s"

text \<open>
  What a refinement step of the shard has to show: the invariant, the configuration, and that
  the new list and the answer are those of the specification.
\<close>

definition refines :: "shard \<Rightarrow> shard \<times> 'a \<Rightarrow> lru_view \<times> 'a \<Rightarrow> bool" where
  "refines s r q \<longleftrightarrow> shard_inv (fst r) \<and> same_config s (fst r) \<and> view_of (fst r) = fst q \<and> snd r = snd q"

lemma evictLocked_refines:
  assumes "shard_inv s"
  shows "refines s (evictLocked s) (spec_evict (OnEvict s) (MaxSize s) (view_of s))"
proof (cases "pos64 (MaxSize s)")
  case True
  then show ?thesis
    using evict_loop_view [OF assms True, symmetric] evict_loop_frame [OF assms]
      shard_inv_evictLocked [OF assms]
    by (simp add: refines_def evictLocked_def same_config_def)
next
  case False
  then show ?thesis using assms by (simp add: refines_def evictLocked_def spec_evict_def same_config_def)
qed

section \<open>Lemmas: every operation refines its specification\<close>

lemma insert_entry_refines:
  assumes inv: "shard_inv (s\<lparr>items := gm_del key (items s)\<rparr>)" and wf: "gm_wf (items s)"
  shows "refines s (insert_entry now key value ttl s)
    (spec_evict (OnEvict s) (MaxSize s) ((key, value, expires_at now ttl) # view_of s))"
  using evictLocked_refines [OF shard_inv_push_entry [OF wf inv], of now "value" ttl]
  by (simp add: insert_entry_def view_of_push_entry refines_def same_config_def)

lemma insert_entry_new_refines:
  assumes inv: "shard_inv s" and new: "gm_get (items s) key = None"
  shows "refines s (insert_entry now key value ttl s)
    (spec_put (OnEvict s) (MaxSize s) now key value ttl (view_of s))"
proof -
  have "s\<lparr>items := gm_del key (items s)\<rparr> = s" "gm_del key (view_of s) = view_of s"
    using new view_of_get [OF inv, of key] gm_notin [of key "view_of s"]
    by (simp_all add: map_of_eq_None_iff)
  then show ?thesis
    using insert_entry_refines [of key s now "value" ttl] inv shard_inv_wf [OF inv]
    by (simp add: spec_put_def)
qed

lemma shard_Set_refines:
  assumes inv: "shard_inv s"
  shows "refines s (shard_Set now key value ttl s)
    (spec_put (OnEvict s) (MaxSize s) now key value ttl (view_of s))"
proof (cases "gm_get (items s) key")
  case None
  then show ?thesis using insert_entry_new_refines [OF inv None] by (simp add: shard_Set_def)
next
  case (Some e)
  let ?s = "s\<lparr>Size := Size s - eSize e, lru := lru_remove (eElement e) (lru s)\<rparr>"
  have eq: "?s\<lparr>items := gm_del key (items ?s)\<rparr> = removeLocked key e s"
    by (simp add: removeLocked_def)
  have "view_of ?s = view_of (removeLocked key e s)"
    by (simp add: view_of_def cells_def removeLocked_def)
  then have v: "view_of ?s = gm_del key (view_of s)"
    using view_of_removeLocked [OF inv Some] by simp
  have "refines ?s (insert_entry now key value ttl ?s)
      (spec_evict (OnEvict ?s) (MaxSize ?s) ((key, value, expires_at now ttl) # view_of ?s))"
    by (rule insert_entry_refines) (use shard_inv_removeLocked [OF inv Some] shard_inv_wf [OF inv] eq in simp_all)
  then show ?thesis
    using Some v by (simp add: shard_Set_def spec_put_def refines_def same_config_def)
qed

lemma removeLocked_refines:
  assumes "shard_inv s" "gm_get (items s) key = Some e"
  shows "refines s (removeLocked key e s, x) (gm_del key (view_of s), x)"
  using assms shard_inv_removeLocked view_of_removeLocked
  by (simp add: refines_def same_config_def)

lemma refines_refl: "shard_inv s \<Longrightarrow> refines s (s, x) (view_of s, x)"
  by (simp add: refines_def same_config_def)

lemma shard_Get_refines:
  assumes inv: "shard_inv s" shows "refines s (shard_Get now key s) (spec_get now key (view_of s))"
proof (cases "gm_get (items s) key")
  case None
  then show ?thesis using inv by (simp add: shard_Get_def spec_get_def view_of_get refines_refl)
next
  case (Some e)
  have "refines s (s\<lparr>lru := MoveToFront (eElement e) (lru s)\<rparr>, Some (eValue e))
      ((key, eValue e, eExpiresAt e) # gm_del key (view_of s), Some (eValue e))"
    using shard_inv_MoveToFront [OF inv Some] view_of_MoveToFront [OF inv Some]
    by (simp add: refines_def same_config_def)
  with Some inv show ?thesis
    by (simp add: shard_Get_def spec_get_def view_of_get IsExpired_dead removeLocked_refines)
qed

lemma shard_Delete_refines:
  assumes inv: "shard_inv s"
  shows "refines s (shard_Delete key s) (gm_del key (view_of s), key \<in> set (gm_keys (view_of s)))"
proof (cases "gm_get (items s) key")
  case None
  then have "key \<notin> fst ` set (view_of s)" using view_of_get [OF inv, of key] by (simp add: gm_notin)
  then show ?thesis using None refines_refl [OF inv] by (simp add: shard_Delete_def)
next
  case (Some e)
  then have "key \<in> fst ` set (view_of s)"
    using view_of_get [OF inv, of key] gm_notin [of key "view_of s"] by auto
  then show ?thesis using removeLocked_refines [OF inv Some] Some by (simp add: shard_Delete_def)
qed

lemma purge_expired_refines:
  assumes inv: "shard_inv s" and get: "gm_get (items s) key = Some e" "IsExpired now e"
  shows "refines s (purge_expired now key s, x) (gm_del key (view_of s), x)"
  using removeLocked_refines [OF inv get(1)] get by (simp add: purge_expired_def)

lemma shard_Exists_refines:
  assumes inv: "shard_inv s" and t: "t1 \<le> t2"
  shows "refines s (shard_Exists t1 t2 key s)
    (let r = spec_peek t1 key (view_of s) in (fst r, snd r \<noteq> None))"
proof (cases "gm_get (items s) key")
  case None
  then show ?thesis
    using refines_refl [OF inv] by (simp add: shard_Exists_def spec_peek_def view_of_get [OF inv])
next
  case (Some e)
  then show ?thesis
    using t dead_mono [of t1 "eExpiresAt e" t2]
    by (simp add: shard_Exists_def spec_peek_def view_of_get [OF inv] IsExpired_dead
        refines_refl [OF inv] purge_expired_refines [OF inv Some])
qed

lemma entry_TTL_remaining: "entry_TTL now e = remaining_ttl now (eExpiresAt e)"
  by (auto simp: entry_TTL_def remaining_ttl_def Let_def split: option.splits)

lemma shard_TTL_refines:
  assumes inv: "shard_inv s" and t: "t1 \<le> t2"
  shows "refines s (shard_TTL t1 t2 key s)
    (let r = spec_peek t1 key (view_of s)
     in (fst r, case snd r of None \<Rightarrow> 0 | Some (b, x) \<Rightarrow> remaining_ttl t2 x))"
proof (cases "gm_get (items s) key")
  case None
  then show ?thesis
    using refines_refl [OF inv] by (simp add: shard_TTL_def spec_peek_def view_of_get [OF inv])
next
  case (Some e)
  then show ?thesis
    using t dead_mono [of t1 "eExpiresAt e" t2]
    by (simp add: shard_TTL_def spec_peek_def view_of_get [OF inv] IsExpired_dead
        entry_TTL_remaining refines_refl [OF inv] purge_expired_refines [OF inv Some])
qed

lemma incr_store_refines:
  assumes inv: "shard_inv s" and new: "gm_get (items s) key = None"
  shows "refines s (incr_store mp now key n ttl s)
    (case marshal_int64 mp n of
       Inl err \<Rightarrow> (view_of s, [], Inl err)
     | Inr b \<Rightarrow> (let r = spec_put (OnEvict s) (MaxSize s) now key b ttl (view_of s)
                 in (fst r, snd r, Inr n)))"
  using insert_entry_new_refines [OF inv new, of now _ ttl]
  by (auto simp: incr_store_def inv refines_def same_config_def Let_def split: sum.split)

lemma spec_put_del: "spec_put ev m now key b ttl (gm_del key v) = spec_put ev m now key b ttl v"
  by (simp add: spec_put_def delete_idem)

lemma incr_store_removed_refines:
  assumes inv: "shard_inv s" and get: "gm_get (items s) key = Some e"
  shows "refines s (incr_store mp now key n ttl (removeLocked key e s))
    (case marshal_int64 mp n of
       Inl err \<Rightarrow> (gm_del key (view_of s), [], Inl err)
     | Inr b \<Rightarrow> (let r = spec_put (OnEvict s) (MaxSize s) now key b ttl (view_of s)
                 in (fst r, snd r, Inr n)))"
  using incr_store_refines [OF shard_inv_removeLocked [OF inv get], of key mp now n ttl]
  by (simp add: view_of_removeLocked [OF inv get] spec_put_del refines_def same_config_def
      cong: sum.case_cong)

lemma shard_Incr_refines:
  assumes inv: "shard_inv s" and t: "t1 \<le> t2"
  shows "refines s (shard_Incr mp t1 t2 t3 key delta ttl s)
    (spec_incr mp (OnEvict s) (MaxSize s) t1 t2 t3 key delta ttl (view_of s))"
proof (cases "gm_get (items s) key")
  case None
  then have "gm_del key (view_of s) = view_of s"
    using view_of_get [OF inv, of key] gm_notin [of key "view_of s"] by simp
  then show ?thesis
    using incr_store_refines [OF inv None, of mp t3 delta ttl] None
    by (simp add: shard_Incr_def spec_incr_def Let_def view_of_get [OF inv] cong: sum.case_cong)
next
  case (Some e)
  have s': "s\<lparr>Size := Size s - eSize e, lru := lru_remove (eElement e) (lru s),
      items := gm_del key (items s)\<rparr> = removeLocked key e s"
    by (simp add: removeLocked_def)
  have ttl: "incr_ttl t2 e =
      (case eExpiresAt e of Some t \<Rightarrow> if t2 < t then time_until t2 t else 0 | None \<Rightarrow> 0)"
    by (simp add: incr_ttl_def Let_def split: option.split)
  note rem = incr_store_removed_refines [OF inv Some]
  show ?thesis
  proof (cases "IsExpired t1 e")
    case True
    then have "IsExpired t2 e" using t dead_mono by (auto simp: IsExpired_dead)
    with True Some rem [of mp t3 delta ttl] show ?thesis
      by (simp add: shard_Incr_def spec_incr_def Let_def view_of_get [OF inv] IsExpired_dead)
  next
    case False
    show ?thesis
    proof (cases "unmarshal_int64 mp (eValue e)")
      case (Inl err)
      with False Some show ?thesis
        by (simp add: shard_Incr_def spec_incr_def Let_def view_of_get [OF inv] IsExpired_dead
            refines_refl [OF inv])
    next
      case (Inr n)
      with False Some rem [of mp t3 "n + delta" "incr_ttl t2 e"] show ?thesis
        by (simp add: shard_Incr_def spec_incr_def Let_def view_of_get [OF inv] IsExpired_dead s' flip: ttl)
    qed
  qed
qed

text \<open>A sweep removes the expired entries of the suffix of the map it still has to visit.\<close>

lemma delete_expired_loop_refines:
  assumes "shard_inv s" "distinct (map fst xs)" "\<And>k e. (k, e) \<in> set xs \<Longrightarrow> gm_get (items s) k = Some e"
  shows "refines s (delete_expired_loop now xs s)
    (foldl (\<lambda>v (k, e). if IsExpired now e then gm_del k v else v) (view_of s) xs,
     if OnExpire s then map (\<lambda>(k, e). (k, eValue e)) (filter (\<lambda>(k, e). IsExpired now e) xs) else [],
     length (filter (\<lambda>(k, e). IsExpired now e) xs))"
  using assms
proof (induction xs arbitrary: s)
  case Nil
  then show ?case by (simp add: refines_refl)
next
  case (Cons p xs)
  obtain k e where p: "p = (k, e)" by (cases p)
  have get: "gm_get (items s) k = Some e" using Cons.prems(3) p by simp
  show ?case
  proof (cases "IsExpired now e")
    case True
    let ?s = "removeLocked k e s"
    have "gm_get (items ?s) k' = Some e'" if "(k', e') \<in> set xs" for k' e'
      using that Cons.prems(2,3) p by (force simp: image_iff)
    then have "refines ?s (delete_expired_loop now xs ?s)
      (foldl (\<lambda>v (k, e). if IsExpired now e then gm_del k v else v) (view_of ?s) xs,
       if OnExpire ?s then map (\<lambda>(k, e). (k, eValue e)) (filter (\<lambda>(k, e). IsExpired now e) xs) else [],
       length (filter (\<lambda>(k, e). IsExpired now e) xs))"
      using Cons.IH [of ?s] shard_inv_removeLocked [OF Cons.prems(1) get] Cons.prems(2) by simp
    with True p show ?thesis
      using view_of_removeLocked [OF Cons.prems(1) get]
      by (auto simp: refines_def same_config_def Let_def split: prod.split)
  next
    case False
    with Cons.IH [OF Cons.prems(1)] Cons.prems(2,3) p show ?thesis by (cases "OnExpire s") simp_all
  qed
qed

lemma foldl_gm_del:
  "foldl (\<lambda>v (k, e). if P e then gm_del k v else v) v xs =
   filter (\<lambda>p. \<not> (\<exists>e. (fst p, e) \<in> set xs \<and> P e)) v"
proof (induction xs arbitrary: v)
  case (Cons x xs)
  then show ?case by (cases x) (auto simp: AList.delete_eq intro!: filter_cong)
qed simp

lemma shard_DeleteExpired_refines:
  assumes inv: "shard_inv s"
  shows "refines s (fst (shard_DeleteExpired now s), snd (snd (shard_DeleteExpired now s)))
    (spec_sweep now (view_of s))"
proof -
  note wf = shard_inv_wf [OF inv]
  have in_items: "(k, e) \<in> set (items s) \<longleftrightarrow> gm_get (items s) k = Some e" for k e
    using gm_in_set [OF wf] by blast
  have ref: "refines s (shard_DeleteExpired now s)
    (foldl (\<lambda>v (k, e). if IsExpired now e then gm_del k v else v) (view_of s) (items s),
     if OnExpire s then map (\<lambda>(k, e). (k, eValue e)) (filter (\<lambda>(k, e). IsExpired now e) (items s)) else [],
     length (filter (\<lambda>(k, e). IsExpired now e) (items s)))"
    unfolding shard_DeleteExpired_def
    by (rule delete_expired_loop_refines [OF inv wf]) (simp add: in_items)
  have exp: "(\<exists>e. (k, e) \<in> set (items s) \<and> IsExpired now e) \<longleftrightarrow> dead now x"
    if "(k, b, x) \<in> set (view_of s)" for k b x
  proof -
    have "gm_get (view_of s) k = Some (b, x)"
      using that gm_in_set [OF view_of_wf [OF inv]] by blast
    then show ?thesis by (auto simp: in_items IsExpired_dead view_of_get [OF inv])
  qed
  have 1: "filter (\<lambda>p. \<not> (\<exists>e. (fst p, e) \<in> set (items s) \<and> IsExpired now e)) (view_of s) =
      filter (\<lambda>(k, b, x). \<not> dead now x) (view_of s)"
    by (rule filter_cong [OF refl]) (auto simp: exp case_prod_beta simp del: not_ex, use exp in blast)
  have "length (filter (\<lambda>(k, e). IsExpired now e) (items s)) =
      size (filter_mset (IsExpired now) (mset (map snd (items s))))"
    by (simp add: filter_mset_image_mset case_prod_unfold flip: mset_filter)
  also have "\<dots> = size (filter_mset (IsExpired now) (mset (map snd (cells s))))"
    by (simp only: mset_items_cells [OF inv])
  also have "\<dots> = length (filter (\<lambda>(k, b, x). dead now x) (view_of s))"
    by (simp add: view_of_def filter_map comp_def IsExpired_dead filter_mset_image_mset flip: mset_filter)
  finally show ?thesis
    using ref 1 by (simp add: refines_def spec_sweep_def foldl_gm_del)
qed

lemma shard_step_refines:
  assumes inv: "shard_inv s" and ok: "op_ok op"
  shows "refines s (shard_step mp op s) (spec_step mp (OnEvict s) (MaxSize s) op (view_of s))"
proof (cases op)
  case (OpIncr t1 t2 t3 k d ttl)
  with ok shard_Incr_refines [OF inv, of t1 t2 mp t3 k d ttl] show ?thesis
    by (simp add: refines_def Let_def)
next
  case (OpExists t1 t2 k)
  with ok shard_Exists_refines [OF inv, of t1 t2 k] show ?thesis by (simp add: refines_def Let_def)
next
  case (OpTTL t1 t2 k)
  with ok shard_TTL_refines [OF inv, of t1 t2 k] show ?thesis by (simp add: refines_def Let_def)
qed (use shard_Get_refines [OF inv] shard_Set_refines [OF inv] shard_Delete_refines [OF inv]
    shard_DeleteExpired_refines [OF inv] in \<open>simp_all add: refines_def Let_def\<close>)

lemma shard_run_refines_from:
  assumes "shard_inv s" "list_all op_ok ops"
  shows "refines s (shard_run mp ops s) (spec_run mp (OnEvict s) (MaxSize s) ops (view_of s))"
  using assms
proof (induction ops arbitrary: s)
  case (Cons op ops)
  obtain s' out where st: "shard_step mp op s = (s', out)" by (cases "shard_step mp op s")
  have r: "refines s (s', out) (spec_step mp (OnEvict s) (MaxSize s) op (view_of s))"
    using shard_step_refines [OF Cons.prems(1), of op mp] Cons.prems(2) st by simp
  then have "refines s' (shard_run mp ops s') (spec_run mp (OnEvict s') (MaxSize s') ops (view_of s'))"
    using Cons.IH Cons.prems(2) by (simp add: refines_def)
  with r st show ?case
    by (auto simp: refines_def same_config_def split: prod.split)
qed (simp add: refines_refl)

section \<open>Lemmas: what a reader sees\<close>

lemma live_view:
  "shard_inv s \<Longrightarrow> live now s k =
     (case gm_get (view_of s) k of None \<Rightarrow> None | Some (b, x) \<Rightarrow> if dead now x then None else Some b)"
  by (simp add: live_def view_of_get IsExpired_dead split: option.split)

lemma gm_get_take: "gm_wf v \<Longrightarrow> gm_get (take n v) k = Some y \<Longrightarrow> gm_get v k = Some y"
  by (metis distinct_take gm_in_set in_set_takeD take_map)

lemma spec_evict_sub: "gm_wf v \<Longrightarrow> gm_get (fst (spec_evict ev m v)) k = Some y \<Longrightarrow> gm_get v k = Some y"
  by (auto simp: spec_evict_def Let_def dest: gm_get_take split: if_splits)

lemma spec_evict_unlimited: "\<not> pos64 m \<Longrightarrow> spec_evict ev m v = (v, [])"
  by (simp add: spec_evict_def)

lemma gm_wf_Cons_del: "gm_wf v \<Longrightarrow> gm_wf ((k, y) # gm_del k v)"
  using delete_notin_dom [of k v] by simp

text \<open>A write only ever adds its own key to what a reader sees; without a limit it does so exactly.\<close>

lemma live_Set_sub:
  assumes inv: "shard_inv s"
  shows "live t (fst (shard_Set now k b ttl s)) \<subseteq>\<^sub>m
    (live t s)(k := if dead t (expires_at now ttl) then None else Some b)"
proof -
  note r = shard_Set_refines [OF inv, of now k b ttl, unfolded refines_def]
  have inv': "shard_inv (fst (shard_Set now k b ttl s))" using r by simp
  let ?v = "(k, b, expires_at now ttl) # gm_del k (view_of s)"
  have sub: "gm_get ?v k' = Some y" if "gm_get (view_of (fst (shard_Set now k b ttl s))) k' = Some y" for k' y
    using that r spec_evict_sub [OF gm_wf_Cons_del [OF view_of_wf [OF inv]]]
    by (simp add: spec_put_def)
  show ?thesis
    unfolding map_le_def
  proof (intro ballI)
    fix k' assume "k' \<in> dom (live t (fst (shard_Set now k b ttl s)))"
    then obtain b' x where g: "gm_get (view_of (fst (shard_Set now k b ttl s))) k' = Some (b', x)"
      and nd: "\<not> dead t x"
      using live_view [OF inv'] by (auto split: option.splits if_splits)
    from sub [OF g] g nd
    show "live t (fst (shard_Set now k b ttl s)) k' =
        ((live t s)(k := if dead t (expires_at now ttl) then None else Some b)) k'"
      by (auto simp: live_view [OF inv] live_view [OF inv'] split: if_splits)
  qed
qed

lemma live_Set_unlimited:
  assumes inv: "shard_inv s" and unl: "\<not> pos64 (MaxSize s)"
  shows "live t (fst (shard_Set now k b ttl s)) =
    (live t s)(k := if dead t (expires_at now ttl) then None else Some b)"
proof -
  note r = shard_Set_refines [OF inv, of now k b ttl, unfolded refines_def]
  have inv': "shard_inv (fst (shard_Set now k b ttl s))" using r by simp
  have v: "view_of (fst (shard_Set now k b ttl s)) = (k, b, expires_at now ttl) # gm_del k (view_of s)"
    using r unl by (simp add: spec_put_def spec_evict_unlimited)
  show ?thesis by (rule ext) (simp add: live_view [OF inv] live_view [OF inv'] v)
qed

text \<open>The key just written survives the eviction whenever its own entry fits the limit.\<close>

lemma live_Set_fits:
  assumes inv: "shard_inv s" and fits: "\<not> less64 (MaxSize s) (EstimateSize k b)"
  shows "live t (fst (shard_Set now k b ttl s)) k =
    (if dead t (expires_at now ttl) then None else Some b)"
proof -
  note r = shard_Set_refines [OF inv, of now k b ttl, unfolded refines_def]
  have inv': "shard_inv (fst (shard_Set now k b ttl s))" using r by simp
  let ?v = "(k, b, expires_at now ttl) # gm_del k (view_of s)"
  let ?n = "fit_count (MaxSize s) ?v (length ?v)"
  have "?n \<noteq> 0"
  proof
    assume "?n = 0"
    then have "less64 (MaxSize s) (view_size (take 1 ?v))"
      using fit_count_max [of "MaxSize s" ?v "length ?v" 1] by simp
    then show False using fits by (simp add: view_size_def)
  qed
  then obtain n where n: "?n = Suc n" by (cases ?n) auto
  have "gm_get (fst (spec_evict (OnEvict s) (MaxSize s) ?v)) k = Some (b, expires_at now ttl)"
    using n by (simp add: spec_evict_def Let_def del: fit_count.simps)
  then show ?thesis
    using r by (simp add: live_view [OF inv'] spec_put_def)
qed

lemma live_Get: "snd (shard_Get now k s) = live now s k"
  by (simp add: shard_Get_def live_def split: option.split)

lemma live_MoveToFront: "live t (s\<lparr>lru := l\<rparr>) = live t s"
  by (simp add: live_def fun_eq_iff)

lemma live_removeLocked: "live t (removeLocked k e s) = (live t s)(k := None)"
  by (simp add: live_def fun_eq_iff)

lemma live_expired: "gm_get (items s) k = Some e \<Longrightarrow> IsExpired now e \<Longrightarrow> now \<le> t \<Longrightarrow> live t s k = None"
  using dead_mono by (auto simp: live_def IsExpired_dead)

lemma live_after_purge: "now \<le> t \<Longrightarrow> live t (purge_expired now k s) = live t s"
  using live_expired by (auto simp: purge_expired_def live_removeLocked fun_eq_iff split: option.split)

lemma live_after_Get: "now \<le> t \<Longrightarrow> live t (fst (shard_Get now k s)) = live t s"
  using live_expired
  by (auto simp: shard_Get_def live_removeLocked live_MoveToFront fun_eq_iff split: option.split)

lemma live_after_Exists: "t2 \<le> t \<Longrightarrow> live t (fst (shard_Exists t1 t2 k s)) = live t s"
  by (auto simp: shard_Exists_def live_after_purge split: option.split)

lemma live_Exists: "snd (shard_Exists t1 t2 k s) \<longleftrightarrow> live t1 s k \<noteq> None"
  by (simp add: shard_Exists_def live_def split: option.split)

lemma live_after_TTL: "t2 \<le> t \<Longrightarrow> live t (fst (shard_TTL t1 t2 k s)) = live t s"
  by (auto simp: shard_TTL_def live_after_purge split: option.split)

lemma live_Delete: "live t (fst (shard_Delete k s)) = (live t s)(k := None)"
  by (auto simp: shard_Delete_def live_removeLocked live_def fun_eq_iff split: option.split)

lemma live_after_DeleteExpired:
  assumes inv: "shard_inv s" and t: "now \<le> t"
  shows "live t (fst (shard_DeleteExpired now s)) = live t s"
proof -
  note r = shard_DeleteExpired_refines [OF inv, of now, unfolded refines_def]
  have inv': "shard_inv (fst (shard_DeleteExpired now s))" using r by simp
  note wf = view_of_wf [OF inv] and wf' = view_of_wf [OF inv']
  have v: "view_of (fst (shard_DeleteExpired now s)) = filter (\<lambda>(k, b, x). \<not> dead now x) (view_of s)"
    using r by (simp add: spec_sweep_def)
  have in_v: "gm_get (view_of (fst (shard_DeleteExpired now s))) k = Some (b, x) \<longleftrightarrow>
      gm_get (view_of s) k = Some (b, x) \<and> \<not> dead now x" for k b x
    unfolding gm_in_set [OF wf, symmetric] gm_in_set [OF wf', symmetric] by (simp add: v)
  show ?thesis
  proof (rule ext)
    fix k
    show "live t (fst (shard_DeleteExpired now s)) k = live t s k"
    proof (cases "gm_get (view_of s) k")
      case None
      then have "gm_get (view_of (fst (shard_DeleteExpired now s))) k = None"
        using in_v [of k] by (cases "gm_get (view_of (fst (shard_DeleteExpired now s))) k") auto
      with None show ?thesis by (simp add: live_view [OF inv] live_view [OF inv'])
    next
      case (Some p)
      obtain b x where p: "p = (b, x)" by (cases p)
      show ?thesis
      proof (cases "dead now x")
        case True
        then have "gm_get (view_of (fst (shard_DeleteExpired now s))) k = None"
          using in_v [of k] Some p True by (metis not_None_eq option.inject prod.inject surj_pair)
        with True Some p t show ?thesis
          using dead_mono by (auto simp: live_view [OF inv] live_view [OF inv'])
      next
        case False
        then have "gm_get (view_of (fst (shard_DeleteExpired now s))) k = Some (b, x)"
          using in_v Some p by simp
        with Some p show ?thesis by (simp add: live_view [OF inv] live_view [OF inv'])
      qed
    qed
  qed
qed

end
