(* ===== verification/Shard_Props.thy ===== *)
theory Shard_Props
  imports Shard_Refine
begin

text \<open>
  The properties of \<open>src/internal/cache/shard.go\<close>, each at the level of a whole operation or of
  a whole run of operations from \<open>NewShard\<close>.
\<close>

section \<open>Definitions\<close>

text \<open>A fresh shard with the callbacks that \<open>SetOnEvict\<close> and \<open>SetOnExpire\<close> installed.\<close>

definition fresh_shard :: "int64 \<Rightarrow> bool \<Rightarrow> bool \<Rightarrow> shard" where
  "fresh_shard maxSize ev ex = (NewShard maxSize)\<lparr>OnEvict := ev, OnExpire := ex\<rparr>"

text \<open>The expiry time of a counter after \<open>Incr\<close>, from its expiry time before.\<close>

definition incr_expiry :: "instant \<Rightarrow> instant \<Rightarrow> instant option \<Rightarrow> instant option" where
  "incr_expiry t2 t3 x =
     (case x of None \<Rightarrow> None | Some e \<Rightarrow> if t2 < e then Some (time_add t3 (time_until t2 e)) else None)"

section \<open>Lemmas\<close>

lemma shard_inv_fresh: "shard_inv (fresh_shard maxSize ev ex)"
  by (rule shard_invI) (auto simp: fresh_shard_def NewShard_def cells_def NewLRUList_def)

lemma fresh_shard_simps [simp]:
  "view_of (fresh_shard m ev ex) = []" "OnEvict (fresh_shard m ev ex) = ev"
  "MaxSize (fresh_shard m ev ex) = m" "OnExpire (fresh_shard m ev ex) = ex"
  "items (fresh_shard m ev ex) = []"
  by (simp_all add: fresh_shard_def NewShard_def NewLRUList_def view_of_def cells_def)

lemma length_items_view: "shard_inv s \<Longrightarrow> length (items s) = length (view_of s)"
  using arg_cong [OF mset_items_cells, of s size] by (simp add: view_of_def)

lemma length_view_of: "length (view_of s) = lru_len (lru s)"
  by (simp add: view_of_def cells_def lru_len_def)

lemma expires_at_incr_ttl:
  "expires_at t3 (case x of Some t \<Rightarrow> if t2 < t then time_until t2 t else 0 | None \<Rightarrow> 0) =
   incr_expiry t2 t3 x"
  by (simp add: expires_at_def incr_expiry_def split: option.split)

text \<open>\<open>Incr\<close> of a live counter without a size limit.\<close>

lemma shard_Incr_view:
  assumes mp: "msgpack_int_ok mp" and inv: "shard_inv s" and t: "t1 \<le> t2"
    and get: "gm_get (view_of s) k = Some (int64_bytes mp n, x)" and live: "\<not> dead t1 x"
    and unl: "\<not> pos64 (MaxSize s)"
  shows "view_of (fst (shard_Incr mp t1 t2 t3 k d ttl s)) =
      (k, int64_bytes mp (n + d), incr_expiry t2 t3 x) # gm_del k (view_of s)"
    and "snd (shard_Incr mp t1 t2 t3 k d ttl s) = ([], Inr (n + d))"
    and "shard_inv (fst (shard_Incr mp t1 t2 t3 k d ttl s))"
  using shard_Incr_refines [OF inv t, of mp t3 k d ttl] get live unl
  by (simp_all add: refines_def spec_incr_def Let_def msgpack_int_unmarshal [OF mp]
      msgpack_int_marshal [OF mp] spec_put_def spec_evict_unlimited expires_at_incr_ttl)

section \<open>Properties\<close>

text \<open>
  C5: a shard is an LRU cache. For every sequence of operations on a fresh shard, each with
  clock readings in order, every answer (values, misses, deletions, lifetimes, counters,
  evicted entries in order, sweep counts) is the one the list specification gives, and the
  entries left, from most to least recently used, are those of the specification.
\<close>

theorem shard_refines_lru:
  assumes "list_all op_ok ops"
  shows "snd (shard_run mp ops (fresh_shard maxSize ev ex)) = snd (spec_run mp ev maxSize ops []) \<and>
    view_of (fst (shard_run mp ops (fresh_shard maxSize ev ex))) = fst (spec_run mp ev maxSize ops [])"
  using shard_run_refines_from [OF shard_inv_fresh assms, where mp = mp]
  by (simp add: refines_def)

theorem shard_refines_lru_witness:
  "snd (shard_run fixed_msgpack
      [OpSet 0 ''a'' [1] 0, OpSet 1 ''b'' [2] 50, OpGet 2 ''a'', OpSet 3 ''c'' [3] 0,
       OpGet 4 ''b'', OpGet 4 ''a'', OpIncr 5 5 5 ''n'' 7 0]
      (fresh_shard 400 True True)) =
    [OutEvicted [], OutEvicted [], OutValue (Some [1]), OutEvicted [(''b'', [2])],
     OutValue None, OutValue (Some [1]), OutIncr [(''c'', [3])] (Inr 7)]"
proof -
  let ?ops = "[OpSet 0 ''a'' [1] 0, OpSet 1 ''b'' [2] 50, OpGet 2 ''a'', OpSet 3 ''c'' [3] 0,
       OpGet 4 ''b'', OpGet 4 ''a'', OpIncr 5 5 5 ''n'' 7 0]"
  have "list_all op_ok ?ops" by simp
  moreover have "snd (spec_run fixed_msgpack True 400 ?ops []) =
    [OutEvicted [], OutEvicted [], OutValue (Some [1]), OutEvicted [(''b'', [2])],
     OutValue None, OutValue (Some [1]), OutIncr [(''c'', [3])] (Inr 7)]"
    by code_simp
  ultimately show ?thesis using shard_refines_lru [of ?ops fixed_msgpack 400 True True] by simp
qed

text \<open>
  C18: the well-formedness of a shard. After any sequence of operations on a fresh shard the map
  and the recency list hold the same entries, each in the cell its \<open>Element\<close> names and under
  its own key; \<open>Size\<close> is the sum of the sizes of the entries (in 64-bit arithmetic), \<open>Len\<close>
  is the length of the recency list, and the limit and the callbacks are unchanged.
\<close>

theorem shard_run_invariant:
  assumes "list_all op_ok ops"
  shows "let s = fst (shard_run mp ops (fresh_shard maxSize ev ex))
    in shard_inv s \<and> Size s = view_size (view_of s) \<and> shard_Len s = lru_len (lru s) \<and>
       MaxSize s = maxSize \<and> OnEvict s = ev \<and> OnExpire s = ex"
proof -
  have r: "refines (fresh_shard maxSize ev ex) (shard_run mp ops (fresh_shard maxSize ev ex))
      (spec_run mp ev maxSize ops [])"
    using shard_run_refines_from [OF shard_inv_fresh assms, where mp = mp] by simp
  then have inv: "shard_inv (fst (shard_run mp ops (fresh_shard maxSize ev ex)))"
    by (simp add: refines_def)
  with r show ?thesis
    using length_items_view [OF inv] Size_view [OF inv]
    by (simp add: Let_def refines_def same_config_def shard_Len_def flip: length_view_of)
qed

theorem shard_run_invariant_witness:
  "let s = fst (shard_run fixed_msgpack [OpSet 0 ''a'' [1, 2] 0, OpIncr 1 1 1 ''n'' 5 0]
       (fresh_shard 0 True True))
   in shard_inv s \<and> Size s = 380 \<and> shard_Len s = 2"
proof -
  let ?ops = "[OpSet 0 ''a'' [1, 2] 0, OpIncr 1 1 1 ''n'' 5 0]"
  let ?s = "fst (shard_run fixed_msgpack ?ops (fresh_shard 0 True True))"
  have "list_all op_ok ?ops" by simp
  from shard_run_invariant [OF this, where mp = fixed_msgpack and maxSize = 0 and ev = True and ex = True]
  have "shard_inv ?s" by (simp add: Let_def)
  moreover have "Size ?s = 380 \<and> shard_Len ?s = 2" by code_simp
  ultimately show ?thesis by (simp add: Let_def)
qed

text \<open>
  C19: eviction. After \<open>Set\<close> under a positive limit the shard holds the written entry followed by
  the other entries in recency order, cut to the longest prefix whose size is within the limit:
  the accounted size does not exceed the limit, no longer prefix would fit, and \<open>OnEvict\<close> is
  started for exactly the entries cut off, the least recently used first.
\<close>

theorem shard_Set_evicts_oldest:
  assumes "shard_inv s" "pos64 (MaxSize s)"
  shows "\<exists>n. let v = (k, b, expires_at now ttl) # gm_del k (view_of s);
                s' = fst (shard_Set now k b ttl s)
    in view_of s' = take n v \<and> sint (Size s') \<le> sint (MaxSize s) \<and>
       (\<forall>m. n < m \<and> m \<le> length v \<longrightarrow> sint (MaxSize s) < sint (view_size (take m v))) \<and>
       snd (shard_Set now k b ttl s) =
         (if OnEvict s then map (\<lambda>(k, b, x). (k, b)) (rev (drop n v)) else [])"
proof -
  let ?v = "(k, b, expires_at now ttl) # gm_del k (view_of s)"
  let ?s' = "fst (shard_Set now k b ttl s)"
  let ?n = "fit_count (MaxSize s) ?v (length ?v)"
  have r: "view_of ?s' = take ?n ?v \<and> snd (shard_Set now k b ttl s) =
      (if OnEvict s then map (\<lambda>(k, b, x). (k, b)) (rev (drop ?n ?v)) else [])" "shard_inv ?s'"
    using shard_Set_refines [OF assms(1), of now k b ttl] assms(2)
    by (simp_all add: refines_def spec_put_def spec_evict_def Let_def del: fit_count.simps)
  have "sint (Size ?s') \<le> sint (MaxSize s)"
    using fit_count_fits [OF assms(2), of ?v "length ?v"] r Size_view [OF r(2)]
    by (simp add: less64_def)
  moreover have "\<forall>m. ?n < m \<and> m \<le> length ?v \<longrightarrow> sint (MaxSize s) < sint (view_size (take m ?v))"
    using fit_count_max [of "MaxSize s" ?v "length ?v"] by (simp add: less64_def)
  ultimately show ?thesis using r(1) by (intro exI [of _ ?n]) (simp add: Let_def)
qed

theorem shard_Set_evicts_oldest_witness:
  "let s = fst (shard_Set 1 ''b'' [2] 0 (fst (shard_Set 0 ''a'' [1] 0 (fresh_shard 200 True True))))
   in gm_keys (view_of s) = [''b''] \<and> sint (Size s) \<le> 200"
proof -
  let ?s = "fst (shard_Set 0 ''a'' [1] 0 (fresh_shard 200 True True))"
  have inv: "shard_inv ?s"
    using shard_Set_refines [OF shard_inv_fresh] by (simp add: refines_def)
  have m: "MaxSize ?s = 200"
    using shard_Set_refines [OF shard_inv_fresh, of 200 True True]
    by (simp add: refines_def same_config_def)
  have "pos64 (MaxSize ?s)" unfolding m by (simp add: pos64_def)
  from shard_Set_evicts_oldest [OF inv this, of "''b''" "[2]" 1 0] m
  have "sint (Size (fst (shard_Set 1 ''b'' [2] 0 ?s))) \<le> 200" by (auto simp: Let_def)
  moreover have "gm_keys (view_of (fst (shard_Set 1 ''b'' [2] 0 ?s))) = [''b'']" by code_simp
  ultimately show ?thesis by (simp add: Let_def)
qed

text \<open>
  reading what was written. After \<open>Set\<close>, a \<open>Get\<close> of the key answers the value until the
  entry's expiry time has passed and a miss afterwards, provided the shard has no limit or the
  entry itself fits the limit: an entry that fits is never evicted by its own insertion.
\<close>

lemma shard_Get_after_Set:
  assumes "shard_inv s" "\<not> pos64 (MaxSize s) \<or> \<not> less64 (MaxSize s) (EstimateSize k b)"
  shows "snd (shard_Get t k (fst (shard_Set now k b ttl s))) =
    (if pos64 ttl \<and> time_add now ttl < t then None else Some b)"
proof -
  have "live t (fst (shard_Set now k b ttl s)) k = (if dead t (expires_at now ttl) then None else Some b)"
    using assms live_Set_unlimited [OF assms(1), of t now k b ttl] live_Set_fits [OF assms(1), of k b t now ttl]
    by auto
  then show ?thesis by (simp add: live_Get expires_at_def dead_def)
qed

text \<open>
  \<open>Incr\<close> of a live counter in an unlimited shard answers the sum in 64-bit arithmetic, stores
  it, leaves every other key alone, and keeps the remaining lifetime measured at its second
  clock reading.
\<close>

lemma shard_Incr_adds:
  assumes "msgpack_int_ok mp" "shard_inv s" "\<not> pos64 (MaxSize s)" "t1 \<le> t2"
    and "gm_get (view_of s) k = Some (int64_bytes mp n, x)" "\<not> dead t1 x"
  shows "let (s', cbs, r) = shard_Incr mp t1 t2 t3 k d ttl s
    in r = Inr (n + d) \<and> cbs = [] \<and>
       gm_get (view_of s') = (gm_get (view_of s))(k \<mapsto> (int64_bytes mp (n + d), incr_expiry t2 t3 x))"
  using shard_Incr_view [OF assms(1,2,4,5,6,3), of t3 d ttl]
  by (cases "shard_Incr mp t1 t2 t3 k d ttl s") (simp add: Let_def fun_eq_iff)

text \<open>
  A counter can lose its expiry. When the expiry time of a live counter is reached between
  the two clock readings of \<open>Incr\<close> (or is hit exactly), the remaining lifetime is not positive,
  \<open>ttl\<close> stays 0 and the counter is stored without an expiry time: it is then visible at every
  later instant, although it had a lifetime.
\<close>

lemma shard_Incr_loses_expiry:
  assumes "msgpack_int_ok mp" "shard_inv s" "\<not> pos64 (MaxSize s)"
    and "gm_get (view_of s) k = Some (int64_bytes mp n, Some e)" "t1 \<le> e" "e \<le> t2"
  shows "live t (fst (shard_Incr mp t1 t2 t3 k d ttl s)) k = Some (int64_bytes mp (n + d))"
proof -
  have l: "\<not> dead t1 (Some e)" and t: "t1 \<le> t2" using assms(5,6) by (simp_all add: dead_def)
  note v = shard_Incr_view [OF assms(1,2) t assms(4) l assms(3), of t3 d ttl]
  show ?thesis using assms(6) by (simp add: live_view [OF v(3)] v(1) incr_expiry_def dead_def)
qed

text \<open>
  the sweep. \<open>DeleteExpired\<close> removes exactly the expired entries, keeps the order of the
  others, counts what it removed, calls \<open>OnExpire\<close> once for each removed entry with its value,
  and changes nothing a reader could still see.
\<close>

lemma shard_DeleteExpired_sweeps:
  assumes "shard_inv s"
  shows "let (s', cbs, n) = shard_DeleteExpired now s
    in view_of s' = filter (\<lambda>(k, b, x). \<not> dead now x) (view_of s) \<and>
       n = length (filter (\<lambda>(k, b, x). dead now x) (view_of s)) \<and>
       mset cbs = (if OnExpire s
         then mset (map (\<lambda>(k, b, x). (k, b)) (filter (\<lambda>(k, b, x). dead now x) (view_of s))) else {#}) \<and>
       (\<forall>t. now \<le> t \<longrightarrow> live t s' = live t s)"
proof -
  have inj: "(k, e) \<in> set (items s) \<Longrightarrow> gm_get (items s) k = Some e" for k e
    using gm_in_set [OF shard_inv_wf [OF assms]] by blast
  have ref: "refines s (shard_DeleteExpired now s)
    (foldl (\<lambda>v (k, e). if IsExpired now e then gm_del k v else v) (view_of s) (items s),
     if OnExpire s then map (\<lambda>(k, e). (k, eValue e)) (filter (\<lambda>(k, e). IsExpired now e) (items s)) else [],
     length (filter (\<lambda>(k, e). IsExpired now e) (items s)))"
    unfolding shard_DeleteExpired_def
    by (rule delete_expired_loop_refines [OF assms shard_inv_wf [OF assms]]) (rule inj)
  have "mset (map (\<lambda>(k, e). (k, eValue e)) (filter (\<lambda>(k, e). IsExpired now e) (items s))) =
      image_mset (\<lambda>e. (eKey e, eValue e)) (filter_mset (IsExpired now) (mset (map snd (items s))))"
  proof -
    have "map (\<lambda>(k, e). (k, eValue e)) (filter (\<lambda>(k, e). IsExpired now e) (items s)) =
        map (\<lambda>e. (eKey e, eValue e)) (filter (IsExpired now) (map snd (items s)))"
      using shard_inv_item [OF assms] inj
      by (auto simp: filter_map case_prod_unfold comp_def)
    then show ?thesis by (simp only: mset_map mset_filter)
  qed
  also have "\<dots> = mset (map (\<lambda>(k, b, x). (k, b)) (filter (\<lambda>(k, b, x). dead now x) (view_of s)))"
    unfolding mset_items_cells [OF assms, symmetric]
    by (simp add: view_of_def filter_map comp_def IsExpired_dead filter_mset_image_mset
        image_mset.compositionality flip: mset_filter)
  finally have ms: "mset (map (\<lambda>(k, e). (k, eValue e)) (filter (\<lambda>(k, e). IsExpired now e) (items s))) = \<dots>" .
  obtain s' cbs n where e: "shard_DeleteExpired now s = (s', cbs, n)"
    by (cases "shard_DeleteExpired now s")
  have "mset cbs = (if OnExpire s
      then mset (map (\<lambda>(k, b, x). (k, b)) (filter (\<lambda>(k, b, x). dead now x) (view_of s))) else {#})"
    using ref ms by (cases "OnExpire s") (simp_all only: refines_def e fst_conv snd_conv if_True if_False mset.simps prod.inject)
  with e show ?thesis
    using shard_DeleteExpired_refines [OF assms, of now] live_after_DeleteExpired [OF assms, of now]
    by (simp add: refines_def spec_sweep_def)
qed

end
