(* ===== verification/Store_Contract.thy ===== *)
theory Store_Contract
  imports Shard_Refine
begin

text \<open>
  The \<open>Store\<close> interface of \<open>src/store.go\<close> as a locale. \<open>look t s\<close> is the abstract content of a
  store: what a reader can see at the instant \<open>t\<close>. The laws are the promises of the comments
  of the interface, with the freedom a cache has: a store may lose a key (eviction, expiry) but
  never shows a value that was not the last one written. \<open>keeps\<close> says when a write is certain
  to be visible, and \<open>clock\<close> which instants the backend can represent. The lemmas of the locale hold for every backend; the two backends interpret it
  in their own theories.
\<close>

section \<open>Runs of a store\<close>

text \<open>
  The last value written to each key: what \<open>Set\<close> and \<open>Incr\<close> leave behind and \<open>Delete\<close>
  removes. \<open>OutIncr\<close> carries the answer of \<open>Incr\<close>.
\<close>

fun written :: "('a) msgpack_scheme \<Rightarrow> shard_op \<Rightarrow> shard_out \<Rightarrow> (string \<rightharpoonup> bytes) \<Rightarrow> (string \<rightharpoonup> bytes)" where
  "written mp (OpSet now k b ttl) out w = w(k \<mapsto> b)"
| "written mp (OpDelete k) out w = w(k := None)"
| "written mp (OpIncr t1 t2 t3 k d ttl) (OutIncr cbs (Inr n)) w = w(k \<mapsto> int64_bytes mp n)"
| "written mp op out w = w"

fun written_by :: "('a) msgpack_scheme \<Rightarrow> (shard_op \<times> shard_out) list \<Rightarrow> (string \<rightharpoonup> bytes)" where
  "written_by mp [] = Map.empty"
| "written_by mp ((op, out) # rest) = written mp op out (written_by mp rest)"

lemma map_le_get: "m \<subseteq>\<^sub>m w \<Longrightarrow> m k = Some v \<Longrightarrow> w k = Some v"
  by (force simp: map_le_def)

section \<open>The interface\<close>

locale store =
  fixes clock :: "instant \<Rightarrow> bool"
    and inv :: "'s \<Rightarrow> bool"
    and look :: "instant \<Rightarrow> 's \<Rightarrow> string \<Rightarrow> bytes option"
    and keeps :: "'s \<Rightarrow> instant \<Rightarrow> string \<Rightarrow> bytes \<Rightarrow> duration \<Rightarrow> bool"
    and get :: "instant \<Rightarrow> string \<Rightarrow> 's \<Rightarrow> 's \<times> bytes option"
    and put :: "instant \<Rightarrow> string \<Rightarrow> bytes \<Rightarrow> duration \<Rightarrow> 's \<Rightarrow> 's \<times> callback list"
    and del :: "string \<Rightarrow> 's \<Rightarrow> 's \<times> bool"
    and exi :: "instant \<Rightarrow> instant \<Rightarrow> string \<Rightarrow> 's \<Rightarrow> 's \<times> bool"
    and ttl :: "instant \<Rightarrow> instant \<Rightarrow> string \<Rightarrow> 's \<Rightarrow> 's \<times> duration"
    and incr :: "msgpack \<Rightarrow> instant \<Rightarrow> instant \<Rightarrow> instant \<Rightarrow> string \<Rightarrow> int64 \<Rightarrow> duration \<Rightarrow> 's \<Rightarrow>
      's \<times> callback list \<times> (string + int64)"
    and sweep :: "(nat \<Rightarrow> instant) \<Rightarrow> 's \<Rightarrow> 's \<times> callback list \<times> nat"
  assumes inv_get: "inv s \<Longrightarrow> inv (fst (get now k s))"
    and inv_put: "inv s \<Longrightarrow> inv (fst (put now k b d s))"
    and inv_del: "inv s \<Longrightarrow> inv (fst (del k s))"
    and inv_exi: "inv s \<Longrightarrow> t1 \<le> t2 \<Longrightarrow> inv (fst (exi t1 t2 k s))"
    and inv_ttl: "inv s \<Longrightarrow> t1 \<le> t2 \<Longrightarrow> inv (fst (ttl t1 t2 k s))"
    and inv_incr: "inv s \<Longrightarrow> t1 \<le> t2 \<Longrightarrow> inv (fst (incr mp t1 t2 t3 k n d s))"
    and inv_sweep: "inv s \<Longrightarrow> inv (fst (sweep clk s))"
    and get_look: "inv s \<Longrightarrow> snd (get now k s) = look now s k"
    and get_sub: "inv s \<Longrightarrow> look t (fst (get now k s)) \<subseteq>\<^sub>m look t s"
    and get_keeps: "inv s \<Longrightarrow> clock now \<Longrightarrow> clock t \<Longrightarrow> now \<le> t \<Longrightarrow> look t (fst (get now k s)) = look t s"
    and put_sub: "inv s \<Longrightarrow> look t (fst (put now k b d s)) \<subseteq>\<^sub>m (look t s)(k \<mapsto> b)"
    and put_keeps: "inv s \<Longrightarrow> clock t \<Longrightarrow> keeps s now k b d \<Longrightarrow>
      look t (fst (put now k b d s)) k = (if pos64 d \<and> time_add now d < t then None else Some b)"
    and del_look: "inv s \<Longrightarrow> look t (fst (del k s)) = (look t s)(k := None)"
    and del_found: "inv s \<Longrightarrow> look t s k \<noteq> None \<Longrightarrow> snd (del k s)"
    and exi_look: "inv s \<Longrightarrow> snd (exi t1 t2 k s) \<longleftrightarrow> look t1 s k \<noteq> None"
    and exi_sub: "inv s \<Longrightarrow> look t (fst (exi t1 t2 k s)) \<subseteq>\<^sub>m look t s"
    and exi_keeps: "inv s \<Longrightarrow> clock t1 \<Longrightarrow> clock t2 \<Longrightarrow> clock t \<Longrightarrow> t1 \<le> t2 \<Longrightarrow> t2 \<le> t \<Longrightarrow>
      look t (fst (exi t1 t2 k s)) = look t s"
    and ttl_sub: "inv s \<Longrightarrow> look t (fst (ttl t1 t2 k s)) \<subseteq>\<^sub>m look t s"
    and ttl_keeps: "inv s \<Longrightarrow> clock t1 \<Longrightarrow> clock t2 \<Longrightarrow> clock t \<Longrightarrow> t1 \<le> t2 \<Longrightarrow> t2 < t \<Longrightarrow>
      look t (fst (ttl t1 t2 k s)) = look t s"
    and incr_err: "inv s \<Longrightarrow> t1 \<le> t2 \<Longrightarrow> incr mp t1 t2 t3 k n d s = (s', cbs, Inl err) \<Longrightarrow>
      look t s' \<subseteq>\<^sub>m look t s"
    and incr_ok: "inv s \<Longrightarrow> t1 \<le> t2 \<Longrightarrow> incr mp t1 t2 t3 k n d s = (s', cbs, Inr m) \<Longrightarrow>
      look t s' \<subseteq>\<^sub>m (look t s)(k \<mapsto> int64_bytes mp m)"
    and incr_val: "inv s \<Longrightarrow> t1 \<le> t2 \<Longrightarrow> incr mp t1 t2 t3 k n d s = (s', cbs, Inr m) \<Longrightarrow>
      (case look t1 s k of None \<Rightarrow> m = n | Some v \<Rightarrow> unmarshal_int64 mp v = Inr (m - n))"
    and sweep_sub: "inv s \<Longrightarrow> look t (fst (sweep clk s)) \<subseteq>\<^sub>m look t s"
    and sweep_keeps: "inv s \<Longrightarrow> clock t \<Longrightarrow> (\<And>i. clock (clk i) \<and> clk i \<le> t) \<Longrightarrow>
      look t (fst (sweep clk s)) = look t s"
begin

text \<open>An operation with its answer.\<close>

fun step :: "msgpack \<Rightarrow> shard_op \<Rightarrow> 's \<Rightarrow> 's \<times> shard_out" where
  "step mp (OpGet now k) s = (let r = get now k s in (fst r, OutValue (snd r)))"
| "step mp (OpSet now k b d) s = (let r = put now k b d s in (fst r, OutEvicted (snd r)))"
| "step mp (OpDelete k) s = (let r = del k s in (fst r, OutBool (snd r)))"
| "step mp (OpExists t1 t2 k) s = (let r = exi t1 t2 k s in (fst r, OutBool (snd r)))"
| "step mp (OpTTL t1 t2 k) s = (let r = ttl t1 t2 k s in (fst r, OutDuration (snd r)))"
| "step mp (OpIncr t1 t2 t3 k n d) s =
     (let r = incr mp t1 t2 t3 k n d s in (fst r, OutIncr (fst (snd r)) (snd (snd r))))"
| "step mp (OpSweep now) s = (let r = sweep (\<lambda>_. now) s in (fst r, OutCount (snd (snd r))))"

text \<open>A run, with its history, the latest operation first.\<close>

fun run :: "msgpack \<Rightarrow> shard_op list \<Rightarrow> 's \<times> (shard_op \<times> shard_out) list \<Rightarrow> 's \<times> (shard_op \<times> shard_out) list" where
  "run mp [] c = c"
| "run mp (op # ops) c =
     (let r = step mp op (fst c) in run mp ops (fst r, (op, snd r) # snd c))"

lemma step_inv:
  assumes "inv s" "op_ok op" shows "inv (fst (step mp op s))"
  using assms
  by (cases op) (auto simp: Let_def inv_get inv_put inv_del inv_exi inv_ttl inv_incr inv_sweep)

lemma step_sub:
  assumes "inv s" "op_ok op" "look t s \<subseteq>\<^sub>m w"
  shows "look t (fst (step mp op s)) \<subseteq>\<^sub>m written mp op (snd (step mp op s)) w"
proof (cases op)
  case (OpGet now k)
  then show ?thesis using map_le_trans [OF get_sub [OF assms(1)] assms(3)] by (simp add: Let_def)
next
  case (OpSet now k b d)
  then show ?thesis
    using map_le_trans [OF put_sub [OF assms(1)] map_le_upd [OF assms(3)]] by (simp add: Let_def)
next
  case (OpDelete k)
  then show ?thesis
    using assms(3) by (auto simp: Let_def map_le_def del_look [OF assms(1)])
next
  case (OpExists t1 t2 k)
  then show ?thesis using map_le_trans [OF exi_sub [OF assms(1)] assms(3)] by (simp add: Let_def)
next
  case (OpTTL t1 t2 k)
  then show ?thesis using map_le_trans [OF ttl_sub [OF assms(1)] assms(3)] by (simp add: Let_def)
next
  case (OpIncr t1 t2 t3 k n d)
  then have t: "t1 \<le> t2" using assms(2) by simp
  obtain s' cbs r where e: "incr mp t1 t2 t3 k n d s = (s', cbs, r)"
    by (cases "incr mp t1 t2 t3 k n d s")
  show ?thesis
  proof (cases r)
    case (Inl err)
    with OpIncr e map_le_trans [OF incr_err [OF assms(1) t e [unfolded Inl]] assms(3)]
    show ?thesis by (simp add: Let_def)
  next
    case (Inr m)
    with OpIncr e map_le_trans [OF incr_ok [OF assms(1) t e [unfolded Inr]] map_le_upd [OF assms(3)]]
    show ?thesis by (simp add: Let_def)
  qed
next
  case (OpSweep now)
  then show ?thesis using map_le_trans [OF sweep_sub [OF assms(1)] assms(3)] by (simp add: Let_def)
qed

lemma run_sub:
  assumes "inv s" "list_all op_ok ops" "look t s \<subseteq>\<^sub>m written_by mp h"
  shows "inv (fst (run mp ops (s, h))) \<and>
    look t (fst (run mp ops (s, h))) \<subseteq>\<^sub>m written_by mp (snd (run mp ops (s, h)))"
  using assms
proof (induction ops arbitrary: s h)
  case (Cons op ops)
  then show ?case
    using step_inv [of s op mp] step_sub [of s op t "written_by mp h" mp]
    by (simp add: Let_def)
qed simp

text \<open>No store ever shows a value that is not the last one written.\<close>

lemma get_last_written:
  assumes "inv s" "list_all op_ok ops" "look now s = Map.empty"
    and "snd (get now k (fst (run mp ops (s, [])))) = Some v"
  shows "written_by mp (snd (run mp ops (s, []))) k = Some v"
proof -
  have r: "inv (fst (run mp ops (s, []))) \<and>
      look now (fst (run mp ops (s, []))) \<subseteq>\<^sub>m written_by mp (snd (run mp ops (s, [])))"
    by (rule run_sub [OF assms(1,2)]) (simp add: assms(3))
  then have "look now (fst (run mp ops (s, []))) k = Some v"
    using assms(4) by (simp add: get_look)
  with r show ?thesis by (blast intro: map_le_get)
qed

lemma get_after_put:
  assumes "inv s" "clock t" "keeps s now k b d"
  shows "snd (get t k (fst (put now k b d s))) = (if pos64 d \<and> time_add now d < t then None else Some b)"
  using get_look [OF inv_put [OF assms(1)], of t k] put_keeps [OF assms] by simp

lemma get_after_del: "inv s \<Longrightarrow> snd (get t k (fst (del k s))) = None"
  by (simp add: get_look inv_del del_look)

lemma get_get: "inv s \<Longrightarrow> clock t1 \<Longrightarrow> clock t2 \<Longrightarrow> t1 \<le> t2 \<Longrightarrow> snd (get t2 k (fst (get t1 k' s))) = snd (get t2 k s)"
  by (simp add: get_look inv_get get_keeps)

end

section \<open>Stores that lose nothing\<close>

text \<open>
  The content a store must show when it never evicts: the last write to each key and its
  expiry. \<open>written_until\<close> covers the operations whose effect on the expiry the interface fixes,
  which \<open>simple_op\<close> selects; \<open>before clock t op\<close> says that the readings of the clock of the
  operation are representable and not after \<open>t\<close>.
\<close>

fun written_until :: "shard_op list \<Rightarrow> (string \<rightharpoonup> bytes \<times> instant option)" where
  "written_until [] = Map.empty"
| "written_until (OpSet now k b d # ops) = (written_until ops)(k \<mapsto> (b, expires_at now d))"
| "written_until (OpDelete k # ops) = (written_until ops)(k := None)"
| "written_until (op # ops) = written_until ops"

definition shown :: "instant \<Rightarrow> (string \<rightharpoonup> bytes \<times> instant option) \<Rightarrow> string \<Rightarrow> bytes option" where
  "shown t w k = (case w k of None \<Rightarrow> None | Some (b, x) \<Rightarrow> if dead t x then None else Some b)"

fun simple_op :: "(instant \<Rightarrow> duration \<Rightarrow> bool) \<Rightarrow> shard_op \<Rightarrow> bool" where
  "simple_op fits (OpSet now k b d) = fits now d"
| "simple_op fits (OpIncr t1 t2 t3 k n d) = False"
| "simple_op fits (OpExists t1 t2 k) \<longleftrightarrow> t1 \<le> t2"
| "simple_op fits (OpTTL t1 t2 k) \<longleftrightarrow> t1 \<le> t2"
| "simple_op fits op = True"

fun before :: "(instant \<Rightarrow> bool) \<Rightarrow> instant \<Rightarrow> shard_op \<Rightarrow> bool" where
  "before clock t (OpGet now k) \<longleftrightarrow> clock now \<and> now \<le> t"
| "before clock t (OpExists t1 t2 k) \<longleftrightarrow> clock t1 \<and> clock t2 \<and> t2 \<le> t"
| "before clock t (OpTTL t1 t2 k) \<longleftrightarrow> clock t1 \<and> clock t2 \<and> t2 < t"
| "before clock t (OpSweep now) \<longleftrightarrow> clock now \<and> now \<le> t"
| "before clock t op \<longleftrightarrow> True"

lemma simple_op_ok: "simple_op fits op \<Longrightarrow> op_ok op"
  by (cases op) auto

lemma shown_upd: "shown t (w(k \<mapsto> (b, expires_at now d))) =
    (shown t w)(k := if pos64 d \<and> time_add now d < t then None else Some b)"
  by (simp add: shown_def fun_eq_iff dead_def expires_at_def)

lemma shown_del: "shown t (w(k := None)) = (shown t w)(k := None)"
  by (simp add: shown_def fun_eq_iff)

lemma shown_empty: "shown t Map.empty = Map.empty"
  by (simp add: shown_def fun_eq_iff)

locale roomy_store = store +
  fixes roomy :: "'a \<Rightarrow> bool" and fits :: "instant \<Rightarrow> duration \<Rightarrow> bool"
  assumes roomy_step: "inv s \<Longrightarrow> roomy s \<Longrightarrow> op_ok op \<Longrightarrow> roomy (fst (step mp op s))"
    and roomy_keeps: "inv s \<Longrightarrow> roomy s \<Longrightarrow> fits now d \<Longrightarrow> keeps s now k b d"
    and put_frame: "inv s \<Longrightarrow> roomy s \<Longrightarrow> k' \<noteq> k \<Longrightarrow> look t (fst (put now k b d s)) k' = look t s k'"
begin

lemma step_shows:
  assumes "inv s" "clock t" "roomy s" "simple_op fits op" "before clock t op" "look t s = shown t (written_until ops)"
  shows "look t (fst (step mp op s)) = shown t (written_until (op # ops))"
proof (cases op)
  case (OpSet now k b d)
  then have "look t (fst (put now k b d s)) =
      (look t s)(k := if pos64 d \<and> time_add now d < t then None else Some b)"
    using put_keeps [OF assms(1,2) roomy_keeps [OF assms(1,3)], where now = now and d = d and k = k and b = b]
      put_frame [OF assms(1,3)] assms(4) by (auto simp: fun_eq_iff)
  then show ?thesis using OpSet assms(6) by (simp add: Let_def shown_upd)
next
  case (OpDelete k)
  then show ?thesis using assms(6) by (simp add: Let_def del_look [OF assms(1)] shown_del)
qed (use assms in \<open>simp_all add: Let_def get_keeps exi_keeps ttl_keeps sweep_keeps\<close>)

lemma run_shows:
  assumes "inv s" "clock t" "roomy s" "list_all (simple_op fits) ops" "list_all (before clock t) ops"
    and "look t s = shown t (written_until (map fst h))"
  shows "inv (fst (run mp ops (s, h))) \<and>
    look t (fst (run mp ops (s, h))) = shown t (written_until (rev ops @ map fst h))"
  using assms
proof (induction ops arbitrary: s h)
  case (Cons op ops)
  note ok = simple_op_ok [of fits op]
  have "look t (fst (step mp op s)) = shown t (written_until (op # map fst h))"
    using Cons.prems by (intro step_shows) simp_all
  with Cons.IH [of "fst (step mp op s)" "(op, snd (step mp op s)) # h"] Cons.prems
  show ?case using ok by (simp add: Let_def step_inv roomy_step)
qed simp

text \<open>Nothing is lost: a reader sees exactly the last write, until it expires.\<close>

lemma get_exact:
  assumes "inv s" "clock t" "roomy s" "list_all (simple_op fits) ops" "list_all (before clock t) ops"
    and "look t s = Map.empty"
  shows "snd (get t k (fst (run mp ops (s, [])))) = shown t (written_until (rev ops)) k"
  using run_shows [of s t ops "[]" mp] assms by (simp add: get_look shown_empty)

end

end
