(* ===== verification/Fnv.thy ===== *)
theory Fnv
  imports Prelude
begin

text \<open>
  FNV-1a with 32 bits, as Go's \<open>hash/fnv\<close> computes it: the hash that picks the shard of a key
  (\<open>src/store_memory.go\<close>) and the place of nodes and keys on the ring
  (\<open>src/internal/cluster/hashring.go\<close>).
\<close>

section \<open>Definitions\<close>

definition fnv_offset32 :: uint32 where
  "fnv_offset32 = 2166136261"

definition fnv_prime32 :: uint32 where
  "fnv_prime32 = 16777619"

text \<open>The inverse of the prime modulo \<open>2 ^ 32\<close>.\<close>

definition fnv_inverse32 :: uint32 where
  "fnv_inverse32 = 899433627"

definition fnv_step :: "uint32 \<Rightarrow> char \<Rightarrow> uint32" where
  "fnv_step h c = (h XOR of_char c) * fnv_prime32"

definition fnv32a_from :: "uint32 \<Rightarrow> string \<Rightarrow> uint32" where
  "fnv32a_from h s = foldl fnv_step h s"

definition fnv32a :: "string \<Rightarrow> uint32" where
  "fnv32a s = fnv32a_from fnv_offset32 s"

section \<open>Lemmas\<close>

lemma fnv32a_from_append: "fnv32a_from h (s @ t) = fnv32a_from (fnv32a_from h s) t"
  by (simp add: fnv32a_from_def)

lemma fnv32a_append: "fnv32a (s @ t) = fnv32a_from (fnv32a s) t"
  by (simp add: fnv32a_def fnv32a_from_append)

lemma fnv_prime_inverse: "fnv_prime32 * fnv_inverse32 = 1"
  by (simp add: fnv_prime32_def fnv_inverse32_def)

text \<open>Every step is a bijection of the hash state, so a collision survives any common suffix.\<close>

lemma fnv_step_inj: "fnv_step h c = fnv_step h' c \<longleftrightarrow> h = h'"
proof
  assume "fnv_step h c = fnv_step h' c"
  then have "fnv_step h c * fnv_inverse32 = fnv_step h' c * fnv_inverse32" by simp
  then have "h XOR of_char c = h' XOR of_char c"
    by (simp add: fnv_step_def mult.assoc fnv_prime_inverse)
  then have "(h XOR of_char c) XOR of_char c = (h' XOR of_char c) XOR of_char c" by simp
  then show "h = h'" by (simp add: xor.assoc)
qed simp

lemma fnv32a_from_inj: "fnv32a_from h s = fnv32a_from h' s \<longleftrightarrow> h = h'"
  by (induction s arbitrary: h h') (simp_all add: fnv32a_from_def fnv_step_inj)

lemma fnv32a_collision_suffix: "fnv32a a = fnv32a b \<Longrightarrow> fnv32a (a @ s) = fnv32a (b @ s)"
  by (simp add: fnv32a_append)

end
