(* ===== verification/Memory_Store.thy ===== *)
theory Memory_Store
  imports Store_Contract Fnv
begin

text \<open>
  \<open>src/store_memory.go\<close>: the in-memory store, an array of shards indexed by the masked FNV-1a
  hash of the key. The store adds no lock of its own: every operation is the operation of one
  shard, and \<open>DeleteExpired\<close> visits the shards one after the other, each with its own clock
  reading. The theory shows that the index is always in range, that every key lives in its own
  shard, and that a shard and the store both implement the \<open>Store\<close> contract.
\<close>

section \<open>Definitions\<close>

record memory_store =
  shards :: "shard list"
  mask :: uint32

definition NewMemoryStore :: "nat \<Rightarrow> int64 \<Rightarrow> memory_store" where
  "NewMemoryStore numShards perShardMaxBytes =
     \<lparr>shards = replicate numShards (NewShard perShardMaxBytes), mask = of_nat numShards - 1\<rparr>"

text \<open>The index of the shard of a key; \<open>getShard_in_range\<close> below bounds it.\<close>

definition getShard :: "memory_store \<Rightarrow> string \<Rightarrow> nat" where
  "getShard m key = unat (fnv32a key AND mask m)"

text \<open>\<open>m.getShard(key).f(...)\<close>: run an operation on the shard of a key.\<close>

definition on_shard :: "string \<Rightarrow> (shard \<Rightarrow> shard \<times> 'a) \<Rightarrow> memory_store \<Rightarrow> memory_store \<times> 'a" where
  "on_shard key f m =
     (let i = getShard m key; r = f (shards m ! i)
      in (m\<lparr>shards := (shards m)[i := fst r]\<rparr>, snd r))"

definition ms_Get :: "instant \<Rightarrow> string \<Rightarrow> memory_store \<Rightarrow> memory_store \<times> bytes option" where
  "ms_Get now key m = on_shard key (shard_Get now key) m"

definition ms_Set ::
    "instant \<Rightarrow> string \<Rightarrow> bytes \<Rightarrow> duration \<Rightarrow> memory_store \<Rightarrow> memory_store \<times> callback list" where
  "ms_Set now key value ttl m = on_shard key (shard_Set now key value ttl) m"

definition ms_Delete :: "string \<Rightarrow> memory_store \<Rightarrow> memory_store \<times> bool" where
  "ms_Delete key m = on_shard key (shard_Delete key) m"

definition ms_Exists :: "instant \<Rightarrow> instant \<Rightarrow> string \<Rightarrow> memory_store \<Rightarrow> memory_store \<times> bool" where
  "ms_Exists t1 t2 key m = on_shard key (shard_Exists t1 t2 key) m"

definition ms_TTL :: "instant \<Rightarrow> instant \<Rightarrow> string \<Rightarrow> memory_store \<Rightarrow> memory_store \<times> duration" where
  "ms_TTL t1 t2 key m = on_shard key (shard_TTL t1 t2 key) m"

definition ms_Incr ::
    "('a) msgpack_scheme \<Rightarrow> instant \<Rightarrow> instant \<Rightarrow> instant \<Rightarrow> string \<Rightarrow> int64 \<Rightarrow> duration \<Rightarrow> memory_store \<Rightarrow>
     memory_store \<times> callback list \<times> (string + int64)" where
  "ms_Incr mp t1 t2 t3 key delta defaultTTL m =
     on_shard key (shard_Incr mp t1 t2 t3 key delta defaultTTL) m"

fun ms_sweep_loop :: "(nat \<Rightarrow> instant) \<Rightarrow> nat \<Rightarrow> shard list \<Rightarrow> shard list \<times> callback list \<times> nat" where
  "ms_sweep_loop clk i [] = ([], [], 0)"
| "ms_sweep_loop clk i (s # ss) =
     (let (s', cbs, n) = shard_DeleteExpired (clk i) s;
          (ss', cbs', total) = ms_sweep_loop clk (Suc i) ss
      in (s' # ss', cbs @ cbs', n + total))"

definition ms_DeleteExpired ::
    "(nat \<Rightarrow> instant) \<Rightarrow> memory_store \<Rightarrow> memory_store \<times> callback list \<times> nat" where
  "ms_DeleteExpired clk m =
     (let (ss, cbs, total) = ms_sweep_loop clk 0 (shards m) in (m\<lparr>shards := ss\<rparr>, cbs, total))"

definition ms_Len :: "memory_store \<Rightarrow> nat" where
  "ms_Len m = foldl (\<lambda>n s. n + shard_Len s) 0 (shards m)"

definition ms_SetOnEvict :: "bool \<Rightarrow> memory_store \<Rightarrow> memory_store" where
  "ms_SetOnEvict fn m = m\<lparr>shards := map (\<lambda>s. s\<lparr>OnEvict := fn\<rparr>) (shards m)\<rparr>"

definition ms_SetOnExpire :: "bool \<Rightarrow> memory_store \<Rightarrow> memory_store" where
  "ms_SetOnExpire fn m = m\<lparr>shards := map (\<lambda>s. s\<lparr>OnExpire := fn\<rparr>) (shards m)\<rparr>"

section \<open>The invariant\<close>

definition stored :: "shard \<Rightarrow> string set" where
  "stored s = set (gm_keys (items s))"

definition ms_inv :: "memory_store \<Rightarrow> bool" where
  "ms_inv m \<longleftrightarrow>
     shards m \<noteq> [] \<and> length (shards m) \<le> 2 ^ 32 \<and> mask m = of_nat (length (shards m)) - 1 \<and>
     (\<forall>i < length (shards m).
        shard_inv (shards m ! i) \<and> (\<forall>k \<in> stored (shards m ! i). getShard m k = i))"

definition ms_look :: "instant \<Rightarrow> memory_store \<Rightarrow> string \<Rightarrow> bytes option" where
  "ms_look t m k = live t (shards m ! getShard m k) k"

text \<open>When a write is certain to survive its own eviction.\<close>

definition shard_keeps :: "shard \<Rightarrow> instant \<Rightarrow> string \<Rightarrow> bytes \<Rightarrow> duration \<Rightarrow> bool" where
  "shard_keeps s now k b d \<longleftrightarrow> \<not> pos64 (MaxSize s) \<or> \<not> less64 (MaxSize s) (EstimateSize k b)"

definition ms_keeps :: "memory_store \<Rightarrow> instant \<Rightarrow> string \<Rightarrow> bytes \<Rightarrow> duration \<Rightarrow> bool" where
  "ms_keeps m now k b d = shard_keeps (shards m ! getShard m k) now k b d"

section \<open>Lemmas: a shard implements the contract\<close>

lemma dead_expires_at: "dead t (expires_at now d) \<longleftrightarrow> pos64 d \<and> time_add now d < t"
  by (simp add: dead_def expires_at_def)

lemma live_purge_sub: "live t (purge_expired now k s) \<subseteq>\<^sub>m live t s"
  by (auto simp: purge_expired_def live_removeLocked map_le_def split: option.split)

lemma live_Get_sub: "live t (fst (shard_Get now k s)) \<subseteq>\<^sub>m live t s"
  by (auto simp: shard_Get_def live_removeLocked live_MoveToFront map_le_def split: option.split)

lemma live_Exists_sub: "live t (fst (shard_Exists t1 t2 k s)) \<subseteq>\<^sub>m live t s"
  by (auto simp: shard_Exists_def live_purge_sub split: option.split)

lemma live_TTL_sub: "live t (fst (shard_TTL t1 t2 k s)) \<subseteq>\<^sub>m live t s"
  by (auto simp: shard_TTL_def live_purge_sub split: option.split)

definition view_look :: "instant \<Rightarrow> lru_view \<Rightarrow> string \<Rightarrow> bytes option" where
  "view_look t v k =
     (case gm_get v k of None \<Rightarrow> None | Some (b, x) \<Rightarrow> if dead t x then None else Some b)"

lemma live_view_look: "shard_inv s \<Longrightarrow> live t s = view_look t (view_of s)"
  by (simp add: fun_eq_iff view_look_def live_view)

lemma view_look_sub:
  assumes "\<And>k y. gm_get v' k = Some y \<Longrightarrow> gm_get v k = Some y"
  shows "view_look t v' \<subseteq>\<^sub>m view_look t v"
  using assms by (force simp: map_le_def view_look_def split: option.splits if_splits)

lemma view_look_del: "view_look t (gm_del k v) = (view_look t v)(k := None)"
  by (simp add: fun_eq_iff view_look_def)

lemma view_look_put_sub:
  assumes "gm_wf v"
  shows "view_look t (fst (spec_put ev m now k b d v)) \<subseteq>\<^sub>m (view_look t v)(k \<mapsto> b)"
proof -
  let ?v = "(k, b, expires_at now d) # gm_del k v"
  have "view_look t (fst (spec_put ev m now k b d v)) \<subseteq>\<^sub>m view_look t ?v"
    unfolding spec_put_def
    using spec_evict_sub [OF gm_wf_Cons_del [OF assms]] by (rule view_look_sub)
  moreover have "view_look t ?v \<subseteq>\<^sub>m (view_look t v)(k \<mapsto> b)"
    by (auto simp: map_le_def view_look_def split: if_splits)
  ultimately show ?thesis by (rule map_le_trans)
qed

lemma map_le_del: "m(k := None) \<subseteq>\<^sub>m m"
  by (simp add: map_le_def)

lemma view_look_sweep_sub:
  assumes "gm_wf v" shows "view_look t (fst (spec_sweep now v)) \<subseteq>\<^sub>m view_look t v"
proof (rule view_look_sub)
  fix k y
  assume "gm_get (fst (spec_sweep now v)) k = Some y"
  then have "(k, y) \<in> set v" by (auto simp: spec_sweep_def dest: map_of_SomeD)
  then show "gm_get v k = Some y" by (rule map_of_is_SomeI [OF assms])
qed

lemma live_DeleteExpired_sub:
  assumes inv: "shard_inv s" shows "live t (fst (shard_DeleteExpired now s)) \<subseteq>\<^sub>m live t s"
  using shard_DeleteExpired_refines [OF inv, of now] view_look_sweep_sub [OF view_of_wf [OF inv], of t now]
  by (simp add: refines_def live_view_look inv)

lemma spec_incr_look:
  assumes wf: "gm_wf v" and r: "spec_incr mp ev m t1 t2 t3 k n d v = (v', cbs, r)"
  shows "case r of
      Inl err \<Rightarrow> view_look t v' \<subseteq>\<^sub>m view_look t v
    | Inr c \<Rightarrow> view_look t v' \<subseteq>\<^sub>m (view_look t v)(k \<mapsto> int64_bytes mp c) \<and>
        (case view_look t1 v k of None \<Rightarrow> c = n | Some b \<Rightarrow> unmarshal_int64 mp b = Inr (c - n))"
proof -
  define g where "g = gm_get v k"
  note put = view_look_put_sub [OF wf]
  have bytes: "marshal_int64 mp c = Inr b \<Longrightarrow> int64_bytes mp c = b" for c b
    by (simp add: int64_bytes_def)
  show ?thesis
  proof (cases g)
    case None
    then show ?thesis
      using r put bytes
      by (auto simp: spec_incr_def g_def Let_def view_look_del map_le_del view_look_def [of t1]
          split: sum.splits)
  next
    case (Some p)
    obtain b x where "p = (b, x)" by (cases p)
    with Some show ?thesis
      using r put bytes
      by (auto simp: spec_incr_def g_def Let_def view_look_del map_le_del view_look_def [of t1]
          split: sum.splits if_splits)
  qed
qed

lemma live_Incr:
  assumes "shard_inv s" "t1 \<le> t2" "shard_Incr mp t1 t2 t3 k n d s = (s', cbs, r)"
  shows "case r of
      Inl err \<Rightarrow> live t s' \<subseteq>\<^sub>m live t s
    | Inr c \<Rightarrow> live t s' \<subseteq>\<^sub>m (live t s)(k \<mapsto> int64_bytes mp c) \<and>
        (case live t1 s k of None \<Rightarrow> c = n | Some b \<Rightarrow> unmarshal_int64 mp b = Inr (c - n))"
proof -
  have q: "refines s (s', cbs, r) (spec_incr mp (OnEvict s) (MaxSize s) t1 t2 t3 k n d (view_of s))"
    using shard_Incr_refines [OF assms(1,2), of mp t3 k n d] assms(3) by simp
  then have e: "spec_incr mp (OnEvict s) (MaxSize s) t1 t2 t3 k n d (view_of s) = (view_of s', cbs, r)"
    and inv': "shard_inv s'"
    by (auto simp: refines_def prod_eq_iff)
  show ?thesis
    unfolding live_view_look [OF assms(1)] live_view_look [OF inv']
    by (rule spec_incr_look [OF view_of_wf [OF assms(1)] e])
qed

definition shard_sweep :: "(nat \<Rightarrow> instant) \<Rightarrow> shard \<Rightarrow> shard \<times> callback list \<times> nat" where
  "shard_sweep clk s = shard_DeleteExpired (clk 0) s"

lemma refines_inv: "refines s r q \<Longrightarrow> shard_inv (fst r)"
  by (simp add: refines_def)

lemma shard_DeleteExpired_inv: "shard_inv s \<Longrightarrow> shard_inv (fst (shard_DeleteExpired now s))"
  using shard_DeleteExpired_refines [of s now] by (simp add: refines_def)

interpretation shard_store: store "\<lambda>t. True" shard_inv live shard_keeps shard_Get shard_Set shard_Delete
  shard_Exists shard_TTL shard_Incr shard_sweep
proof
  fix s :: shard and now t t1 t2 t3 :: instant and k b d n clk and mp :: msgpack
  assume inv: "shard_inv s"
  show "shard_inv (fst (shard_Get now k s))" by (rule refines_inv [OF shard_Get_refines [OF inv]])
  show "shard_inv (fst (shard_Set now k b d s))" by (rule refines_inv [OF shard_Set_refines [OF inv]])
  show "shard_inv (fst (shard_Delete k s))" by (rule refines_inv [OF shard_Delete_refines [OF inv]])
  show "shard_inv (fst (shard_sweep clk s))"
    unfolding shard_sweep_def by (rule shard_DeleteExpired_inv [OF inv])
  show "t1 \<le> t2 \<Longrightarrow> shard_inv (fst (shard_Exists t1 t2 k s))"
    by (rule refines_inv [OF shard_Exists_refines [OF inv]])
  show "t1 \<le> t2 \<Longrightarrow> shard_inv (fst (shard_TTL t1 t2 k s))"
    by (rule refines_inv [OF shard_TTL_refines [OF inv]])
  show "t1 \<le> t2 \<Longrightarrow> shard_inv (fst (shard_Incr mp t1 t2 t3 k n d s))"
    by (rule refines_inv [OF shard_Incr_refines [OF inv]])
  show "snd (shard_Get now k s) = live now s k" by (rule live_Get)
  show "live t (fst (shard_Get now k s)) \<subseteq>\<^sub>m live t s" by (rule live_Get_sub)
  show "now \<le> t \<Longrightarrow> live t (fst (shard_Get now k s)) = live t s" by (rule live_after_Get)
  show "live t (fst (shard_Set now k b d s)) \<subseteq>\<^sub>m (live t s)(k \<mapsto> b)"
    using live_Set_sub [OF inv, of t now k b d] by (fastforce simp: map_le_def split: if_splits)
  show "live t (fst (shard_Set now k b d s)) k =
      (if pos64 d \<and> time_add now d < t then None else Some b)" if "shard_keeps s now k b d"
    using that live_Set_unlimited [OF inv, of t now k b d] live_Set_fits [OF inv, of k b t now d]
    by (auto simp: shard_keeps_def dead_expires_at)
  show "live t (fst (shard_Delete k s)) = (live t s)(k := None)" by (rule live_Delete)
  show "live t s k \<noteq> None \<Longrightarrow> snd (shard_Delete k s)"
    by (auto simp: live_def shard_Delete_def split: option.splits)
  show "snd (shard_Exists t1 t2 k s) \<longleftrightarrow> live t1 s k \<noteq> None" by (rule live_Exists)
  show "live t (fst (shard_Exists t1 t2 k s)) \<subseteq>\<^sub>m live t s" by (rule live_Exists_sub)
  show "t2 \<le> t \<Longrightarrow> live t (fst (shard_Exists t1 t2 k s)) = live t s" by (rule live_after_Exists)
  show "live t (fst (shard_TTL t1 t2 k s)) \<subseteq>\<^sub>m live t s" by (rule live_TTL_sub)
  show "t2 < t \<Longrightarrow> live t (fst (shard_TTL t1 t2 k s)) = live t s" by (rule live_after_TTL) simp
  show "live t (fst (shard_sweep clk s)) \<subseteq>\<^sub>m live t s"
    unfolding shard_sweep_def by (rule live_DeleteExpired_sub [OF inv])
  show "(\<And>i. True \<and> clk i \<le> t) \<Longrightarrow> live t (fst (shard_sweep clk s)) = live t s"
    unfolding shard_sweep_def by (rule live_after_DeleteExpired [OF inv]) simp
next
  fix s s' :: shard and t t1 t2 t3 :: instant and k n d cbs err m and mp :: msgpack
  assume inv: "shard_inv s" "t1 \<le> t2"
  note incr = live_Incr [OF inv, of mp t3 k n d s' cbs]
  show "shard_Incr mp t1 t2 t3 k n d s = (s', cbs, Inl err) \<Longrightarrow> live t s' \<subseteq>\<^sub>m live t s"
    using incr [of "Inl err" t] by simp
  show "shard_Incr mp t1 t2 t3 k n d s = (s', cbs, Inr m) \<Longrightarrow>
      live t s' \<subseteq>\<^sub>m (live t s)(k \<mapsto> int64_bytes mp m)"
    using incr [of "Inr m" t] by simp
  show "shard_Incr mp t1 t2 t3 k n d s = (s', cbs, Inr m) \<Longrightarrow>
      (case live t1 s k of None \<Rightarrow> m = n | Some v \<Rightarrow> unmarshal_int64 mp v = Inr (m - n))"
    using incr [of "Inr m" t] by simp
qed

section \<open>Lemmas: the keys a shard holds\<close>

lemma stored_view: "shard_inv s \<Longrightarrow> stored s = set (gm_keys (view_of s))"
  using view_of_get [of s] by (auto simp: stored_def set_eq_iff simp flip: dom_map_of_conv_image_fst)

lemma refines_stored:
  assumes "refines s r q" "shard_inv s" "set (gm_keys (fst q)) \<subseteq> insert k (set (gm_keys (view_of s)))"
  shows "stored (fst r) \<subseteq> insert k (stored s)"
  using assms by (auto simp: refines_def stored_view)

lemma stored_removeLocked: "stored (removeLocked k e s) \<subseteq> stored s"
  by (auto simp: stored_def gm_set_del)

lemma stored_reads:
  "stored (fst (shard_Get now k s)) \<subseteq> insert k (stored s)"
  "stored (fst (shard_Delete k s)) \<subseteq> insert k (stored s)"
  "stored (fst (shard_Exists t1 t2 k s)) \<subseteq> insert k (stored s)"
  "stored (fst (shard_TTL t1 t2 k s)) \<subseteq> insert k (stored s)"
  using stored_removeLocked [of k _ s]
  by (auto simp: shard_Get_def shard_Delete_def shard_Exists_def shard_TTL_def purge_expired_def
      stored_def gm_set_del split: option.splits)

lemma keys_spec_put: "set (gm_keys (fst (spec_put ev m now k b d v))) \<subseteq> insert k (set (gm_keys v))"
  by (auto simp: spec_put_def spec_evict_def Let_def gm_set_del dest!: in_set_takeD)

lemma keys_spec_incr:
  "set (gm_keys (fst (spec_incr mp ev m t1 t2 t3 k n d v))) \<subseteq> insert k (set (gm_keys v))"
proof -
  define P where "P r \<longleftrightarrow> set (gm_keys (fst r)) \<subseteq> insert k (set (gm_keys v))"
    for r :: "lru_view \<times> callback list \<times> (string + int64)"
  have "P (v, x)" "P (gm_del k v, x)" "P (fst (spec_put ev m t3 k b d' v), x)" for x b d'
    using keys_spec_put [of ev m t3 k b d' v] by (auto simp: P_def gm_set_del)
  then have "P (spec_incr mp ev m t1 t2 t3 k n d v)"
    by (simp add: spec_incr_def Let_def split: option.split sum.split prod.split)
  then show ?thesis by (simp add: P_def)
qed

lemma stored_Set: "shard_inv s \<Longrightarrow> stored (fst (shard_Set now k b d s)) \<subseteq> insert k (stored s)"
  by (rule refines_stored [OF shard_Set_refines _ keys_spec_put])

lemma stored_Incr:
  "shard_inv s \<Longrightarrow> t1 \<le> t2 \<Longrightarrow>
   stored (fst (shard_Incr mp t1 t2 t3 k n d s)) \<subseteq> insert k (stored s)"
  by (rule refines_stored [OF shard_Incr_refines _ keys_spec_incr])

lemma stored_DeleteExpired: "shard_inv s \<Longrightarrow> stored (fst (shard_DeleteExpired now s)) \<subseteq> stored s"
  using shard_DeleteExpired_refines [of s now] shard_DeleteExpired_inv [of s now]
  by (auto simp: refines_def stored_view spec_sweep_def)

section \<open>Lemmas: the store implements the contract\<close>

lemma getShard_in_range: "ms_inv m \<Longrightarrow> getShard m k < length (shards m)"
proof -
  assume m: "ms_inv m"
  have "fnv32a k AND mask m \<le> mask m" by (rule word_and_le1)
  moreover have "unat (mask m) = length (shards m) - 1"
  proof -
    have "mask m = of_nat (length (shards m) - 1)" "length (shards m) - 1 < 2 ^ 32"
      using m by (auto simp: ms_inv_def of_nat_diff Suc_le_eq)
    then show ?thesis by (simp add: unat_of_nat)
  qed
  ultimately have "getShard m k \<le> length (shards m) - 1"
    by (simp add: getShard_def word_le_nat_alt)
  then show ?thesis using m by (cases "shards m") (auto simp: ms_inv_def)
qed

lemma getShard_shards [simp]: "getShard (m\<lparr>shards := ss\<rparr>) = getShard m"
  by (simp add: getShard_def fun_eq_iff)

lemma ms_inv_shard: "ms_inv m \<Longrightarrow> shard_inv (shards m ! getShard m k)"
  using getShard_in_range [of m k] by (simp add: ms_inv_def)

lemma on_shard_inv:
  assumes "ms_inv m" "shard_inv (fst (f (shards m ! getShard m k)))"
    and "stored (fst (f (shards m ! getShard m k))) \<subseteq> insert k (stored (shards m ! getShard m k))"
  shows "ms_inv (fst (on_shard k f m))"
  using assms getShard_in_range [OF assms(1), of k]
  by (fastforce simp: on_shard_def ms_inv_def Let_def nth_list_update)

lemma on_shard_look:
  assumes "ms_inv m"
  shows "ms_look t (fst (on_shard k f m)) k' =
    (if getShard m k' = getShard m k then live t (fst (f (shards m ! getShard m k))) k'
     else ms_look t m k')"
  using getShard_in_range [OF assms, of k]
  by (auto simp: on_shard_def ms_look_def Let_def nth_list_update)

lemma on_shard_snd: "snd (on_shard k f m) = snd (f (shards m ! getShard m k))"
  by (simp add: on_shard_def Let_def)

text \<open>What holds of the shard of the key holds of the store.\<close>

lemma on_shard_sub:
  assumes "ms_inv m" "live t (fst (f (shards m ! getShard m k))) \<subseteq>\<^sub>m live t (shards m ! getShard m k)"
  shows "ms_look t (fst (on_shard k f m)) \<subseteq>\<^sub>m ms_look t m"
  using assms(2) by (force simp: map_le_def on_shard_look [OF assms(1)] ms_look_def [of t m] split: if_splits)

lemma on_shard_eq:
  assumes "ms_inv m" "live t (fst (f (shards m ! getShard m k))) = live t (shards m ! getShard m k)"
  shows "ms_look t (fst (on_shard k f m)) = ms_look t m"
  using assms(2) by (auto simp: on_shard_look [OF assms(1)] ms_look_def [of t m])

lemma on_shard_upd:
  assumes "ms_inv m"
    and "live t (fst (f (shards m ! getShard m k))) \<subseteq>\<^sub>m (live t (shards m ! getShard m k))(k \<mapsto> b)"
  shows "ms_look t (fst (on_shard k f m)) \<subseteq>\<^sub>m (ms_look t m)(k \<mapsto> b)"
proof (unfold map_le_def, intro ballI)
  fix k' assume "k' \<in> dom (ms_look t (fst (on_shard k f m)))"
  then obtain v where v: "ms_look t (fst (on_shard k f m)) k' = Some v" by blast
  show "ms_look t (fst (on_shard k f m)) k' = ((ms_look t m)(k \<mapsto> b)) k'"
  proof (cases "getShard m k' = getShard m k")
    case True
    then have "((live t (shards m ! getShard m k))(k \<mapsto> b)) k' = Some v"
      using v map_le_get [OF assms(2)] by (simp add: on_shard_look [OF assms(1)])
    then show ?thesis using v True by (simp add: ms_look_def [of t m] split: if_splits)
  qed (auto simp: on_shard_look [OF assms(1)])
qed

lemmas ms_op_defs = ms_Get_def ms_Set_def ms_Delete_def ms_Exists_def ms_TTL_def ms_Incr_def

lemma ms_sweep_loop_nth:
  "length (fst (ms_sweep_loop clk i ss)) = length ss"
  "j < length ss \<Longrightarrow> fst (ms_sweep_loop clk i ss) ! j = fst (shard_DeleteExpired (clk (i + j)) (ss ! j))"
proof (induction ss arbitrary: i j)
  case (Cons s ss)
  { case 1 show ?case using Cons.IH(1) [of "Suc i"] by (auto simp: Let_def split: prod.split)
  next
    case 2 then show ?case
      using Cons.IH(2) [of "j - 1" "Suc i"]
      by (cases j) (auto simp: Let_def split: prod.split) }
qed simp_all

lemma ms_DeleteExpired_shards:
  "shards (fst (ms_DeleteExpired clk m)) = fst (ms_sweep_loop clk 0 (shards m))"
  "mask (fst (ms_DeleteExpired clk m)) = mask m"
  "getShard (fst (ms_DeleteExpired clk m)) = getShard m"
  by (simp_all add: ms_DeleteExpired_def split: prod.split)

lemma ms_DeleteExpired_look:
  "ms_inv m \<Longrightarrow> ms_look t (fst (ms_DeleteExpired clk m)) k =
    live t (fst (shard_DeleteExpired (clk (getShard m k)) (shards m ! getShard m k))) k"
  using getShard_in_range [of m k]
  by (simp add: ms_look_def ms_DeleteExpired_shards ms_sweep_loop_nth)

lemma ms_DeleteExpired_inv:
  assumes "ms_inv m" shows "ms_inv (fst (ms_DeleteExpired clk m))"
proof -
  let ?m = "fst (ms_DeleteExpired clk m)"
  have len: "length (shards ?m) = length (shards m)"
    by (simp add: ms_DeleteExpired_shards ms_sweep_loop_nth)
  have "shard_inv (shards ?m ! i) \<and> (\<forall>k \<in> stored (shards ?m ! i). getShard ?m k = i)"
    if "i < length (shards ?m)" for i
  proof -
    have i: "i < length (shards m)" using that len by simp
    then have "shard_inv (shards m ! i)" "\<forall>k \<in> stored (shards m ! i). getShard m k = i"
      using assms by (simp_all add: ms_inv_def)
    then show ?thesis
      using i shard_DeleteExpired_inv stored_DeleteExpired [of "shards m ! i" "clk i"]
      by (auto simp: ms_DeleteExpired_shards ms_sweep_loop_nth)
  qed
  moreover have "shards ?m \<noteq> []" using assms len by (auto simp: ms_inv_def)
  ultimately show ?thesis
    using assms len by (simp add: ms_inv_def ms_DeleteExpired_shards(2))
qed

interpretation memory: store "\<lambda>t. True" ms_inv ms_look ms_keeps ms_Get ms_Set ms_Delete ms_Exists ms_TTL
  ms_Incr ms_DeleteExpired
proof
  fix m :: memory_store and now t t1 t2 t3 :: instant and k b d n clk and mp :: msgpack
  assume inv: "ms_inv m"
  note sh = ms_inv_shard [OF inv, of k]
  show "ms_inv (fst (ms_Get now k m))" "ms_inv (fst (ms_Set now k b d m))"
    "ms_inv (fst (ms_Delete k m))"
    unfolding ms_op_defs
    by (intro on_shard_inv inv shard_store.inv_get shard_store.inv_put shard_store.inv_del sh
        stored_reads stored_Set)+
  show "ms_inv (fst (ms_Exists t1 t2 k m))" "ms_inv (fst (ms_TTL t1 t2 k m))"
    "ms_inv (fst (ms_Incr mp t1 t2 t3 k n d m))" if t: "t1 \<le> t2"
    unfolding ms_op_defs
    by (intro on_shard_inv inv shard_store.inv_exi shard_store.inv_ttl shard_store.inv_incr sh t
        stored_reads stored_Incr)+
  show "ms_inv (fst (ms_DeleteExpired clk m))" by (rule ms_DeleteExpired_inv [OF inv])
  show "snd (ms_Get now k m) = ms_look now m k"
    by (simp add: ms_Get_def on_shard_snd live_Get ms_look_def)
  show "snd (ms_Exists t1 t2 k m) \<longleftrightarrow> ms_look t1 m k \<noteq> None"
    unfolding ms_Exists_def on_shard_snd live_Exists by (simp add: ms_look_def)
  show "ms_look t (fst (ms_Get now k m)) \<subseteq>\<^sub>m ms_look t m"
    "ms_look t (fst (ms_Exists t1 t2 k m)) \<subseteq>\<^sub>m ms_look t m"
    "ms_look t (fst (ms_TTL t1 t2 k m)) \<subseteq>\<^sub>m ms_look t m"
    unfolding ms_op_defs
    by (intro on_shard_sub inv live_Get_sub live_Exists_sub live_TTL_sub)+
  show "now \<le> t \<Longrightarrow> ms_look t (fst (ms_Get now k m)) = ms_look t m"
    "t2 \<le> t \<Longrightarrow> ms_look t (fst (ms_Exists t1 t2 k m)) = ms_look t m"
    unfolding ms_op_defs by (intro on_shard_eq inv live_after_Get live_after_Exists; assumption)+
  show "t2 < t \<Longrightarrow> ms_look t (fst (ms_TTL t1 t2 k m)) = ms_look t m"
    unfolding ms_op_defs by (intro on_shard_eq inv live_after_TTL) simp
  show "ms_look t (fst (ms_Set now k b d m)) \<subseteq>\<^sub>m (ms_look t m)(k \<mapsto> b)"
    unfolding ms_op_defs by (intro on_shard_upd inv shard_store.put_sub sh)
  show "ms_look t (fst (ms_Set now k b d m)) k =
      (if pos64 d \<and> time_add now d < t then None else Some b)" if "ms_keeps m now k b d"
    using shard_store.put_keeps [OF sh, of now k b d t] that
    by (simp add: ms_Set_def on_shard_look [OF inv] ms_keeps_def)
  show "ms_look t (fst (ms_Delete k m)) = (ms_look t m)(k := None)"
    by (rule ext) (simp add: ms_Delete_def on_shard_look [OF inv] live_Delete ms_look_def [of t m])
  show "ms_look t m k \<noteq> None \<Longrightarrow> snd (ms_Delete k m)"
    using shard_store.del_found [OF sh, of t k] by (simp add: ms_Delete_def on_shard_snd ms_look_def)
  show "ms_look t (fst (ms_DeleteExpired clk m)) \<subseteq>\<^sub>m ms_look t m"
    using map_le_get [OF live_DeleteExpired_sub [OF ms_inv_shard [OF inv]]]
    by (auto simp: map_le_def ms_DeleteExpired_look [OF inv] ms_look_def [of t m])
  show "ms_look t (fst (ms_DeleteExpired clk m)) = ms_look t m" if "\<And>i. True \<and> clk i \<le> t"
    by (rule ext) (simp add: ms_DeleteExpired_look [OF inv] ms_look_def [of t m] that
        live_after_DeleteExpired [OF ms_inv_shard [OF inv]])
next
  fix m m' :: memory_store and t t1 t2 t3 :: instant and k n d cbs err c and mp :: msgpack
  assume inv: "ms_inv m" and t: "t1 \<le> t2"
  note sh = ms_inv_shard [OF inv, of k]
  obtain s' cbs' r where e: "shard_Incr mp t1 t2 t3 k n d (shards m ! getShard m k) = (s', cbs', r)"
    by (cases "shard_Incr mp t1 t2 t3 k n d (shards m ! getShard m k)")
  have m': "ms_Incr mp t1 t2 t3 k n d m = (fst (ms_Incr mp t1 t2 t3 k n d m), cbs', r)"
    using e by (simp add: ms_Incr_def prod_eq_iff on_shard_snd)
  note live = live_Incr [OF sh t e]
  show "ms_Incr mp t1 t2 t3 k n d m = (m', cbs, Inl err) \<Longrightarrow> ms_look t m' \<subseteq>\<^sub>m ms_look t m"
    using live [of t] m' e
      on_shard_sub [OF inv, of t "shard_Incr mp t1 t2 t3 k n d" k] by (auto simp: ms_Incr_def)
  show "ms_Incr mp t1 t2 t3 k n d m = (m', cbs, Inr c) \<Longrightarrow>
      ms_look t m' \<subseteq>\<^sub>m (ms_look t m)(k \<mapsto> int64_bytes mp c)"
    using live [of t] m' e
      on_shard_upd [OF inv, of t "shard_Incr mp t1 t2 t3 k n d" k] by (auto simp: ms_Incr_def)
  show "ms_Incr mp t1 t2 t3 k n d m = (m', cbs, Inr c) \<Longrightarrow>
      (case ms_look t1 m k of None \<Rightarrow> c = n | Some v \<Rightarrow> unmarshal_int64 mp v = Inr (c - n))"
    using live [of t] m' by (auto simp: ms_look_def)
qed

section \<open>Runs of the store\<close>

fun ms_step :: "msgpack \<Rightarrow> shard_op \<Rightarrow> memory_store \<Rightarrow> memory_store \<times> shard_out" where
  "ms_step mp (OpGet now k) m = (let r = ms_Get now k m in (fst r, OutValue (snd r)))"
| "ms_step mp (OpSet now k b d) m = (let r = ms_Set now k b d m in (fst r, OutEvicted (snd r)))"
| "ms_step mp (OpDelete k) m = (let r = ms_Delete k m in (fst r, OutBool (snd r)))"
| "ms_step mp (OpExists t1 t2 k) m = (let r = ms_Exists t1 t2 k m in (fst r, OutBool (snd r)))"
| "ms_step mp (OpTTL t1 t2 k) m = (let r = ms_TTL t1 t2 k m in (fst r, OutDuration (snd r)))"
| "ms_step mp (OpIncr t1 t2 t3 k n d) m =
     (let r = ms_Incr mp t1 t2 t3 k n d m in (fst r, OutIncr (fst (snd r)) (snd (snd r))))"
| "ms_step mp (OpSweep now) m =
     (let r = ms_DeleteExpired (\<lambda>_. now) m in (fst r, OutCount (snd (snd r))))"

text \<open>A run with its history, the latest operation first.\<close>

fun ms_run :: "msgpack \<Rightarrow> shard_op list \<Rightarrow> memory_store \<times> (shard_op \<times> shard_out) list \<Rightarrow>
    memory_store \<times> (shard_op \<times> shard_out) list" where
  "ms_run mp [] c = c"
| "ms_run mp (op # ops) c =
     (let r = ms_step mp op (fst c) in ms_run mp ops (fst r, (op, snd r) # snd c))"

lemma ms_step_eq: "memory.step mp op m = ms_step mp op m"
  by (cases op) simp_all

lemma ms_run_eq: "memory.run mp ops c = ms_run mp ops c"
  by (induction ops arbitrary: c) (simp_all add: ms_step_eq)

definition ms_roomy :: "memory_store \<Rightarrow> bool" where
  "ms_roomy m \<longleftrightarrow> (\<forall>s \<in> set (shards m). \<not> pos64 (MaxSize s))"

lemma on_shard_roomy:
  assumes "ms_roomy m" "MaxSize (fst (f (shards m ! getShard m k))) = MaxSize (shards m ! getShard m k)"
    and "getShard m k < length (shards m)"
  shows "ms_roomy (fst (on_shard k f m))"
  using assms set_update_subset_insert [of "shards m" "getShard m k"]
  by (force simp: ms_roomy_def on_shard_def Let_def)

lemma refines_MaxSize: "refines s r q \<Longrightarrow> MaxSize (fst r) = MaxSize s"
  by (simp add: refines_def same_config_def)

lemma shard_DeleteExpired_MaxSize:
  "shard_inv s \<Longrightarrow> MaxSize (fst (shard_DeleteExpired now s)) = MaxSize s"
  using refines_MaxSize [OF shard_DeleteExpired_refines [of s now]] by simp

lemma ms_roomy_step:
  assumes inv: "ms_inv m" and r: "ms_roomy m" and ok: "op_ok op"
  shows "ms_roomy (fst (ms_step mp op m))"
proof -
  note sh = ms_inv_shard [OF inv] and lt = getShard_in_range [OF inv]
  note lift = on_shard_roomy [OF r refines_MaxSize lt]
  show ?thesis
  proof (cases op)
    case (OpSweep now)
    have "\<not> pos64 (MaxSize (fst (ms_sweep_loop (\<lambda>_. now) 0 (shards m)) ! j))" if "j < length (shards m)" for j
      using that inv r by (simp add: ms_sweep_loop_nth shard_DeleteExpired_MaxSize ms_inv_def ms_roomy_def)
    then show ?thesis
      using OpSweep
      by (auto simp: Let_def ms_roomy_def ms_DeleteExpired_shards ms_sweep_loop_nth in_set_conv_nth)
  next
    case (OpGet now k)
    then show ?thesis by (auto simp: Let_def ms_Get_def intro!: lift shard_Get_refines sh)
  next
    case (OpSet now k b d)
    then show ?thesis by (auto simp: Let_def ms_Set_def intro!: lift shard_Set_refines sh)
  next
    case (OpDelete k)
    then show ?thesis by (auto simp: Let_def ms_Delete_def intro!: lift shard_Delete_refines sh)
  next
    case (OpExists t1 t2 k)
    then show ?thesis using ok by (auto simp: Let_def ms_Exists_def intro!: lift shard_Exists_refines sh)
  next
    case (OpTTL t1 t2 k)
    then show ?thesis using ok by (auto simp: Let_def ms_TTL_def intro!: lift shard_TTL_refines sh)
  next
    case (OpIncr t1 t2 t3 k n d)
    then show ?thesis using ok by (auto simp: Let_def ms_Incr_def intro!: lift shard_Incr_refines sh)
  qed
qed

lemma ms_roomy_shard: "ms_inv m \<Longrightarrow> ms_roomy m \<Longrightarrow> \<not> pos64 (MaxSize (shards m ! getShard m k))"
  using getShard_in_range [of m k] by (simp add: ms_roomy_def)

interpretation memory_roomy: roomy_store "\<lambda>t. True" ms_inv ms_look ms_keeps ms_Get ms_Set ms_Delete ms_Exists
  ms_TTL ms_Incr ms_DeleteExpired ms_roomy "\<lambda>now d. True"
proof
  fix m :: memory_store and now t :: instant and k k' b d op and mp :: msgpack
  assume inv: "ms_inv m" and r: "ms_roomy m"
  show "op_ok op \<Longrightarrow> ms_roomy (fst (memory.step mp op m))"
    using ms_roomy_step [OF inv r] by (simp add: ms_step_eq)
  show "ms_keeps m now k b d"
    using ms_roomy_shard [OF inv r] by (simp add: ms_keeps_def shard_keeps_def)
  show "k' \<noteq> k \<Longrightarrow> ms_look t (fst (ms_Set now k b d m)) k' = ms_look t m k'"
    using live_Set_unlimited [OF ms_inv_shard [OF inv] ms_roomy_shard [OF inv r]]
    by (simp add: ms_Set_def on_shard_look [OF inv] ms_look_def [of t m])
qed

text \<open>A new store with its callbacks installed, as \<open>New\<close> of \<open>cache.go\<close> sets it up.\<close>

definition fresh_store :: "nat \<Rightarrow> int64 \<Rightarrow> bool \<Rightarrow> bool \<Rightarrow> memory_store" where
  "fresh_store n per evict expire = ms_SetOnExpire expire (ms_SetOnEvict evict (NewMemoryStore n per))"

lemma fresh_store_shards:
  "shards (fresh_store n per evict expire) =
     replicate n (NewShard per\<lparr>OnEvict := evict, OnExpire := expire\<rparr>)"
  "mask (fresh_store n per evict expire) = of_nat n - 1"
  by (simp_all add: fresh_store_def ms_SetOnExpire_def ms_SetOnEvict_def NewMemoryStore_def)

lemma fresh_shard_inv: "shard_inv (NewShard per\<lparr>OnEvict := evict, OnExpire := expire\<rparr>)"
  using shard_inv_NewShard [of per] by (simp add: shard_inv_def cells_def)

lemma fresh_store_inv:
  assumes "0 < n" "n \<le> 2 ^ 32" shows "ms_inv (fresh_store n per evict expire)"
  using assms fresh_shard_inv
  by (simp add: ms_inv_def fresh_store_shards stored_def) (simp add: NewShard_def)

lemma fresh_store_look:
  assumes "0 < n" "n \<le> 2 ^ 32" shows "ms_look t (fresh_store n per evict expire) = Map.empty"
  using getShard_in_range [OF fresh_store_inv [OF assms]]
  by (simp add: ms_look_def fresh_store_shards live_def fun_eq_iff) (simp add: NewShard_def)

lemma ms_Len_sum: "ms_Len m = sum_list (map shard_Len (shards m))"
proof -
  have "foldl (\<lambda>n s. n + shard_Len s) n ss = n + sum_list (map shard_Len ss)" for n ss
    by (induction ss arbitrary: n) simp_all
  then show ?thesis by (simp add: ms_Len_def)
qed

lemma ms_Len_card:
  assumes "ms_inv m" shows "ms_Len m = card (\<Union>s \<in> set (shards m). stored s)"
proof -
  let ?n = "length (shards m)"
  have "shard_Len (shards m ! i) = card (stored (shards m ! i))" if "i < ?n" for i
    using assms that shard_inv_wf [of "shards m ! i"] distinct_card [of "gm_keys (items (shards m ! i))"]
    by (simp add: ms_inv_def stored_def shard_Len_def)
  then have "ms_Len m = (\<Sum>i<?n. card (stored (shards m ! i)))"
    by (simp add: ms_Len_sum sum_list_sum_nth atLeast0LessThan)
  also have "\<dots> = card (\<Union>i<?n. stored (shards m ! i))"
  proof (rule card_UN_disjoint [symmetric])
    have "getShard m k = i" if "i < ?n" "k \<in> stored (shards m ! i)" for i k
      using assms that by (simp add: ms_inv_def)
    then show "\<forall>i \<in> {..<?n}. \<forall>j \<in> {..<?n}. i \<noteq> j \<longrightarrow> stored (shards m ! i) \<inter> stored (shards m ! j) = {}"
      by blast
  qed (auto simp: stored_def)
  also have "(\<Union>i<?n. stored (shards m ! i)) = (\<Union>s \<in> set (shards m). stored s)"
    by (auto simp: set_conv_nth)
  finally show ?thesis .
qed

section \<open>Properties\<close>

text \<open>
  C15: A memory store never shows a stale or made-up value: whatever sequence of Get, Set,
  Delete, Exists, TTL, Incr and sweep operations it has run, with or without a size limit and at
  whatever clock readings, a value that Get answers for a key is the one that the last Set or
  successful Incr of that key wrote, and no Delete of the key came after it.\<close>

theorem memory_no_stale_value:
  assumes "0 < n" "n \<le> 2 ^ 32" "list_all op_ok ops"
    and "snd (ms_Get now k (fst (ms_run mp ops (fresh_store n per evict expire, [])))) = Some v"
  shows "written_by mp (snd (ms_run mp ops (fresh_store n per evict expire, []))) k = Some v"
  using memory.get_last_written [OF fresh_store_inv [OF assms(1,2)] assms(3) fresh_store_look [OF assms(1,2)]]
    assms(4)
  by (simp add: ms_run_eq)

definition demo_ops :: "shard_op list" where
  "demo_ops =
     [OpSet 0 ''k'' [1] 0, OpSet 1 ''j'' [2] 50, OpGet 2 ''j'', OpIncr 3 3 3 ''n'' 5 0,
      OpSet 4 ''k'' [3] 10, OpDelete ''j'', OpExists 5 5 ''k'', OpTTL 6 6 ''n'', OpSweep 7]"

theorem memory_no_stale_value_witness:
  "snd (ms_Get 8 ''k'' (fst (ms_run fixed_msgpack demo_ops (fresh_store 4 0 True True, [])))) = Some [3]
   \<and> written_by fixed_msgpack (snd (ms_run fixed_msgpack demo_ops (fresh_store 4 0 True True, []))) ''k'' = Some [3]"
proof -
  have g: "snd (ms_Get 8 ''k'' (fst (ms_run fixed_msgpack demo_ops (fresh_store 4 0 True True, [])))) = Some [3]"
    by code_simp
  moreover have "list_all op_ok demo_ops" by code_simp
  ultimately show ?thesis
    using memory_no_stale_value [where n = 4 and mp = fixed_msgpack and ops = demo_ops and now = 8
        and k = "''k''" and per = 0 and evict = True and expire = True and v = "[3]"] by simp
qed

text \<open>
  A memory store without a size limit loses nothing: after any sequence of Get, Set,
  Delete, Exists, TTL and sweep operations, a Get at a later instant answers exactly what the
  last Set of the key wrote, unless a Delete followed it or its time to live has run out.\<close>

lemma memory_no_lost_value:
  assumes "0 < n" "n \<le> 2 ^ 32" "\<not> pos64 per"
    and "list_all (simple_op (\<lambda>now d. True)) ops" "list_all (before (\<lambda>t. True) t) ops"
  shows "snd (ms_Get t k (fst (ms_run mp ops (fresh_store n per evict expire, [])))) =
    shown t (written_until (rev ops)) k"
proof -
  have "ms_roomy (fresh_store n per evict expire)"
    using assms(3) by (simp add: ms_roomy_def fresh_store_shards) (simp add: NewShard_def)
  then show ?thesis
    using memory_roomy.get_exact [OF fresh_store_inv [OF assms(1,2)] TrueI _ assms(4,5) fresh_store_look [OF assms(1,2)]]
    by (simp add: ms_run_eq)
qed

text \<open>
  Sharding is sound: for every shard count from 1 to 2^32, after any run the shard index of
  every key is in range (the array access of getShard cannot panic), every stored key sits in
  the shard its hash selects and in no other, and Len is the number of distinct stored keys.\<close>

lemma memory_sharding_sound:
  assumes "0 < n" "n \<le> 2 ^ 32" "list_all op_ok ops"
    and "m = fst (ms_run mp ops (fresh_store n per evict expire, []))"
  shows "(\<forall>k. getShard m k < length (shards m)) \<and>
    (\<forall>i < length (shards m). \<forall>k. k \<in> stored (shards m ! i) \<longrightarrow> getShard m k = i) \<and>
    ms_Len m = card (\<Union>s \<in> set (shards m). stored s)"
proof -
  have "ms_inv m"
    using memory.run_sub [OF fresh_store_inv [OF assms(1,2)] assms(3), where h = "[]"]
      fresh_store_look [OF assms(1,2)] assms(4) by (simp add: ms_run_eq)
  then show ?thesis
    using getShard_in_range ms_Len_card by (auto simp: ms_inv_def)
qed

end
