(* ===== verification/Pebble_Store.thy ===== *)
theory Pebble_Store
  imports Store_Contract
begin

text \<open>
  \<open>src/store_pebble.go\<close>: the disk store. The Pebble engine is not part of the repository: the
  record \<open>pebble_api\<close> names the calls the code makes, over an arbitrary type \<open>'d\<close> of database
  states, and every operation takes it as an argument. \<open>pebble_ok\<close> is what the documentation of
  the engine promises of an open database that hits no I/O error: a key-value map, with an
  iterator over all of its pairs. \<open>list_pebble\<close> is a concrete engine that keeps the promise.

  The theory shows that expiry and value survive the on-disk encoding, that the store implements
  the \<open>Store\<close> contract, when its key counter is exact, and where it is not.
\<close>

section \<open>The engine\<close>

record 'd pebble_api =
  db_Get :: "'d \<Rightarrow> string \<Rightarrow> bytes option"
  db_Set :: "string \<Rightarrow> bytes \<Rightarrow> 'd \<Rightarrow> 'd \<times> string option"
  db_Delete :: "string \<Rightarrow> 'd \<Rightarrow> 'd \<times> string option"
  db_iter :: "'d \<Rightarrow> (string \<times> bytes) list option"
  db_commit :: "string list \<Rightarrow> 'd \<Rightarrow> 'd \<times> string option"

definition pebble_ok :: "'d pebble_api \<Rightarrow> bool" where
  "pebble_ok api \<longleftrightarrow>
     (\<forall>k v d. snd (db_Set api k v d) = None \<and>
        db_Get api (fst (db_Set api k v d)) = (db_Get api d)(k \<mapsto> v)) \<and>
     (\<forall>k d. snd (db_Delete api k d) = None \<and>
        db_Get api (fst (db_Delete api k d)) = (db_Get api d)(k := None)) \<and>
     (\<forall>ks d. snd (db_commit api ks d) = None \<and>
        db_Get api (fst (db_commit api ks d)) = (db_Get api d) |` (- set ks)) \<and>
     (\<forall>d. \<exists>xs. db_iter api d = Some xs \<and> distinct (map fst xs) \<and> map_of xs = db_Get api d)"

definition list_pebble :: "(string, bytes) gomap pebble_api" where
  "list_pebble =
     \<lparr>db_Get = gm_get,
      db_Set = (\<lambda>k v d. (gm_set k v (AList.clearjunk d), None)),
      db_Delete = (\<lambda>k d. (gm_del k d, None)),
      db_iter = (\<lambda>d. Some (AList.clearjunk d)),
      db_commit = (\<lambda>ks d. (filter (\<lambda>p. fst p \<notin> set ks) d, None))\<rparr>"

section \<open>Definitions\<close>

record 'd pebble_store =
  db :: 'd
  pcount :: int64
  ponEvict :: bool
  ponExpire :: bool

text \<open>The keys an iterator visits; a failing \<open>NewIter\<close> counts none.\<close>

definition ps_countKeys :: "'d pebble_api \<Rightarrow> 'd \<Rightarrow> int64" where
  "ps_countKeys api d = (case db_iter api d of None \<Rightarrow> 0 | Some xs \<Rightarrow> foldl (\<lambda>n x. n + 1) 0 xs)"

text \<open>\<open>d\<close> is the database that \<open>pebble.Open\<close> answers.\<close>

definition NewPebbleStore :: "'d pebble_api \<Rightarrow> string + 'd \<Rightarrow> string + 'd pebble_store" where
  "NewPebbleStore api opened =
     (case opened of
        Inl err \<Rightarrow> Inl err
      | Inr d \<Rightarrow> Inr \<lparr>db = d, pcount = ps_countKeys api d, ponEvict = False, ponExpire = False\<rparr>)"

definition ps_encode :: "instant \<Rightarrow> bytes \<Rightarrow> duration \<Rightarrow> bytes" where
  "ps_encode now value ttl =
     (let expiresAtNano = (if pos64 ttl then word_of_int (time_add now ttl) else 0)
      in PutUint64 expiresAtNano @ value)"

definition ps_decode :: "bytes \<Rightarrow> bytes \<times> int64" where
  "ps_decode raw = (if length raw < 8 then ([], 0) else (drop 8 raw, Uint64 (take 8 raw)))"

definition ps_isExpired :: "instant \<Rightarrow> int64 \<Rightarrow> bool" where
  "ps_isExpired now expiresAtNano \<longleftrightarrow> expiresAtNano \<noteq> 0 \<and> less64 expiresAtNano (word_of_int now)"

text \<open>The two statements that purge an expired key; the error of \<open>db.Delete\<close> is ignored.\<close>

definition ps_purge :: "'d pebble_api \<Rightarrow> string \<Rightarrow> 'd pebble_store \<Rightarrow> 'd pebble_store" where
  "ps_purge api key p = p\<lparr>db := fst (db_Delete api key (db p)), pcount := pcount p - 1\<rparr>"

text \<open>
  \<open>Get\<close> holds no lock: what follows the read of the raw bytes is a definition of its own, so
  that other operations can run in between.
\<close>

definition ps_Get_finish ::
    "'d pebble_api \<Rightarrow> instant \<Rightarrow> string \<Rightarrow> bytes \<Rightarrow> 'd pebble_store \<Rightarrow> 'd pebble_store \<times> bytes option" where
  "ps_Get_finish api now key rawCopy p =
     (let (value, expiresAt) = ps_decode rawCopy
      in if ps_isExpired now expiresAt then (ps_purge api key p, None) else (p, Some value))"

definition ps_Get ::
    "'d pebble_api \<Rightarrow> instant \<Rightarrow> string \<Rightarrow> 'd pebble_store \<Rightarrow> 'd pebble_store \<times> bytes option" where
  "ps_Get api now key p =
     (case db_Get api (db p) key of
        None \<Rightarrow> (p, None)
      | Some raw \<Rightarrow> ps_Get_finish api now key raw p)"

definition ps_Set ::
    "'d pebble_api \<Rightarrow> instant \<Rightarrow> string \<Rightarrow> bytes \<Rightarrow> duration \<Rightarrow> 'd pebble_store \<Rightarrow> 'd pebble_store" where
  "ps_Set api now key value ttl p =
     (let existed = (db_Get api (db p) key \<noteq> None);
          encoded = ps_encode now value ttl;
          (d, err) = db_Set api key encoded (db p)
      in if err \<noteq> None then p\<lparr>db := d\<rparr>
         else p\<lparr>db := d, pcount := (if existed then pcount p else pcount p + 1)\<rparr>)"

definition ps_Delete ::
    "'d pebble_api \<Rightarrow> string \<Rightarrow> 'd pebble_store \<Rightarrow> 'd pebble_store \<times> bool" where
  "ps_Delete api key p =
     (case db_Get api (db p) key of
        None \<Rightarrow> (p, False)
      | Some raw \<Rightarrow>
          (let (d, err) = db_Delete api key (db p)
           in if err \<noteq> None then (p\<lparr>db := d\<rparr>, False) else (p\<lparr>db := d, pcount := pcount p - 1\<rparr>, True)))"

definition ps_Exists ::
    "'d pebble_api \<Rightarrow> instant \<Rightarrow> string \<Rightarrow> 'd pebble_store \<Rightarrow> 'd pebble_store \<times> bool" where
  "ps_Exists api now key p =
     (case db_Get api (db p) key of
        None \<Rightarrow> (p, False)
      | Some raw \<Rightarrow>
          (let (value, expiresAt) = ps_decode raw
           in if ps_isExpired now expiresAt then (ps_purge api key p, False) else (p, True)))"

definition ps_TTL ::
    "'d pebble_api \<Rightarrow> instant \<Rightarrow> string \<Rightarrow> 'd pebble_store \<Rightarrow> 'd pebble_store \<times> duration" where
  "ps_TTL api now key p =
     (case db_Get api (db p) key of
        None \<Rightarrow> (p, 0)
      | Some raw \<Rightarrow>
          (let (value, expiresAtNano) = ps_decode raw
           in if expiresAtNano = 0 then (p, - 1)
              else let remaining = time_until now (sint expiresAtNano)
                   in if \<not> pos64 remaining then (ps_purge api key p, 0) else (p, remaining)))"

text \<open>The tail of \<open>Incr\<close>: serialize, look the key up again, store and count.\<close>

definition ps_incr_store ::
    "'d pebble_api \<Rightarrow> ('a) msgpack_scheme \<Rightarrow> instant \<Rightarrow> string \<Rightarrow> int64 \<Rightarrow> duration \<Rightarrow> 'd pebble_store \<Rightarrow>
     'd pebble_store \<times> (string + int64)" where
  "ps_incr_store api mp now key current ttl p =
     (case Serialize (marshal_int64 mp) (GVal current) of
        Inl err \<Rightarrow> (p, Inl err)
      | Inr newValue \<Rightarrow>
          (let encoded = ps_encode now newValue ttl;
               existed = (db_Get api (db p) key \<noteq> None);
               (d, serr) = db_Set api key encoded (db p)
           in case serr of
                Some err \<Rightarrow> (p\<lparr>db := d\<rparr>, Inl err)
              | None \<Rightarrow>
                  (p\<lparr>db := d, pcount := (if existed then pcount p else pcount p + 1)\<rparr>, Inr current)))"

definition ps_Incr ::
    "'d pebble_api \<Rightarrow> ('a) msgpack_scheme \<Rightarrow> instant \<Rightarrow> instant \<Rightarrow> instant \<Rightarrow> string \<Rightarrow> int64 \<Rightarrow> duration \<Rightarrow>
     'd pebble_store \<Rightarrow> 'd pebble_store \<times> (string + int64)" where
  "ps_Incr api mp t1 t2 t3 key delta defaultTTL p =
     (case db_Get api (db p) key of
        None \<Rightarrow> ps_incr_store api mp t3 key (0 + delta) defaultTTL p
      | Some raw \<Rightarrow>
          (let (value, expiresAtNano) = ps_decode raw
           in if \<not> ps_isExpired t1 expiresAtNano then
                (case unmarshal_int64 mp value of
                   Inl err \<Rightarrow> (p, Inl err)
                 | Inr current \<Rightarrow>
                     (let remaining = time_until t2 (sint expiresAtNano);
                          ttl = (if expiresAtNano \<noteq> 0 \<and> pos64 remaining then remaining else 0)
                      in ps_incr_store api mp t3 key (current + delta) ttl p))
              else ps_incr_store api mp t3 key (0 + delta) defaultTTL
                     (p\<lparr>pcount := pcount p - 1\<rparr>)))"

text \<open>The collecting loop of \<open>DeleteExpired\<close> over the iterator.\<close>

fun ps_collect :: "instant \<Rightarrow> (string \<times> bytes) list \<Rightarrow> callback list" where
  "ps_collect now [] = []"
| "ps_collect now ((key, raw) # rest) =
     (if length raw < 8 then ps_collect now rest
      else let expiresAtNano = Uint64 (take 8 raw) :: int64
           in if expiresAtNano \<noteq> 0 \<and> less64 expiresAtNano (word_of_int now)
              then (key, drop 8 raw) # ps_collect now rest
              else ps_collect now rest)"

definition ps_DeleteExpired ::
    "'d pebble_api \<Rightarrow> instant \<Rightarrow> 'd pebble_store \<Rightarrow> 'd pebble_store \<times> callback list \<times> nat" where
  "ps_DeleteExpired api now p =
     (case db_iter api (db p) of
        None \<Rightarrow> (p, [], 0)
      | Some xs \<Rightarrow>
          (let expired = ps_collect now xs
           in if expired = [] then (p, [], 0)
              else (p\<lparr>db := fst (db_commit api (map fst expired) (db p)),
                      pcount := pcount p - of_nat (length expired)\<rparr>,
                    if ponExpire p then expired else [], length expired)))"

definition ps_Len :: "'d pebble_store \<Rightarrow> int64" where
  "ps_Len p = pcount p"

definition ps_SetOnEvict :: "bool \<Rightarrow> 'd pebble_store \<Rightarrow> 'd pebble_store" where
  "ps_SetOnEvict fn p = p\<lparr>ponEvict := fn\<rparr>"

definition ps_SetOnExpire :: "bool \<Rightarrow> 'd pebble_store \<Rightarrow> 'd pebble_store" where
  "ps_SetOnExpire fn p = p\<lparr>ponExpire := fn\<rparr>"

section \<open>The abstract content\<close>

text \<open>The instants that \<open>UnixNano\<close> represents: the years 1678 to 2262.\<close>

definition nano_clock :: "instant \<Rightarrow> bool" where
  "nano_clock t \<longleftrightarrow> - (2 ^ 63) \<le> t \<and> t < 2 ^ 63"

definition ps_fits :: "instant \<Rightarrow> duration \<Rightarrow> bool" where
  "ps_fits now d \<longleftrightarrow> (pos64 d \<longrightarrow> nano_clock (time_add now d) \<and> time_add now d \<noteq> 0)"

definition raw_look :: "instant \<Rightarrow> bytes \<Rightarrow> bytes option" where
  "raw_look t raw = (let (v, e) = ps_decode raw in if ps_isExpired t e then None else Some v)"

definition ps_look :: "'d pebble_api \<Rightarrow> instant \<Rightarrow> 'd pebble_store \<Rightarrow> string \<Rightarrow> bytes option" where
  "ps_look api t p k = Option.bind (db_Get api (db p) k) (raw_look t)"

section \<open>Lemmas: the encoding\<close>

lemma pebble_okD:
  assumes "pebble_ok api"
  shows "snd (db_Set api k v d) = None" "db_Get api (fst (db_Set api k v d)) = (db_Get api d)(k \<mapsto> v)"
    "snd (db_Delete api k d) = None" "db_Get api (fst (db_Delete api k d)) = (db_Get api d)(k := None)"
    "db_Get api (fst (db_commit api ks d)) = (db_Get api d) |` (- set ks)"
  using assms by (simp_all add: pebble_ok_def)

lemma pebble_ok_iter:
  assumes "pebble_ok api"
  obtains xs where "db_iter api d = Some xs" "gm_wf xs" "gm_get xs = db_Get api d"
  using assms unfolding pebble_ok_def by blast

lemma gm_get_filter_keys: "gm_get (filter (\<lambda>p. fst p \<notin> A) d) = gm_get d |` (- A)"
  by (induction d) (auto simp: restrict_map_def fun_eq_iff)

lemma pebble_ok_list: "pebble_ok list_pebble"
  by (simp add: pebble_ok_def list_pebble_def gm_get_filter_keys map_of_clearjunk)

lemma ps_decode_encode:
  "ps_decode (ps_encode now v d) = (v, if pos64 d then word_of_int (time_add now d) else 0)"
  by (simp add: ps_decode_def ps_encode_def Let_def)

lemma sint_of_nano: "nano_clock t \<Longrightarrow> sint (word_of_int t :: int64) = t"
  by (simp add: nano_clock_def sint_word_of_int_id)

lemma ps_isExpired_nano:
  "nano_clock t \<Longrightarrow> ps_isExpired t e \<longleftrightarrow> e \<noteq> 0 \<and> sint e < t"
  by (simp add: ps_isExpired_def less64_def sint_of_nano)

lemma ps_isExpired_mono:
  "nano_clock now \<Longrightarrow> nano_clock t \<Longrightarrow> now \<le> t \<Longrightarrow> ps_isExpired now e \<Longrightarrow> ps_isExpired t e"
  by (auto simp: ps_isExpired_nano)

lemma raw_look_encode:
  assumes "nano_clock t" "ps_fits now d"
  shows "raw_look t (ps_encode now v d) = (if pos64 d \<and> time_add now d < t then None else Some v)"
proof (cases "pos64 d")
  case True
  then have n: "nano_clock (time_add now d)" and "time_add now d \<noteq> 0"
    using assms(2) by (auto simp: ps_fits_def)
  then have "(word_of_int (time_add now d) :: int64) \<noteq> 0"
    using sint_of_nano [OF n] by fastforce
  then show ?thesis
    using True n assms(1) by (simp add: raw_look_def ps_decode_encode ps_isExpired_nano sint_of_nano)
qed (simp add: raw_look_def ps_decode_encode ps_isExpired_def)

lemma raw_look_value: "raw_look t (ps_encode now v d) = None \<or> raw_look t (ps_encode now v d) = Some v"
  by (simp add: raw_look_def ps_decode_encode)

section \<open>Lemmas: the operations on a healthy engine\<close>

lemma db_ops_pair:
  assumes "pebble_ok api"
  shows "db_Set api k v d = (fst (db_Set api k v d), None)"
    "db_Delete api k d = (fst (db_Delete api k d), None)"
  using pebble_okD [OF assms] by (simp_all add: prod_eq_iff)

text \<open>What each operation leaves in the database, as a map.\<close>

definition content :: "'d pebble_api \<Rightarrow> 'd pebble_store \<Rightarrow> string \<rightharpoonup> bytes" where
  "content api p = db_Get api (db p)"

lemma ps_look_content: "ps_look api t p k = Option.bind (content api p k) (raw_look t)"
  by (simp add: ps_look_def content_def)

lemma content_purge: "pebble_ok api \<Longrightarrow> content api (ps_purge api k p) = (content api p)(k := None)"
  by (simp add: content_def ps_purge_def pebble_okD)

lemma content_Set:
  "pebble_ok api \<Longrightarrow> content api (ps_Set api now k v d p) = (content api p)(k \<mapsto> ps_encode now v d)"
  by (subst ps_Set_def, subst db_ops_pair) (simp_all add: content_def Let_def pebble_okD)

lemma content_Delete:
  "pebble_ok api \<Longrightarrow> content api (fst (ps_Delete api k p)) = (content api p)(k := None)"
  by (subst ps_Delete_def, subst db_ops_pair)
    (auto simp: content_def Let_def pebble_okD fun_eq_iff split: option.split)

lemma content_Get:
  "pebble_ok api \<Longrightarrow> content api (fst (ps_Get api now k p)) =
     (if content api p k \<noteq> None \<and> ps_look api now p k = None then (content api p)(k := None)
      else content api p)"
  by (auto simp: ps_Get_def ps_Get_finish_def content_purge ps_look_def raw_look_def content_def [of api p]
      split: option.split prod.split)

lemma content_Exists:
  "pebble_ok api \<Longrightarrow> content api (fst (ps_Exists api now k p)) =
     (if content api p k \<noteq> None \<and> ps_look api now p k = None then (content api p)(k := None)
      else content api p)"
  by (auto simp: ps_Exists_def content_purge ps_look_def raw_look_def content_def [of api p]
      split: option.split prod.split)

lemma content_TTL:
  "pebble_ok api \<Longrightarrow> content api (fst (ps_TTL api now k p)) =
     (case content api p k of
        None \<Rightarrow> content api p
      | Some raw \<Rightarrow>
          if snd (ps_decode raw) \<noteq> 0 \<and> sint (snd (ps_decode raw)) \<le> now
          then (content api p)(k := None) else content api p)"
  by (auto simp: ps_TTL_def content_purge Let_def not_less pos64_time_until content_def [of api p]
      split: option.split prod.split)

lemma incr_store_result:
  assumes "pebble_ok api"
  shows "ps_incr_store api mp now k c d p =
    (case marshal_int64 mp c of
       Inl err \<Rightarrow> (p, Inl err)
     | Inr b \<Rightarrow> (ps_Set api now k b d p, Inr c))"
proof -
  have "db_Set api k v d \<noteq> (x, Some e)" for v d x e
    using pebble_okD(1) [OF assms, of k v d] by auto
  then show ?thesis
    by (auto simp: ps_incr_store_def ps_Set_def Let_def split: sum.split prod.split option.split)
qed

lemma set_ps_collect:
  "set (map fst (ps_collect now xs)) = {k. \<exists>raw. (k, raw) \<in> set xs \<and> raw_look now raw = None}"
proof (induction xs)
  case (Cons x xs)
  obtain k raw where "x = (k, raw)" by (cases x)
  with Cons show ?case
    by (auto simp: raw_look_def ps_decode_def ps_isExpired_def Let_def)
qed simp

lemma content_DeleteExpired:
  assumes "pebble_ok api"
  shows "content api (fst (ps_DeleteExpired api now p)) k =
    (if ps_look api now p k = None then None else content api p k)"
proof -
  obtain xs where xs: "db_iter api (db p) = Some xs" "gm_wf xs" "gm_get xs = content api p"
    using pebble_ok_iter [OF assms, of "db p"] by (auto simp: content_def)
  have "k \<in> set (map fst (ps_collect now xs)) \<longleftrightarrow> content api p k \<noteq> None \<and> ps_look api now p k = None"
    unfolding set_ps_collect gm_in_set [OF xs(2)] by (auto simp: ps_look_content xs(3))
  moreover have "content api (fst (ps_DeleteExpired api now p)) =
      content api p |` (- set (map fst (ps_collect now xs)))"
    using xs(1) by (auto simp: ps_DeleteExpired_def Let_def content_def pebble_okD [OF assms] restrict_map_def)
  ultimately show ?thesis by (auto simp: restrict_map_def ps_look_content)
qed

section \<open>The disk store implements the contract\<close>

lemma look_le:
  assumes "\<And>k' raw. content api p' k' = Some raw \<Longrightarrow> content api p k' = Some raw"
  shows "ps_look api t p' \<subseteq>\<^sub>m ps_look api t p"
  using assms by (fastforce simp: map_le_def ps_look_content dom_def bind_eq_Some_conv)

lemma look_Set_sub:
  assumes "pebble_ok api"
  shows "ps_look api t (ps_Set api now k b d p) \<subseteq>\<^sub>m (ps_look api t p)(k \<mapsto> b)"
  using raw_look_value [of t now b d]
  by (auto simp: map_le_def ps_look_content content_Set [OF assms])

lemma look_purged:
  assumes "content api p' = (if c then (content api p)(k := None) else content api p)"
    and "c \<Longrightarrow> ps_look api t p k = None"
  shows "ps_look api t p' = ps_look api t p"
  using assms by (auto simp: fun_eq_iff ps_look_content split: if_splits)

lemma look_mono:
  "nano_clock now \<Longrightarrow> nano_clock t \<Longrightarrow> now \<le> t \<Longrightarrow> ps_look api now p k = None \<Longrightarrow> ps_look api t p k = None"
  using ps_isExpired_mono [of now t]
  by (auto simp: ps_look_content raw_look_def bind_eq_None_conv split: prod.splits if_splits)

lemma look_after_TTL:
  assumes ok: "pebble_ok api" and t: "nano_clock t" "now < t"
  shows "ps_look api t (fst (ps_TTL api now k p)) = ps_look api t p"
proof -
  have "raw_look t raw = None"
    if "snd (ps_decode raw) \<noteq> 0" "sint (snd (ps_decode raw)) \<le> now" for raw
    using that t by (auto simp: raw_look_def ps_isExpired_nano [OF t(1)] split: prod.split)
  then show ?thesis
    using content_TTL [OF ok, of now k p]
    by (auto simp: fun_eq_iff ps_look_content split: option.splits if_splits)
qed

lemma look_Incr:
  assumes ok: "pebble_ok api" and r: "ps_Incr api mp t1 t2 t3 k n d p = (p', res)"
  shows "case res of
      Inl err \<Rightarrow> ps_look api t p' = ps_look api t p
    | Inr c \<Rightarrow> ps_look api t p' \<subseteq>\<^sub>m (ps_look api t p)(k \<mapsto> int64_bytes mp c) \<and>
        (case ps_look api t1 p k of None \<Rightarrow> c = n | Some b \<Rightarrow> unmarshal_int64 mp b = Inr (c - n))"
proof -
  have eq: "ps_look api t (p\<lparr>pcount := x\<rparr>) = ps_look api t p" for t x
    by (simp add: fun_eq_iff ps_look_def)
  have bytes: "marshal_int64 mp c = Inr b \<Longrightarrow> int64_bytes mp c = b" for c b
    by (simp add: int64_bytes_def)
  note set = look_Set_sub [OF ok, of t] look_Set_sub [OF ok, of t _ _ _ _ "p\<lparr>pcount := _\<rparr>", unfolded eq]
  show ?thesis
  proof (cases "db_Get api (db p) k")
    case None
    then show ?thesis
      using r set by (auto simp: ps_Incr_def incr_store_result [OF ok] ps_look_def [of api t1] bytes split: sum.splits)
  next
    case (Some raw)
    obtain v e where "ps_decode raw = (v, e)" by (cases "ps_decode raw")
    with Some show ?thesis
      using r set
      by (auto simp: ps_Incr_def incr_store_result [OF ok] ps_look_def [of api t1] raw_look_def bytes eq Let_def
          split: sum.splits if_splits)
  qed
qed

definition with_callbacks :: "'s \<times> 'r \<Rightarrow> 's \<times> callback list \<times> 'r" where
  "with_callbacks r = (fst r, [], snd r)"

interpretation disk: store nano_clock "\<lambda>p. pebble_ok api" "ps_look api" "\<lambda>p now k b d. ps_fits now d"
  "ps_Get api" "\<lambda>now k b d p. (ps_Set api now k b d p, [])" "ps_Delete api" "\<lambda>t1 t2. ps_Exists api t1"
  "\<lambda>t1 t2. ps_TTL api t2" "\<lambda>mp t1 t2 t3 k n d p. with_callbacks (ps_Incr api mp t1 t2 t3 k n d p)"
  "\<lambda>clk. ps_DeleteExpired api (clk 0)" for api :: "'d pebble_api"
proof
  fix p :: "'d pebble_store" and now t t1 t2 t3 :: instant and k b d n clk and mp :: msgpack
  assume ok: "pebble_ok api"
  show "snd (ps_Get api now k p) = ps_look api now p k"
    by (auto simp: ps_Get_def ps_Get_finish_def ps_look_def raw_look_def split: option.split prod.split)
  show "ps_look api t (fst (ps_Get api now k p)) \<subseteq>\<^sub>m ps_look api t p"
    "ps_look api t (fst (ps_Exists api t1 k p)) \<subseteq>\<^sub>m ps_look api t p"
    "ps_look api t (fst (ps_TTL api t2 k p)) \<subseteq>\<^sub>m ps_look api t p"
    by (rule look_le, simp add: content_Get [OF ok] content_Exists [OF ok] content_TTL [OF ok]
        split: if_splits option.splits)+
  show "ps_look api t (fst (ps_Get api now k p)) = ps_look api t p"
    if "nano_clock now" "nano_clock t" "now \<le> t"
    by (rule look_purged [OF content_Get [OF ok]]) (use look_mono [OF that, of api p k] in simp)
  show "ps_look api t (fst (ps_Exists api t1 k p)) = ps_look api t p"
    if "nano_clock t1" "nano_clock t2" "nano_clock t" "t1 \<le> t2" "t2 \<le> t"
    by (rule look_purged [OF content_Exists [OF ok]]) (use that look_mono [of t1 t api p k] in simp)
  show "ps_look api t (fst (ps_TTL api t2 k p)) = ps_look api t p"
    if "nano_clock t1" "nano_clock t2" "nano_clock t" "t1 \<le> t2" "t2 < t"
    using that by (intro look_after_TTL ok)
  show "ps_look api t (fst (ps_Set api now k b d p, [])) \<subseteq>\<^sub>m (ps_look api t p)(k \<mapsto> b)"
    using look_Set_sub [OF ok] by simp
  show "ps_look api t (fst (ps_Set api now k b d p, [])) k =
      (if pos64 d \<and> time_add now d < t then None else Some b)" if "nano_clock t" "ps_fits now d"
    using raw_look_encode [OF that] by (simp add: ps_look_content content_Set [OF ok])
  show "ps_look api t (fst (ps_Delete api k p)) = (ps_look api t p)(k := None)"
    by (simp add: fun_eq_iff ps_look_content content_Delete [OF ok])
  show "ps_look api t p k \<noteq> None \<Longrightarrow> snd (ps_Delete api k p)"
    using db_ops_pair(2) [OF ok, of k "db p"]
    by (auto simp: ps_look_def ps_Delete_def Let_def bind_eq_Some_conv split: option.splits prod.splits)
  show "snd (ps_Exists api t1 k p) \<longleftrightarrow> ps_look api t1 p k \<noteq> None"
    by (auto simp: ps_Exists_def ps_look_def raw_look_def split: option.split prod.split)
  show "ps_look api t (fst (ps_DeleteExpired api (clk 0) p)) \<subseteq>\<^sub>m ps_look api t p"
    by (rule look_le) (simp add: content_DeleteExpired [OF ok] split: if_splits)
  show "ps_look api t (fst (ps_DeleteExpired api (clk 0) p)) = ps_look api t p"
    if "nano_clock t" "\<And>i. nano_clock (clk i) \<and> clk i \<le> t"
    using look_mono [of "clk 0" t api p] that
    by (auto simp: fun_eq_iff ps_look_content [of api t "fst (ps_DeleteExpired api (clk 0) p)"]
        content_DeleteExpired [OF ok] simp flip: ps_look_content)
next
  fix p p' :: "'d pebble_store" and t t1 t2 t3 :: instant and k n d cbs err m and mp :: msgpack
  assume ok: "pebble_ok api"
  obtain q res where e: "ps_Incr api mp t1 t2 t3 k n d p = (q, res)"
    by (cases "ps_Incr api mp t1 t2 t3 k n d p")
  note incr = look_Incr [OF ok e]
  show "with_callbacks (ps_Incr api mp t1 t2 t3 k n d p) = (p', cbs, Inl err) \<Longrightarrow>
      ps_look api t p' \<subseteq>\<^sub>m ps_look api t p"
    using e incr [of t] by (auto simp: with_callbacks_def)
  show "with_callbacks (ps_Incr api mp t1 t2 t3 k n d p) = (p', cbs, Inr m) \<Longrightarrow>
      ps_look api t p' \<subseteq>\<^sub>m (ps_look api t p)(k \<mapsto> int64_bytes mp m)"
    using e incr [of t] by (auto simp: with_callbacks_def)
  show "with_callbacks (ps_Incr api mp t1 t2 t3 k n d p) = (p', cbs, Inr m) \<Longrightarrow>
      (case ps_look api t1 p k of None \<Rightarrow> m = n | Some v \<Rightarrow> unmarshal_int64 mp v = Inr (m - n))"
    using e incr [of t] by (auto simp: with_callbacks_def)
qed

section \<open>Runs of the store\<close>

fun ps_step :: "'d pebble_api \<Rightarrow> msgpack \<Rightarrow> shard_op \<Rightarrow> 'd pebble_store \<Rightarrow> 'd pebble_store \<times> shard_out" where
  "ps_step api mp (OpGet now k) p = (let r = ps_Get api now k p in (fst r, OutValue (snd r)))"
| "ps_step api mp (OpSet now k b d) p = (ps_Set api now k b d p, OutEvicted [])"
| "ps_step api mp (OpDelete k) p = (let r = ps_Delete api k p in (fst r, OutBool (snd r)))"
| "ps_step api mp (OpExists t1 t2 k) p = (let r = ps_Exists api t1 k p in (fst r, OutBool (snd r)))"
| "ps_step api mp (OpTTL t1 t2 k) p = (let r = ps_TTL api t2 k p in (fst r, OutDuration (snd r)))"
| "ps_step api mp (OpIncr t1 t2 t3 k n d) p =
     (let r = ps_Incr api mp t1 t2 t3 k n d p in (fst r, OutIncr [] (snd r)))"
| "ps_step api mp (OpSweep now) p =
     (let r = ps_DeleteExpired api now p in (fst r, OutCount (snd (snd r))))"

fun ps_run :: "'d pebble_api \<Rightarrow> msgpack \<Rightarrow> shard_op list \<Rightarrow> 'd pebble_store \<times> (shard_op \<times> shard_out) list \<Rightarrow>
    'd pebble_store \<times> (shard_op \<times> shard_out) list" where
  "ps_run api mp [] c = c"
| "ps_run api mp (op # ops) c =
     (let r = ps_step api mp op (fst c) in ps_run api mp ops (fst r, (op, snd r) # snd c))"

lemma ps_step_eq: "disk.step api mp op p = ps_step api mp op p"
  by (cases op) (simp_all, simp_all add: with_callbacks_def Let_def)

lemma ps_run_eq: "disk.run api mp ops c = ps_run api mp ops c"
  by (induction ops arbitrary: c) (simp_all add: ps_step_eq)

interpretation disk_roomy: roomy_store nano_clock "\<lambda>p. pebble_ok api" "ps_look api"
  "\<lambda>p now k b d. ps_fits now d" "ps_Get api" "\<lambda>now k b d p. (ps_Set api now k b d p, [])"
  "ps_Delete api" "\<lambda>t1 t2. ps_Exists api t1" "\<lambda>t1 t2. ps_TTL api t2"
  "\<lambda>mp t1 t2 t3 k n d p. with_callbacks (ps_Incr api mp t1 t2 t3 k n d p)"
  "\<lambda>clk. ps_DeleteExpired api (clk 0)" "\<lambda>p. True" ps_fits for api :: "'d pebble_api"
  by unfold_locales (simp_all add: ps_look_content content_Set)

section \<open>The key counter\<close>

definition count_ok :: "'d pebble_api \<Rightarrow> 'd pebble_store \<Rightarrow> bool" where
  "count_ok api p \<longleftrightarrow> ps_Len p = of_nat (card (dom (content api p)))"

lemma finite_content: "pebble_ok api \<Longrightarrow> finite (dom (content api p))"
  using pebble_ok_iter [of api "db p"] finite_dom_map_of by (metis content_def)

lemma of_nat_card_insert:
  "finite A \<Longrightarrow> (of_nat (card (insert k A)) :: int64) = (if k \<in> A then of_nat (card A) else of_nat (card A) + 1)"
  by (simp add: insert_absorb)

lemma of_nat_card_remove:
  "finite A \<Longrightarrow> k \<in> A \<Longrightarrow> (of_nat (card (A - {k})) :: int64) = of_nat (card A) - 1"
  using card_Suc_Diff1 [of A k] by (metis add_diff_cancel_left' of_nat_Suc)

lemma count_purge:
  assumes "pebble_ok api" "count_ok api p" "content api p k \<noteq> None"
  shows "count_ok api (ps_purge api k p)"
  using assms of_nat_card_remove [OF finite_content [OF assms(1)], of k p]
  by (simp add: count_ok_def ps_Len_def content_purge) (simp add: ps_purge_def domIff)

lemma count_Set:
  assumes "pebble_ok api" "count_ok api p"
  shows "count_ok api (ps_Set api now k b d p)"
proof -
  have "pcount (ps_Set api now k b d p) = (if content api p k \<noteq> None then pcount p else pcount p + 1)"
    by (subst ps_Set_def, subst db_ops_pair [OF assms(1)]) (simp add: Let_def content_def)
  then show ?thesis
    using assms(2) of_nat_card_insert [OF finite_content [OF assms(1)], of k p]
    by (auto simp: count_ok_def ps_Len_def content_Set [OF assms(1)] domIff)
qed

lemma count_Delete:
  assumes "pebble_ok api" "count_ok api p"
  shows "count_ok api (fst (ps_Delete api k p))"
proof (cases "content api p k")
  case None
  then show ?thesis using assms by (simp add: ps_Delete_def content_def)
next
  case (Some raw)
  then have "fst (ps_Delete api k p) = ps_purge api k p"
    by (subst ps_Delete_def, subst db_ops_pair [OF assms(1)]) (simp add: content_def ps_purge_def Let_def)
  then show ?thesis using count_purge [OF assms] Some by simp
qed

lemma count_reads:
  assumes "pebble_ok api" "count_ok api p"
  shows "count_ok api (fst (ps_Get api now k p))" "count_ok api (fst (ps_Exists api now k p))"
    "count_ok api (fst (ps_TTL api now k p))"
  using assms count_purge [OF assms, of k]
  by (auto simp: ps_Get_def ps_Get_finish_def ps_Exists_def ps_TTL_def Let_def content_def
      split: option.split prod.split)

lemma ps_collect_keys: "(k, v) \<in> set (ps_collect now xs) \<Longrightarrow> k \<in> fst ` set xs"
  by (induction now xs rule: ps_collect.induct) (auto simp: Let_def split: if_splits)

lemma length_ps_collect:
  assumes "gm_wf xs" shows "length (ps_collect now xs) = card (set (map fst (ps_collect now xs)))"
proof -
  have "distinct (map fst (ps_collect now xs))"
    using assms
    by (induction now xs rule: ps_collect.induct) (auto simp: Let_def dest: ps_collect_keys)
  then show ?thesis by (metis distinct_card length_map)
qed

lemma count_DeleteExpired:
  assumes ok: "pebble_ok api" and c: "count_ok api p"
  shows "count_ok api (fst (ps_DeleteExpired api now p))"
proof -
  obtain xs where xs: "db_iter api (db p) = Some xs" "gm_wf xs" "gm_get xs = content api p"
    using pebble_ok_iter [OF ok, of "db p"] by (auto simp: content_def)
  let ?E = "set (map fst (ps_collect now xs))"
  have sub: "?E \<subseteq> dom (content api p)"
    unfolding set_ps_collect gm_in_set [OF xs(2)] by (auto simp: xs(3))
  have "dom (content api (fst (ps_DeleteExpired api now p))) = dom (content api p) - ?E"
    using xs(1) by (auto simp: ps_DeleteExpired_def Let_def content_def pebble_okD [OF ok])
  then have "of_nat (card (dom (content api (fst (ps_DeleteExpired api now p))))) =
      (of_nat (card (dom (content api p))) - of_nat (card ?E) :: int64)"
    using sub finite_content [OF ok] by (simp add: card_Diff_subset finite_subset of_nat_diff card_mono)
  moreover have "pcount (fst (ps_DeleteExpired api now p)) = pcount p - of_nat (card ?E)"
    using xs(1) length_ps_collect [OF xs(2), of now] by (simp add: ps_DeleteExpired_def Let_def)
  ultimately show ?thesis using c by (simp add: count_ok_def ps_Len_def)
qed

lemma count_Incr:
  assumes ok: "pebble_ok api" and c: "count_ok api p"
    and live: "content api p k = None \<or> ps_look api t1 p k \<noteq> None"
  shows "count_ok api (fst (ps_Incr api mp t1 t2 t3 k n d p))"
  using live c count_Set [OF ok c]
  by (auto simp: ps_Incr_def incr_store_result [OF ok] ps_look_def raw_look_def content_def Let_def
      split: option.splits prod.splits sum.splits if_splits)

lemma count_New: "pebble_ok api \<Longrightarrow> NewPebbleStore api (Inr d) = Inr p \<Longrightarrow> count_ok api p"
proof -
  assume ok: "pebble_ok api" and "NewPebbleStore api (Inr d) = Inr p"
  then have p: "pcount p = ps_countKeys api d" "db p = d" by (auto simp: NewPebbleStore_def)
  obtain xs where xs: "db_iter api d = Some xs" "gm_wf xs" "gm_get xs = db_Get api d"
    by (rule pebble_ok_iter [OF ok])
  have fold: "foldl (\<lambda>n x. n + 1) (n :: int64) ys = n + of_nat (length ys)" for n and ys :: "(string \<times> bytes) list"
    by (induction ys arbitrary: n) simp_all
  have "card (dom (db_Get api d)) = length xs"
    using distinct_card [OF xs(2)] by (simp add: xs(3) [symmetric] dom_map_of_conv_image_fst)
  then show ?thesis using p xs(1) by (simp add: count_ok_def ps_Len_def ps_countKeys_def content_def fold)
qed

end
