(* ===== verification/Pebble_Props.thy ===== *)
theory Pebble_Props
  imports Pebble_Store
begin

text \<open>
  The properties of the disk store of \<open>src/store_pebble.go\<close>, over every engine that keeps
  \<open>pebble_ok\<close>; the witnesses run them on the concrete engine \<open>list_pebble\<close>.
\<close>

definition empty_disk :: "(string, bytes) gomap pebble_store" where
  "empty_disk = \<lparr>db = [], pcount = 0, ponEvict = False, ponExpire = True\<rparr>"

definition disk_ops :: "shard_op list" where
  "disk_ops =
     [OpSet 5 ''k'' [1] 0, OpSet 6 ''j'' [2] 50, OpGet 7 ''j'', OpTTL 7 7 ''j'', OpSet 8 ''k'' [3] 10,
      OpDelete ''j'', OpExists 9 9 ''k'', OpSweep 9]"

text \<open>
  What Set writes to disk Get reads back: the value and its expiry survive the encoding,
  for every value and every lifetime whose end UnixNano can represent, and no other key is
  touched.\<close>

lemma disk_Get_after_Set:
  assumes "pebble_ok api" "nano_clock t" "ps_fits now d"
  shows "snd (ps_Get api t k' (ps_Set api now k v d p)) =
    (if k' = k then (if pos64 d \<and> time_add now d < t then None else Some v)
     else snd (ps_Get api t k' p))"
proof (cases "k' = k")
  case True
  then show ?thesis using disk.get_after_put [OF assms(1,2), of now d k v p] assms(3) by simp
next
  case False
  then show ?thesis
    using disk_roomy.put_frame [OF assms(1) TrueI False, of t now v d p] disk.get_look [OF assms(1)]
    by simp
qed

text \<open>
  C16: The disk store never shows a stale or made-up value: after any run from an empty database,
  Incr and sweeps included, a value that Get answers is the one the last Set or successful Incr
  of the key wrote, and no Delete of the key came after it.\<close>

theorem disk_no_stale_value:
  assumes "pebble_ok api" "list_all op_ok ops" "db_Get api (db p) = Map.empty"
    and "snd (ps_Get api now k (fst (ps_run api mp ops (p, [])))) = Some v"
  shows "written_by mp (snd (ps_run api mp ops (p, []))) k = Some v"
proof -
  have "ps_look api now p = Map.empty" using assms(3) by (simp add: fun_eq_iff ps_look_def)
  then show ?thesis
    using disk.get_last_written [OF assms(1,2)] assms(4) by (simp add: ps_run_eq)
qed

theorem disk_no_stale_value_witness:
  "snd (ps_Get list_pebble 10 ''k'' (fst (ps_run list_pebble fixed_msgpack disk_ops (empty_disk, [])))) = Some [3] \<and>
   written_by fixed_msgpack (snd (ps_run list_pebble fixed_msgpack disk_ops (empty_disk, []))) ''k'' = Some [3]"
proof -
  have g: "snd (ps_Get list_pebble 10 ''k'' (fst (ps_run list_pebble fixed_msgpack disk_ops (empty_disk, [])))) = Some [3]"
    by code_simp
  moreover have "list_all op_ok disk_ops" by code_simp
  moreover have "db_Get list_pebble (db empty_disk) = Map.empty"
    by (simp add: list_pebble_def empty_disk_def)
  ultimately show ?thesis
    using disk_no_stale_value [OF pebble_ok_list] by blast
qed



text \<open>
  C30: Len is exact: opening a database counts its keys, and every operation keeps the counter
  equal to the number of stored keys, with the one exception of an Incr whose counter is stored
  but expired.\<close>

theorem disk_count_exact:
  assumes "pebble_ok api"
  shows "(\<forall>d p. NewPebbleStore api (Inr d) = Inr p \<longrightarrow> db p = d \<and> count_ok api p) \<and>
    (\<forall>op p. count_ok api p \<and>
       (\<forall>t1 t2 t3 k n d. op = OpIncr t1 t2 t3 k n d \<longrightarrow> content api p k = None \<or> ps_look api t1 p k \<noteq> None)
       \<longrightarrow> count_ok api (fst (ps_step api mp op p)))"
proof (intro conjI allI impI)
  fix d p assume "NewPebbleStore api (Inr d) = Inr p"
  then show "db p = d" "count_ok api p"
    using count_New [OF assms] by (auto simp: NewPebbleStore_def)
next
  fix op p
  assume a: "count_ok api p \<and> (\<forall>t1 t2 t3 k n d. op = OpIncr t1 t2 t3 k n d \<longrightarrow>
    content api p k = None \<or> ps_look api t1 p k \<noteq> None)"
  then have c: "count_ok api p" by blast
  show "count_ok api (fst (ps_step api mp op p))"
  proof (cases op)
    case (OpIncr t1 t2 t3 k n d)
    then show ?thesis using a count_Incr [OF assms c, of k t1 mp t2 t3 n d] by (simp add: Let_def)
  qed (simp_all add: Let_def count_reads count_Set count_Delete count_DeleteExpired assms c)
qed

theorem disk_count_exact_witness:
  "\<exists>p. NewPebbleStore list_pebble (Inr [(''a'', []), (''b'', [])]) = Inr p \<and>
    count_ok list_pebble p \<and> ps_Len p = 2 \<and>
    count_ok list_pebble (fst (ps_step list_pebble fixed_msgpack (OpDelete ''a'') p))"
proof -
  let ?p = "\<lparr>db = [(''a'', []), (''b'', [])], pcount = 2, ponEvict = False, ponExpire = False\<rparr>"
  have n: "NewPebbleStore list_pebble (Inr [(''a'', []), (''b'', [])]) = Inr ?p"
    by (simp add: NewPebbleStore_def ps_countKeys_def list_pebble_def AList.clearjunk.simps)
  then have "count_ok list_pebble ?p"
    using disk_count_exact [OF pebble_ok_list] by blast
  moreover from this have "count_ok list_pebble (fst (ps_step list_pebble fixed_msgpack (OpDelete ''a'') ?p))"
    using disk_count_exact [OF pebble_ok_list, of fixed_msgpack] by blast
  ultimately show ?thesis using n by (intro exI [of _ ?p]) (simp add: ps_Len_def)
qed

text \<open>
  Incr of a stored but expired counter makes Len wrong: it takes one off the counter
  expecting its own Set to add it back, but the key is still in the database, so nothing is
  added, and from then on Len is one less than the number of stored keys.\<close>

lemma disk_Incr_count_drift:
  assumes "pebble_ok api" "msgpack_int_ok mp" "count_ok api p"
    and "content api p k \<noteq> None" "ps_look api t1 p k = None"
    and "p' = fst (ps_Incr api mp t1 t2 t3 k n d p)"
  shows "dom (content api p') = dom (content api p) \<and>
    ps_Len p' = of_nat (card (dom (content api p'))) - 1"
proof -
  obtain raw where raw: "content api p k = Some raw" using assms(4) by blast
  obtain v e where ve: "ps_decode raw = (v, e)" by (cases "ps_decode raw")
  have exp: "ps_isExpired t1 e"
    using assms(5) raw ve by (simp add: ps_look_content raw_look_def split: if_splits)
  let ?q = "p\<lparr>pcount := pcount p - 1\<rparr>"
  have cq: "content api ?q = content api p" by (simp add: content_def)
  have p': "p' = ps_Set api t3 k (int64_bytes mp n) d ?q"
    using assms(6) raw ve exp
    by (simp add: ps_Incr_def content_def incr_store_result [OF assms(1)] msgpack_int_marshal [OF assms(2)])
  then have "content api p' = (content api p)(k \<mapsto> ps_encode t3 (int64_bytes mp n) d)"
    by (simp add: content_Set [OF assms(1)] cq)
  then have "dom (content api p') = dom (content api p)" using raw by auto
  moreover have "pcount p' = pcount p - 1"
    unfolding p' using raw by (subst ps_Set_def, subst db_ops_pair [OF assms(1)]) (simp add: Let_def content_def)
  ultimately show ?thesis using assms(3) by (simp add: count_ok_def ps_Len_def)
qed

text \<open>
  C36: Get takes no lock between reading a key and purging it, so a write can be lost: if one
  goroutine reads an expired entry, another one then stores a new value, and the first one
  finishes its Get, the new value is gone although it has not expired.\<close>

theorem disk_Get_race_loses_write:
  assumes "pebble_ok api" "db_Get api (db p) k = Some raw" "raw_look now raw = None"
    and "p' = fst (ps_Get_finish api now k raw (ps_Set api now' k v d p))"
  shows "snd (ps_Get_finish api now k raw (ps_Set api now' k v d p)) = None \<and>
    snd (ps_Get api t k p') = None"
proof -
  obtain b e where "ps_decode raw = (b, e)" by (cases "ps_decode raw")
  then have "ps_Get_finish api now k raw (ps_Set api now' k v d p) =
      (ps_purge api k (ps_Set api now' k v d p), None)"
    using assms(3) by (simp add: ps_Get_finish_def raw_look_def split: if_splits)
  moreover have "db_Get api (db (ps_purge api k q)) k = None" for q
    using content_purge [OF assms(1), of k q] by (simp add: content_def)
  ultimately show ?thesis using assms(4) by (simp add: ps_Get_def)
qed

theorem disk_Get_race_loses_write_witness:
  "snd (ps_Get list_pebble 21 ''k''
      (fst (ps_Get_finish list_pebble 20 ''k'' (ps_encode 4 [1] 10)
        (ps_Set list_pebble 20 ''k'' [2] 0 (ps_Set list_pebble 4 ''k'' [1] 10 empty_disk))))) = None \<and>
   snd (ps_Get list_pebble 21 ''k''
      (ps_Set list_pebble 20 ''k'' [2] 0 (ps_Set list_pebble 4 ''k'' [1] 10 empty_disk))) = Some [2]"
proof -
  let ?p = "ps_Set list_pebble 4 ''k'' [1] 10 empty_disk"
  have "db_Get list_pebble (db ?p) ''k'' = Some (ps_encode 4 [1] 10)" "raw_look 20 (ps_encode 4 [1] 10) = None"
    by code_simp+
  then have "snd (ps_Get list_pebble 21 ''k'' (fst (ps_Get_finish list_pebble 20 ''k'' (ps_encode 4 [1] 10)
      (ps_Set list_pebble 20 ''k'' [2] 0 ?p)))) = None"
    using disk_Get_race_loses_write [OF pebble_ok_list _ _ refl] by blast
  moreover have "snd (ps_Get list_pebble 21 ''k'' (ps_Set list_pebble 20 ''k'' [2] 0 ?p)) = Some [2]"
    by code_simp
  ultimately show ?thesis by blast
qed

end
