(* ===== verification/Go_Std.thy ===== *)
theory Go_Std
  imports Prelude
begin

text \<open>
  The parts of the Go standard library that several components use: decimal formatting of an
  integer (\<open>%d\<close>), \<open>sort.Search\<close> and the zero value a map answers for a missing key.
\<close>

section \<open>Definitions\<close>

text \<open>\<open>m[k]\<close> of a map: the zero value \<open>z\<close> when the key is missing.\<close>

definition gm_index :: "'v \<Rightarrow> ('k, 'v) gomap \<Rightarrow> 'k \<Rightarrow> 'v" where
  "gm_index z m k = (case gm_get m k of None \<Rightarrow> z | Some v \<Rightarrow> v)"

definition digit_char :: "nat \<Rightarrow> char" where
  "digit_char d = char_of (48 + d)"

fun itoa :: "nat \<Rightarrow> string" where
  "itoa n = (if n < 10 then [digit_char n] else itoa (n div 10) @ [digit_char (n mod 10)])"

declare itoa.simps [simp del]

text \<open>The loop of \<open>sort.Search\<close>: \<open>f\<close> is false below \<open>i\<close> and true from \<open>j\<close> on.\<close>

function search_loop :: "(nat \<Rightarrow> bool) \<Rightarrow> nat \<Rightarrow> nat \<Rightarrow> nat" where
  "search_loop f i j =
     (if i < j then
        let h = (i + j) div 2 in if \<not> f h then search_loop f (h + 1) j else search_loop f i h
      else i)"
  by pat_completeness auto
termination
  by (relation "measure (\<lambda>(f, i, j). j - i)") auto

declare search_loop.simps [simp del]

definition sort_Search :: "nat \<Rightarrow> (nat \<Rightarrow> bool) \<Rightarrow> nat" where
  "sort_Search n f = search_loop f 0 n"

section \<open>Lemmas\<close>

lemma gm_index_set [simp]: "gm_index z (gm_set k v m) k' = (if k' = k then v else gm_index z m k')"
  by (simp add: gm_index_def)

lemma gm_index_del [simp]: "gm_index z (gm_del k m) k' = (if k' = k then z else gm_index z m k')"
  by (simp add: gm_index_def)

lemma gm_index_Nil [simp]: "gm_index z [] k = z"
  by (simp add: gm_index_def)

text \<open>Decimal numerals determine their number.\<close>

lemma digit_char_inj: "a < 10 \<Longrightarrow> b < 10 \<Longrightarrow> digit_char a = digit_char b \<longleftrightarrow> a = b"
proof -
  assume ab: "a < 10" "b < 10"
  have "of_char (digit_char n) = 48 + n" if "n < 10" for n
    using that by (simp add: digit_char_def take_bit_eq_mod)
  then show ?thesis using ab by (metis add_left_cancel)
qed

lemma itoa_not_Nil [simp]: "itoa n \<noteq> []" "[] \<noteq> itoa n"
  by (subst itoa.simps, simp)+

lemma itoa_inj: "itoa a = itoa b \<longleftrightarrow> a = b"
proof
  show "itoa a = itoa b \<Longrightarrow> a = b"
  proof (induction a arbitrary: b rule: itoa.induct)
    case (1 a)
    show ?case
    proof (cases "a < 10")
      case True
      then show ?thesis
        using 1(2) by (subst (asm) (1 2) itoa.simps) (auto simp: digit_char_inj split: if_splits)
    next
      case False
      then have "itoa a = itoa (a div 10) @ [digit_char (a mod 10)]" by (subst itoa.simps) simp
      moreover have "\<not> b < 10"
      proof
        assume "b < 10"
        then have "itoa b = [digit_char b]" by (subst itoa.simps) simp
        with calculation 1(2) show False by simp
      qed
      moreover from this have "itoa b = itoa (b div 10) @ [digit_char (b mod 10)]"
        by (subst itoa.simps) simp
      ultimately have "itoa (a div 10) = itoa (b div 10)" "a mod 10 = b mod 10"
        using 1(2) by (simp_all add: digit_char_inj)
      then show ?thesis using 1(1) False by (metis mult_div_mod_eq)
    qed
  qed
qed simp

text \<open>\<open>sort.Search\<close> answers the least index at which a monotone predicate holds.\<close>

lemma search_loop_correct:
  assumes "i \<le> j" "\<And>a b. a \<le> b \<Longrightarrow> b < n \<Longrightarrow> f a \<Longrightarrow> f b" "j \<le> n"
    and "\<And>a. a < i \<Longrightarrow> \<not> f a" "\<And>a. j \<le> a \<Longrightarrow> a < n \<Longrightarrow> f a"
  shows "search_loop f i j \<le> j \<and> (\<forall>a < search_loop f i j. \<not> f a) \<and>
    (\<forall>a. search_loop f i j \<le> a \<longrightarrow> a < n \<longrightarrow> f a)"
  using assms
proof (induction f i j rule: search_loop.induct)
  case (1 f i j)
  show ?case
  proof (cases "i < j")
    case True
    define h where "h = (i + j) div 2"
    have h: "i \<le> h" "h < j" using True by (auto simp: h_def)
    show ?thesis
    proof (cases "f h")
      case fh: True
      have ih: "i \<le> h \<Longrightarrow> (\<And>a b. a \<le> b \<Longrightarrow> b < n \<Longrightarrow> f a \<Longrightarrow> f b) \<Longrightarrow> h \<le> n \<Longrightarrow> (\<And>a. a < i \<Longrightarrow> \<not> f a) \<Longrightarrow>
          (\<And>a. h \<le> a \<Longrightarrow> a < n \<Longrightarrow> f a) \<Longrightarrow> search_loop f i h \<le> h \<and> (\<forall>a < search_loop f i h. \<not> f a) \<and>
          (\<forall>a. search_loop f i h \<le> a \<longrightarrow> a < n \<longrightarrow> f a)"
        using 1(2) [OF True h_def] fh by blast
      have "search_loop f i h \<le> h \<and> (\<forall>a < search_loop f i h. \<not> f a) \<and>
          (\<forall>a. search_loop f i h \<le> a \<longrightarrow> a < n \<longrightarrow> f a)"
        by (rule ih) (use h fh 1(4-7) in \<open>auto\<close>)
      then show ?thesis using True fh h by (subst (1 2 3) search_loop.simps) (auto simp: Let_def h_def)
    next
      case fh: False
      have ih: "h + 1 \<le> j \<Longrightarrow> (\<And>a b. a \<le> b \<Longrightarrow> b < n \<Longrightarrow> f a \<Longrightarrow> f b) \<Longrightarrow> j \<le> n \<Longrightarrow>
          (\<And>a. a < h + 1 \<Longrightarrow> \<not> f a) \<Longrightarrow> (\<And>a. j \<le> a \<Longrightarrow> a < n \<Longrightarrow> f a) \<Longrightarrow>
          search_loop f (h + 1) j \<le> j \<and> (\<forall>a < search_loop f (h + 1) j. \<not> f a) \<and>
          (\<forall>a. search_loop f (h + 1) j \<le> a \<longrightarrow> a < n \<longrightarrow> f a)"
        using 1(1) [OF True h_def] fh by blast
      have "\<not> f a" if "a < h + 1" for a
        using that fh 1(4) [of a h] h 1(5) by auto
      then have "search_loop f (h + 1) j \<le> j \<and> (\<forall>a < search_loop f (h + 1) j. \<not> f a) \<and>
          (\<forall>a. search_loop f (h + 1) j \<le> a \<longrightarrow> a < n \<longrightarrow> f a)"
        by (intro ih) (use h 1(4-7) in \<open>auto\<close>)
      then show ?thesis using True fh by (subst (1 2 3) search_loop.simps) (auto simp: Let_def h_def)
    qed
  next
    case False
    then show ?thesis using 1(3,6,7) by (subst (1 2 3) search_loop.simps) auto
  qed
qed

lemma sort_Search_correct:
  assumes "\<And>a b. a \<le> b \<Longrightarrow> b < n \<Longrightarrow> f a \<Longrightarrow> f b"
  shows "sort_Search n f \<le> n" "a < sort_Search n f \<Longrightarrow> \<not> f a"
    "sort_Search n f \<le> a \<Longrightarrow> a < n \<Longrightarrow> f a"
  using search_loop_correct [of 0 n n f] assms by (auto simp: sort_Search_def)

end
