(* ===== verification/Hash_Ring.thy ===== *)
theory Hash_Ring
  imports Go_Std Fnv
begin

text \<open>
  \<open>src/internal/cluster/hashring.go\<close>: consistent hashing. A node is placed on the ring of 32-bit
  hashes at the hashes of \<open>name-0\<close> to \<open>name-(vnodes-1)\<close>; a key belongs to the node at the first
  place not below its hash, wrapping around.

  As long as no two virtual nodes collide, the ring is a function of the set of its members:
  \<open>ring_of r M\<close> relates a ring to that set, and \<open>successor\<close> is the specification of the lookup.
  A last section looks at collisions, which the code does not exclude.
\<close>

section \<open>Definitions\<close>

record ring =
  vnodes :: nat
  sortedHashes :: "uint32 list"
  hashMap :: "(uint32, string) gomap"
  members :: "(string, bool) gomap"

definition DefaultVirtualNodes :: nat where
  "DefaultVirtualNodes = 150"

definition NewRing :: "int \<Rightarrow> ring" where
  "NewRing n =
     (let v = (if n \<le> 0 then DefaultVirtualNodes else nat n)
      in \<lparr>vnodes = v, sortedHashes = [], hashMap = [], members = []\<rparr>)"

definition hashKey :: "string \<Rightarrow> uint32" where
  "hashKey key = fnv32a key"

text \<open>\<open>fmt.Sprintf("%s-%d", name, i)\<close>\<close>

definition vnode_name :: "string \<Rightarrow> nat \<Rightarrow> string" where
  "vnode_name name i = name @ ''-'' @ itoa i"

text \<open>The loop of \<open>AddNode\<close> from \<open>i\<close> on, with \<open>n\<close> rounds to go.\<close>

fun add_loop :: "string \<Rightarrow> nat \<Rightarrow> nat \<Rightarrow> uint32 list \<Rightarrow> (uint32, string) gomap \<Rightarrow>
    uint32 list \<times> (uint32, string) gomap" where
  "add_loop name i 0 hs hm = (hs, hm)"
| "add_loop name i (Suc n) hs hm =
     (let h = hashKey (vnode_name name i)
      in add_loop name (Suc i) n (hs @ [h]) (gm_set h name hm))"

definition AddNode :: "string \<Rightarrow> ring \<Rightarrow> ring" where
  "AddNode name r =
     (if gm_index False (members r) name then r
      else let (hs, hm) = add_loop name 0 (vnodes r) (sortedHashes r) (hashMap r)
           in r\<lparr>members := gm_set name True (members r), sortedHashes := sort hs, hashMap := hm\<rparr>)"

text \<open>The loop of \<open>RemoveNode\<close>: the map changes while the hashes are visited.\<close>

fun remove_loop :: "string \<Rightarrow> uint32 list \<Rightarrow> (uint32, string) gomap \<Rightarrow>
    uint32 list \<times> (uint32, string) gomap" where
  "remove_loop name [] hm = ([], hm)"
| "remove_loop name (h # hs) hm =
     (if gm_index '''' hm h \<noteq> name then
        (let (newHashes, hm') = remove_loop name hs hm in (h # newHashes, hm'))
      else remove_loop name hs (gm_del h hm))"

text \<open>
  \<open>RemoveNode\<close>. The new slice is made with capacity \<open>len(sortedHashes) - vnodes\<close>, which panics
  (None) when it is negative.
\<close>

definition RemoveNode :: "string \<Rightarrow> ring \<Rightarrow> ring option" where
  "RemoveNode name r =
     (if \<not> gm_index False (members r) name then Some r
      else if length (sortedHashes r) < vnodes r then None
      else let (newHashes, hm) = remove_loop name (sortedHashes r) (hashMap r)
           in Some (r\<lparr>members := gm_del name (members r), sortedHashes := newHashes, hashMap := hm\<rparr>))"

text \<open>The index where the walk for a key starts.\<close>

definition ring_search :: "ring \<Rightarrow> string \<Rightarrow> nat" where
  "ring_search r key =
     (let h = hashKey key;
          idx = sort_Search (length (sortedHashes r)) (\<lambda>i. h \<le> sortedHashes r ! i)
      in if length (sortedHashes r) \<le> idx then 0 else idx)"

definition GetNode :: "string \<Rightarrow> ring \<Rightarrow> string" where
  "GetNode key r =
     (if sortedHashes r = [] then ''''
      else gm_index '''' (hashMap r) (sortedHashes r ! ring_search r key))"

text \<open>The loop of \<open>GetNodes\<close> over the indices \<open>i\<close> that are left.\<close>

fun nodes_loop :: "ring \<Rightarrow> nat \<Rightarrow> int \<Rightarrow> nat list \<Rightarrow> (string, bool) gomap \<Rightarrow> string list \<Rightarrow> string list" where
  "nodes_loop r idx n [] seen result = result"
| "nodes_loop r idx n (i # rest) seen result =
     (if int (length result) < n then
        (let pos = (idx + i) mod length (sortedHashes r);
             name = gm_index '''' (hashMap r) (sortedHashes r ! pos)
         in if \<not> gm_index False seen name
            then nodes_loop r idx n rest (gm_set name True seen) (result @ [name])
            else nodes_loop r idx n rest seen result)
      else result)"

text \<open>\<open>GetNodes\<close>; making a slice with a negative capacity panics (None).\<close>

definition GetNodes :: "string \<Rightarrow> int \<Rightarrow> ring \<Rightarrow> string list option" where
  "GetNodes key n r =
     (if sortedHashes r = [] then Some []
      else let memberCount = int (length (members r));
               n' = (if n > memberCount then memberCount else n);
               idx = ring_search r key
           in if n' < 0 then None
              else Some (nodes_loop r idx n' [0..<length (sortedHashes r)] [] []))"

definition Members :: "ring \<Rightarrow> string list" where
  "Members r = map fst (members r)"

definition IsEmpty :: "ring \<Rightarrow> bool" where
  "IsEmpty r \<longleftrightarrow> length (members r) = 0"

definition HasNode :: "string \<Rightarrow> ring \<Rightarrow> bool" where
  "HasNode name r = gm_index False (members r) name"

section \<open>The specification\<close>

definition vhash :: "string \<Rightarrow> nat \<Rightarrow> uint32" where
  "vhash name i = hashKey (vnode_name name i)"

definition places :: "nat \<Rightarrow> string \<Rightarrow> uint32 set" where
  "places v name = vhash name ` {..<v}"

text \<open>The first place of a ring not below a hash, wrapping around.\<close>

definition successor :: "uint32 set \<Rightarrow> uint32 \<Rightarrow> uint32" where
  "successor S h = (if \<exists>s \<in> S. h \<le> s then Min {s \<in> S. h \<le> s} else Min S)"

text \<open>No two virtual nodes of a set of names collide.\<close>

definition clash_free :: "nat \<Rightarrow> string set \<Rightarrow> bool" where
  "clash_free v U \<longleftrightarrow> inj_on (\<lambda>(name, i). vhash name i) (U \<times> {..<v})"

definition ring_of :: "nat \<Rightarrow> string set \<Rightarrow> ring \<Rightarrow> bool" where
  "ring_of v M r \<longleftrightarrow>
     vnodes r = v \<and> 0 < v \<and> finite M \<and>
     gm_wf (members r) \<and> (\<forall>n. gm_get (members r) n = (if n \<in> M then Some True else None)) \<and>
     sorted (sortedHashes r) \<and> distinct (sortedHashes r) \<and>
     set (sortedHashes r) = (\<Union>n \<in> M. places v n) \<and>
     (\<forall>h n. gm_get (hashMap r) h = Some n \<longleftrightarrow> n \<in> M \<and> h \<in> places v n)"

text \<open>Membership changes, in order.\<close>

datatype ring_op = Join string | Leave string

fun ring_run :: "ring_op list \<Rightarrow> ring \<Rightarrow> ring option" where
  "ring_run [] r = Some r"
| "ring_run (Join n # ops) r = ring_run ops (AddNode n r)"
| "ring_run (Leave n # ops) r =
     (case RemoveNode n r of None \<Rightarrow> None | Some r' \<Rightarrow> ring_run ops r')"

fun run_members :: "ring_op list \<Rightarrow> string set \<Rightarrow> string set" where
  "run_members [] M = M"
| "run_members (Join n # ops) M = run_members ops (insert n M)"
| "run_members (Leave n # ops) M = run_members ops (M - {n})"

fun op_name :: "ring_op \<Rightarrow> string" where
  "op_name (Join n) = n"
| "op_name (Leave n) = n"

section \<open>Lemmas: joining and leaving\<close>

lemma add_loop_result:
  "fst (add_loop name i n hs hm) = hs @ map (vhash name) [i..<i + n]"
  "gm_get (snd (add_loop name i n hs hm)) h =
     (if h \<in> vhash name ` {i..<i + n} then Some name else gm_get hm h)"
proof (induction n arbitrary: i hs hm)
  case (Suc n)
  {
    case 1
    have "[i..<i + Suc n] = i # [Suc i..<Suc i + n]" by (simp add: upt_conv_Cons del: upt_Suc)
    then show ?case
      using Suc.IH(1) [of "Suc i"] by (simp add: Let_def vhash_def [symmetric] del: upt_Suc)
  next
    case 2
    have "{i..<i + Suc n} = insert i {Suc i..<Suc i + n}" by auto
    then show ?case using Suc.IH(2) [of "Suc i"] by (auto simp: Let_def vhash_def)
  }
qed simp_all

lemma clash_free_places:
  assumes "clash_free v U" "n \<in> U" "m \<in> U" "h \<in> places v n" "h \<in> places v m"
  shows "n = m"
  using assms unfolding clash_free_def places_def inj_on_def by fastforce

lemma clash_free_inj: "clash_free v U \<Longrightarrow> n \<in> U \<Longrightarrow> inj_on (vhash n) {..<v}"
  unfolding clash_free_def inj_on_def by fastforce

lemma ring_of_New: "ring_of (vnodes (NewRing n)) {} (NewRing n)"
  by (simp add: ring_of_def NewRing_def Let_def DefaultVirtualNodes_def)

lemma ring_of_Add:
  assumes cf: "clash_free v U" and U: "insert n M \<subseteq> U" and r: "ring_of v M r"
  shows "ring_of v (insert n M) (AddNode n r)"
proof (cases "n \<in> M")
  case True
  then show ?thesis using r by (simp add: AddNode_def gm_index_def ring_of_def insert_absorb)
next
  case False
  have v: "vnodes r = v" and S: "set (sortedHashes r) = (\<Union>n \<in> M. places v n)"
    and H: "\<And>h n. gm_get (hashMap r) h = Some n \<longleftrightarrow> n \<in> M \<and> h \<in> places v n"
    using r by (auto simp: ring_of_def)
  define a where "a = add_loop n 0 v (sortedHashes r) (hashMap r)"
  have hs: "fst a = sortedHashes r @ map (vhash n) [0..<v]"
    unfolding a_def using add_loop_result(1) [of n 0 v] by simp
  have hm: "gm_get (snd a) h = (if h \<in> places v n then Some n else gm_get (hashMap r) h)" for h
    unfolding a_def using add_loop_result(2) [of n 0 v] by (simp add: places_def atLeast0LessThan)
  have new: "AddNode n r = r\<lparr>members := gm_set n True (members r), sortedHashes := sort (fst a), hashMap := snd a\<rparr>"
    using False r v by (simp add: AddNode_def gm_index_def ring_of_def a_def split: prod.split)
  have disj: "h \<notin> places v m" if "h \<in> places v n" "m \<in> M" for h m
    using clash_free_places [OF cf, of n m h] that U False by auto
  have "distinct (fst a)"
    using r S disj clash_free_inj [OF cf, of n] U
    by (auto simp: hs ring_of_def distinct_map places_def atLeast0LessThan)
  moreover have "set (fst a) = (\<Union>n \<in> insert n M. places v n)"
    using S by (auto simp: hs places_def)
  moreover have "gm_get (snd a) h = Some m \<longleftrightarrow> m \<in> insert n M \<and> h \<in> places v m" for h m
    using H disj by (auto simp: hm)
  ultimately show ?thesis
    using r by (simp add: new ring_of_def)
qed

lemma remove_loop_result:
  assumes "distinct hs"
  shows "fst (remove_loop name hs hm) = filter (\<lambda>h. gm_index '''' hm h \<noteq> name) hs"
    "gm_get (snd (remove_loop name hs hm)) h =
       (if h \<in> set hs \<and> gm_index '''' hm h = name then None else gm_get hm h)"
  using assms
proof (induction hs arbitrary: hm)
  case (Cons x hs)
  {
    case 1
    then have "filter (\<lambda>h. gm_index '''' (gm_del x hm) h \<noteq> name) hs = filter (\<lambda>h. gm_index '''' hm h \<noteq> name) hs"
      by (intro filter_cong) auto
    with 1 show ?case using Cons.IH(1) [of hm] Cons.IH(1) [of "gm_del x hm"] by (auto split: prod.split)
  next
    case 2
    then show ?case
      using Cons.IH(2) [of hm] Cons.IH(2) [of "gm_del x hm"] by (auto split: prod.split)
  }
qed simp_all

lemma card_places: "clash_free v U \<Longrightarrow> n \<in> U \<Longrightarrow> card (places v n) = v"
  using clash_free_inj by (simp add: places_def card_image)

lemma ring_of_Remove:
  assumes cf: "clash_free v U" and U: "M \<subseteq> U" and r: "ring_of v M r"
  shows "\<exists>r'. RemoveNode n r = Some r' \<and> ring_of v (M - {n}) r'"
proof (cases "n \<in> M")
  case False
  then show ?thesis using r by (simp add: RemoveNode_def gm_index_def ring_of_def)
next
  case True
  have v: "vnodes r = v" and S: "set (sortedHashes r) = (\<Union>n \<in> M. places v n)" and d: "distinct (sortedHashes r)"
    and so: "sorted (sortedHashes r)"
    and H: "\<And>h n. gm_get (hashMap r) h = Some n \<longleftrightarrow> n \<in> M \<and> h \<in> places v n"
    using r by (auto simp: ring_of_def)
  define a where "a = remove_loop n (sortedHashes r) (hashMap r)"
  note res = remove_loop_result [OF d, of n "hashMap r", folded a_def]
  have idx: "gm_index '''' (hashMap r) h = n \<longleftrightarrow> h \<in> places v n" if h: "h \<in> set (sortedHashes r)" for h
  proof -
    obtain m where m: "m \<in> M" "h \<in> places v m" using h S by auto
    then have "gm_get (hashMap r) h = Some m" using H by blast
    then show ?thesis using m True U clash_free_places [OF cf, of m n h] by (auto simp: gm_index_def)
  qed
  have "card (places v n) \<le> card (set (sortedHashes r))"
    by (rule card_mono) (use True S in auto)
  then have len: "v \<le> length (sortedHashes r)"
    using card_places [OF cf, of n] True U distinct_card [OF d] by auto
  have "RemoveNode n r = Some (r\<lparr>members := gm_del n (members r), sortedHashes := fst a, hashMap := snd a\<rparr>)"
    using True r v len by (simp add: RemoveNode_def gm_index_def ring_of_def a_def split: prod.split)
  moreover have "set (fst a) = (\<Union>n \<in> M - {n}. places v n)"
  proof -
    have "set (fst a) = {h \<in> set (sortedHashes r). h \<notin> places v n}" using res(1) idx by auto
    moreover have "h \<notin> places v n \<longleftrightarrow> m \<noteq> n" if "m \<in> M" "h \<in> places v m" for m h
      using clash_free_places [OF cf, of m n h] that True U by auto
    ultimately have "set (fst a) = {h. \<exists>m \<in> M. m \<noteq> n \<and> h \<in> places v m}" using S by auto
    also have "\<dots> = (\<Union>n \<in> M - {n}. places v n)" by auto
    finally show ?thesis .
  qed
  moreover have "gm_get (snd a) h = Some m \<longleftrightarrow> m \<in> M - {n} \<and> h \<in> places v m" for h m
  proof (cases "h \<in> set (sortedHashes r) \<and> gm_index '''' (hashMap r) h = n")
    case h: True
    then have "h \<in> places v n" using idx by blast
    then show ?thesis using h res(2) True U clash_free_places [OF cf, of m n h] by auto
  next
    case h: False
    have "m \<noteq> n" if "m \<in> M" "h \<in> places v m" using h that idx S by auto
    then show ?thesis using h res(2) H by auto
  qed
  moreover have "sorted (fst a)" "distinct (fst a)" using so d res(1) by (simp_all add: sorted_wrt_filter)
  ultimately show ?thesis using r by (auto simp: ring_of_def)
qed

lemma ring_run_ring_of:
  assumes "clash_free v U" "M \<subseteq> U" "op_name ` set ops \<subseteq> U" "ring_of v M r"
  shows "\<exists>r'. ring_run ops r = Some r' \<and> ring_of v (run_members ops M) r'"
  using assms(2-)
proof (induction ops r arbitrary: M rule: ring_run.induct)
  case (2 n ops r)
  then show ?case using ring_of_Add [OF assms(1), of n M r] by simp
next
  case (3 n ops r)
  obtain r' where r': "RemoveNode n r = Some r'" "ring_of v (M - {n}) r'"
    using ring_of_Remove [OF assms(1) 3(2,4)] by blast
  then show ?case using 3(1) [OF r'(1), of "M - {n}"] 3(2,3) by auto
qed simp

lemma run_members_sub: "M \<subseteq> U \<Longrightarrow> op_name ` set ops \<subseteq> U \<Longrightarrow> run_members ops M \<subseteq> U"
  by (induction ops M rule: run_members.induct) auto

section \<open>Lemmas: lookup\<close>

lemma ring_search_successor:
  assumes so: "sorted (sortedHashes r)" and ne: "sortedHashes r \<noteq> []"
  shows "ring_search r key < length (sortedHashes r)"
    "sortedHashes r ! ring_search r key = successor (set (sortedHashes r)) (hashKey key)"
proof -
  let ?hs = "sortedHashes r" and ?h = "hashKey key"
  let ?f = "\<lambda>i. ?h \<le> ?hs ! i"
  define i where "i = sort_Search (length ?hs) ?f"
  have mono: "?f b" if "a \<le> b" "b < length ?hs" "?f a" for a b
    using that so order_trans [of ?h "?hs ! a" "?hs ! b"] by (auto simp: sorted_iff_nth_mono)
  have S: "i \<le> length ?hs" "a < i \<Longrightarrow> \<not> ?f a" "i \<le> a \<Longrightarrow> a < length ?hs \<Longrightarrow> ?f a" for a
    unfolding i_def using sort_Search_correct [of "length ?hs" ?f] mono by blast+
  have idx: "ring_search r key = (if length ?hs \<le> i then 0 else i)"
    by (simp add: ring_search_def Let_def i_def)
  show lt: "ring_search r key < length ?hs" using ne by (simp add: idx)
  show "?hs ! ring_search r key = successor (set ?hs) ?h"
  proof (cases "i < length ?hs")
    case True
    then have fi: "?h \<le> ?hs ! i" using S(3) [of i] by simp
    have "Min {s \<in> set ?hs. ?h \<le> s} = ?hs ! i"
    proof (rule Min_eqI)
      fix s assume "s \<in> {s \<in> set ?hs. ?h \<le> s}"
      then obtain j where j: "j < length ?hs" "s = ?hs ! j" "?f j" by (auto simp: in_set_conv_nth)
      then have "i \<le> j" using S(2) [of j] by (meson not_le)
      then show "?hs ! i \<le> s" using so j by (simp add: sorted_iff_nth_mono)
    qed (use True fi in auto)
    moreover have "\<exists>s \<in> set ?hs. ?h \<le> s" using True fi nth_mem by blast
    ultimately show ?thesis using True by (simp add: idx successor_def)
  next
    case False
    then have "\<not> ?h \<le> s" if "s \<in> set ?hs" for s
      using S(2) that by (metis in_set_conv_nth le_less_trans not_le order_less_le_trans)
    moreover have "Min (set ?hs) = ?hs ! 0"
    proof (rule Min_eqI)
      fix s assume "s \<in> set ?hs"
      then obtain j where "j < length ?hs" "s = ?hs ! j" by (auto simp: in_set_conv_nth)
      then show "?hs ! 0 \<le> s" using so by (simp add: sorted_iff_nth_mono)
    qed (use ne in auto)
    ultimately show ?thesis using False by (auto simp: idx successor_def)
  qed
qed

lemma successor_in: "finite S \<Longrightarrow> S \<noteq> {} \<Longrightarrow> successor S h \<in> S"
proof (cases "\<exists>s \<in> S. h \<le> s")
  case True
  moreover assume "finite S"
  ultimately have "Min {s \<in> S. h \<le> s} \<in> {s \<in> S. h \<le> s}" by (intro Min_in) auto
  with True show ?thesis by (simp add: successor_def)
qed (simp add: successor_def)

text \<open>Shrinking the ring does not move a key whose place stays.\<close>

lemma successor_subset:
  assumes "finite T" "S \<subseteq> T" "successor T h \<in> S"
  shows "successor S h = successor T h"
proof -
  have fin: "finite S" using assms finite_subset by blast
  show ?thesis
  proof (cases "\<exists>s \<in> T. h \<le> s")
    case True
    then have m: "successor T h = Min {s \<in> T. h \<le> s}" by (simp add: successor_def)
    have "Min {s \<in> T. h \<le> s} \<in> {s \<in> T. h \<le> s}" using True assms(1) by (intro Min_in) auto
    then have mem: "successor T h \<in> {s \<in> S. h \<le> s}" using m assms(3) by simp
    moreover have "Min {s \<in> S. h \<le> s} = successor T h"
    proof (rule Min_eqI)
      fix s assume "s \<in> {s \<in> S. h \<le> s}"
      then show "successor T h \<le> s" unfolding m using assms(1,2) by (intro Min_le) auto
    qed (use fin mem in auto)
    ultimately show ?thesis by (auto simp: successor_def)
  next
    case False
    then have m: "successor T h = Min T" by (simp add: successor_def)
    moreover have "Min S = Min T"
    proof (rule Min_eqI)
      fix s assume "s \<in> S"
      then show "Min T \<le> s" using assms(1,2) by (intro Min_le) auto
    qed (use fin assms(3) m in auto)
    ultimately show ?thesis using False assms(2) by (auto simp: successor_def)
  qed
qed

definition ring_places :: "nat \<Rightarrow> string set \<Rightarrow> uint32 set" where
  "ring_places v M = (\<Union>n \<in> M. places v n)"

lemma finite_ring_places: "finite M \<Longrightarrow> finite (ring_places v M)"
  by (auto simp: ring_places_def places_def)

lemma ring_of_empty: "ring_of v M r \<Longrightarrow> sortedHashes r = [] \<longleftrightarrow> M = {}"
proof -
  assume r: "ring_of v M r"
  then have "set (sortedHashes r) = {} \<longleftrightarrow> M = {}"
    by (auto simp: ring_of_def places_def lessThan_empty_iff)
  then show ?thesis by simp
qed

text \<open>The owner of a key is the member at the successor of its hash.\<close>

lemma ring_of_GetNode:
  assumes r: "ring_of v M r" and ne: "M \<noteq> {}"
  shows "GetNode key r \<in> M \<and> successor (ring_places v M) (hashKey key) \<in> places v (GetNode key r)"
proof -
  have hs: "sortedHashes r \<noteq> []" "sorted (sortedHashes r)" "set (sortedHashes r) = ring_places v M"
    using r ne ring_of_empty by (auto simp: ring_of_def ring_places_def)
  let ?s = "successor (ring_places v M) (hashKey key)"
  have "ring_places v M \<noteq> {}" using hs(1,3) by force
  then have "?s \<in> ring_places v M" using hs(3) by (metis successor_in finite_set)
  then obtain n where n: "n \<in> M" "?s \<in> places v n" by (auto simp: ring_places_def)
  then have "gm_get (hashMap r) ?s = Some n" using r by (simp add: ring_of_def)
  moreover have "GetNode key r = gm_index '''' (hashMap r) ?s"
    using ring_search_successor [OF hs(2,1), of key] hs by (simp add: GetNode_def)
  ultimately show ?thesis using n by (simp add: gm_index_def)
qed

lemma ring_of_GetNode_unique:
  assumes "clash_free v U" "M \<subseteq> U" "ring_of v M r" "n \<in> M"
    and "successor (ring_places v M) (hashKey key) \<in> places v n"
  shows "GetNode key r = n"
  using ring_of_GetNode [OF assms(3), of key] assms clash_free_places [OF assms(1), of n "GetNode key r"]
  by blast

lemma ring_shrink:
  assumes cf: "clash_free v U" "M \<subseteq> U" and r: "ring_of v M r" "ring_of v N r'" and sub: "N \<subseteq> M"
    and own: "GetNode key r \<in> N"
  shows "GetNode key r' = GetNode key r"
proof -
  have ne: "M \<noteq> {}" using own sub by auto
  note g = ring_of_GetNode [OF r(1) ne, of key]
  have fin: "finite M" using r(1) by (simp add: ring_of_def)
  have "successor (ring_places v M) (hashKey key) \<in> ring_places v N"
    using g own by (auto simp: ring_places_def)
  moreover have "ring_places v N \<subseteq> ring_places v M" using sub by (auto simp: ring_places_def)
  ultimately have "successor (ring_places v N) (hashKey key) = successor (ring_places v M) (hashKey key)"
    using successor_subset [OF finite_ring_places [OF fin]] by blast
  then show ?thesis using ring_of_GetNode_unique [OF cf(1) _ r(2) own] g sub cf(2) by auto
qed

section \<open>Lemmas: the replicas of a key\<close>

text \<open>The first occurrences in a list of what is not already in \<open>acc\<close>.\<close>

fun firsts :: "'a list \<Rightarrow> 'a list \<Rightarrow> 'a list" where
  "firsts acc [] = []"
| "firsts acc (x # xs) = (if x \<in> set acc then firsts acc xs else x # firsts (acc @ [x]) xs)"

lemma set_firsts: "set (firsts acc xs) = set xs - set acc"
  by (induction acc xs rule: firsts.induct) auto

lemma distinct_firsts: "distinct (firsts acc xs)"
  by (induction acc xs rule: firsts.induct) (auto simp: set_firsts)

definition walk_name :: "ring \<Rightarrow> nat \<Rightarrow> nat \<Rightarrow> string" where
  "walk_name r idx i = gm_index '''' (hashMap r) (sortedHashes r ! ((idx + i) mod length (sortedHashes r)))"

lemma nodes_loop_firsts:
  assumes "\<And>x. gm_index False seen x \<longleftrightarrow> x \<in> set acc"
  shows "nodes_loop r idx n is seen acc = acc @ take (nat (n - int (length acc))) (firsts acc (map (walk_name r idx) is))"
  using assms
proof (induction r idx n "is" seen acc rule: nodes_loop.induct)
  case (2 r idx n i rest seen acc)
  show ?case
  proof (cases "int (length acc) < n")
    case True
    note IH = 2(1,2) [OF True refl refl, folded walk_name_def]
    show ?thesis
    proof (cases "walk_name r idx i \<in> set acc")
      case False
      then have "nat (n - int (length acc)) = Suc (nat (n - int (length (acc @ [walk_name r idx i]))))"
        using True by simp
      then show ?thesis
        using True False IH(1) 2(3) by (simp add: Let_def flip: walk_name_def)
    qed (use True IH(2) 2(3) in \<open>simp add: Let_def flip: walk_name_def\<close>)
  qed simp
qed simp

lemma walk_rotate:
  "map (walk_name r idx) [0..<length (sortedHashes r)] =
     map (gm_index [] (hashMap r)) (rotate idx (sortedHashes r))"
  by (rule nth_equalityI) (simp_all add: walk_name_def nth_rotate)

lemma walk_all:
  assumes r: "ring_of v M r" and ne: "M \<noteq> {}"
  shows "set (map (walk_name r idx) [0..<length (sortedHashes r)]) = M"
proof -
  have "set (map (walk_name r idx) [0..<length (sortedHashes r)]) = gm_index [] (hashMap r) ` set (sortedHashes r)"
    by (simp only: walk_rotate set_map set_rotate)
  also have "\<dots> = M"
  proof -
    have g: "gm_index '''' (hashMap r) h = m" if "m \<in> M" "h \<in> places v m" for h m
    proof -
      have "gm_get (hashMap r) h = Some m" using r that by (simp add: ring_of_def)
      then show ?thesis by (simp add: gm_index_def)
    qed
    have ex: "\<exists>h. h \<in> places v m" for m using r by (auto simp: ring_of_def places_def)
    have S: "set (sortedHashes r) = (\<Union>n \<in> M. places v n)" using r by (simp add: ring_of_def)
    show ?thesis unfolding S using g ex by force
  qed
  finally show ?thesis .
qed

lemma ring_of_card: "ring_of v M r \<Longrightarrow> length (members r) = card M"
proof -
  assume r: "ring_of v M r"
  have "set (map fst (members r)) = M"
  proof (rule set_eqI)
    fix n
    have "gm_get (members r) n = (if n \<in> M then Some True else None)" using r by (simp add: ring_of_def)
    then show "n \<in> set (map fst (members r)) \<longleftrightarrow> n \<in> M"
      using gm_notin [of n "members r"] by (simp split: if_splits)
  qed
  then show ?thesis using r distinct_card [of "map fst (members r)"] by (simp add: ring_of_def)
qed

lemma ring_of_GetNodes:
  assumes r: "ring_of v M r" and ne: "M \<noteq> {}" and n: "0 \<le> n"
  shows "\<exists>ns. GetNodes key n r = Some ns \<and> distinct ns \<and> set ns \<subseteq> M \<and>
    length ns = min (nat n) (card M) \<and> (0 < n \<longrightarrow> hd ns = GetNode key r)"
proof -
  let ?N = "length (sortedHashes r)"
  have hs: "sortedHashes r \<noteq> []" "sorted (sortedHashes r)"
    using ring_of_empty [OF r] ne r by (auto simp: ring_of_def)
  define idx where "idx = ring_search r key"
  have lt: "idx < ?N" unfolding idx_def by (rule ring_search_successor [OF hs(2,1)])
  define F where "F = firsts [] (map (walk_name r idx) [0..<?N])"
  define n' where "n' = (if n > int (card M) then int (card M) else n)"
  have F: "distinct F" "set F = M"
    unfolding F_def
    using distinct_firsts set_firsts [of "[]" "map (walk_name r idx) [0..<?N]"] walk_all [OF r ne, of idx]
    by simp_all
  have Flen: "length F = card M" using distinct_card [OF F(1)] F(2) by simp
  have "nodes_loop r idx n' [0..<?N] [] [] = take (nat n') F"
    using nodes_loop_firsts [of "[]" "[]" r idx n' "[0..<?N]"] by (simp add: F_def)
  then have G: "GetNodes key n r = Some (take (nat n') F)"
    using hs(1) n by (simp add: GetNodes_def Let_def ring_of_card [OF r] n'_def idx_def)
  have "[0..<?N] = 0 # [1..<?N]" using hs(1) by (simp add: upt_conv_Cons)
  then have "hd F = walk_name r idx 0" by (simp add: F_def)
  moreover have "walk_name r idx 0 = GetNode key r" using lt hs(1) by (simp add: walk_name_def GetNode_def idx_def)
  ultimately have "0 < n \<Longrightarrow> hd (take (nat n') F) = GetNode key r"
    using ne r by (simp add: n'_def hd_take ring_of_def card_gt_0_iff)
  moreover have "length (take (nat n') F) = min (nat n) (card M)" using n by (simp add: Flen n'_def min_def)
  ultimately show ?thesis using G F by (auto dest: in_set_takeD)
qed

section \<open>Lemmas: rings with collisions\<close>

text \<open>What holds whether or not virtual nodes collide: enough hashes for every member.\<close>

definition cap_inv :: "nat \<Rightarrow> ring \<Rightarrow> bool" where
  "cap_inv v r \<longleftrightarrow>
     vnodes r = v \<and> gm_wf (members r) \<and> (\<forall>n b. gm_get (members r) n = Some b \<longrightarrow> b) \<and>
     v * length (members r) \<le> length (sortedHashes r) \<and>
     (\<forall>h n. gm_get (hashMap r) h = Some n \<longrightarrow> h \<in> places v n)"

definition owned :: "string \<Rightarrow> (uint32, string) gomap \<Rightarrow> uint32 set" where
  "owned name hm = {h. gm_get hm h = Some name}"

lemma finite_owned: "finite (owned name hm)"
  by (rule finite_subset [of _ "dom (gm_get hm)"]) (auto simp: owned_def finite_dom_map_of)

lemma remove_loop_bound:
  assumes "name \<noteq> []"
  shows "length hs \<le> length (fst (remove_loop name hs hm)) + card (owned name hm)"
  using assms
proof (induction name hs hm rule: remove_loop.induct)
  case (2 name h hs hm)
  show ?case
  proof (cases "gm_index [] hm h = name")
    case True
    then have h: "h \<in> owned name hm" using 2(3)
      by (auto simp: owned_def gm_index_def split: option.splits)
    have "owned name (gm_del h hm) = owned name hm - {h}" by (auto simp: owned_def)
    then have "Suc (card (owned name (gm_del h hm))) = card (owned name hm)"
      using h finite_owned by (metis card_Suc_Diff1)
    then show ?thesis using True 2 by simp
  qed (use 2 in \<open>auto split: prod.split\<close>)
qed simp

lemma remove_loop_sub:
  "gm_get (snd (remove_loop name hs hm)) h = Some n \<Longrightarrow> gm_get hm h = Some n"
  by (induction name hs hm rule: remove_loop.induct) (auto split: if_splits prod.splits)

lemma cap_inv_Add:
  assumes "cap_inv v r" shows "cap_inv v (AddNode name r)"
proof (cases "gm_index False (members r) name")
  case False
  then have new: "gm_get (members r) name = None"
    using assms by (auto simp: cap_inv_def gm_index_def split: option.splits)
  have hs: "length (fst (add_loop name 0 v (sortedHashes r) (hashMap r))) = length (sortedHashes r) + v"
    by (simp add: add_loop_result)
  have "gm_get (snd (add_loop name 0 v (sortedHashes r) (hashMap r))) h = Some n \<Longrightarrow> h \<in> places v n" for h n
    using assms by (auto simp: add_loop_result places_def cap_inv_def atLeast0LessThan split: if_splits)
  then show ?thesis
    using assms False new hs
    by (auto simp: AddNode_def cap_inv_def length_gm_set split: prod.split)
qed (use assms in \<open>simp add: AddNode_def\<close>)

lemma cap_inv_Remove:
  assumes inv: "cap_inv v r" and ne: "name \<noteq> []"
  shows "\<exists>r'. RemoveNode name r = Some r' \<and> cap_inv v r'"
proof (cases "gm_index False (members r) name")
  case True
  then obtain b where get: "gm_get (members r) name = Some b"
    by (auto simp: gm_index_def split: option.splits)
  have wf: "gm_wf (members r)" using inv by (simp add: cap_inv_def)
  have len: "Suc (length (gm_del name (members r))) = length (members r)"
    by (rule length_gm_del [OF wf get])
  then have cap: "v + v * length (gm_del name (members r)) \<le> length (sortedHashes r)"
    using inv by (metis cap_inv_def mult_Suc_right)
  have "card (owned name (hashMap r)) \<le> card (places v name)"
    using inv by (intro card_mono) (auto simp: owned_def cap_inv_def places_def)
  also have "\<dots> \<le> v" unfolding places_def using card_image_le [of "{..<v}" "vhash name"] by simp
  finally have "length (sortedHashes r) \<le> length (fst (remove_loop name (sortedHashes r) (hashMap r))) + v"
    using remove_loop_bound [OF ne, of "sortedHashes r" "hashMap r"] by linarith
  then show ?thesis
    using inv True cap remove_loop_sub [of name "sortedHashes r" "hashMap r"]
    by (auto simp: RemoveNode_def cap_inv_def split: prod.split if_splits)
qed (use inv in \<open>simp add: RemoveNode_def\<close>)

lemma ring_run_cap_inv:
  assumes "cap_inv v r" "[] \<notin> op_name ` set ops"
  shows "\<exists>r'. ring_run ops r = Some r' \<and> cap_inv v r'"
  using assms
proof (induction ops r rule: ring_run.induct)
  case (2 n ops r)
  have "\<exists>r'. ring_run ops (AddNode n r) = Some r' \<and> cap_inv v r'"
    by (rule 2(1) [OF cap_inv_Add [OF 2(2)]]) (use 2(3) in simp)
  then show ?case by simp
next
  case (3 n ops r)
  obtain r' where r': "RemoveNode n r = Some r'" "cap_inv v r'"
    using cap_inv_Remove [OF 3(2), of n] 3(3) by auto
  have "\<exists>q. ring_run ops r' = Some q \<and> cap_inv v q"
    by (rule 3(1) [OF r']) (use 3(3) in simp)
  then show ?case using r'(1) by simp
qed simp

lemma remove_loop_clears:
  assumes "\<And>h. h \<in> set hs \<Longrightarrow> gm_get hm h = Some name \<or> gm_get hm h = None"
    and "h \<in> set hs"
  shows "gm_get (snd (remove_loop name hs hm)) h = None"
  using assms
proof (induction name hs hm rule: remove_loop.induct)
  case (2 name x hs hm)
  show ?case
  proof (cases "gm_get hm h")
    case None
    then show ?thesis using remove_loop_sub [of name "x # hs" hm h] by (metis not_None_eq)
  next
    case (Some y)
    then have y: "y = name" using 2(3) [OF 2(4)] by simp
    show ?thesis
    proof (cases "h = x")
      case True
      then have i: "gm_index [] hm x = name" using Some y by (simp add: gm_index_def)
      have "gm_get (snd (remove_loop name hs (gm_del x hm))) x = None"
        using remove_loop_sub [of name hs "gm_del x hm" x] by (metis fun_upd_same gm_get_del not_None_eq)
      then show ?thesis using True i by simp
    next
      case False
      show ?thesis
      proof (cases "gm_index [] hm x = name")
        case True
        have "gm_get (snd (remove_loop name hs (gm_del x hm))) h = None"
          by (rule 2(2)) (use True 2(3,4) False in \<open>auto\<close>)
        then show ?thesis using True by simp
      next
        case ni: False
        have "gm_get (snd (remove_loop name hs hm)) h = None"
          by (rule 2(1)) (use ni 2(3,4) False in \<open>auto\<close>)
        then show ?thesis using ni by (cases "remove_loop name hs hm") simp
      qed
    qed
  qed
qed simp

end
