(* ===== verification/Ring_Props.thy ===== *)
theory Ring_Props
  imports Hash_Ring
begin

text \<open>
  The properties of the consistent hash ring: the owner of a key is the clockwise successor,
  membership changes move only the keys they must, replicas are distinct, the ring never
  panics, and what a hash collision of two node names does to it.
\<close>

lemma clash_free_list:
  assumes "distinct (map (\<lambda>(n, i). vhash n i) (List.product ns [0..<v]))"
  shows "clash_free v (set ns)"
  using assms by (simp add: distinct_map clash_free_def atLeast0LessThan)

lemma NewRing_vnodes_pos: "0 < vnodes (NewRing n)"
  by (simp add: NewRing_def Let_def DefaultVirtualNodes_def)

lemma AddNode_fresh:
  assumes "\<not> gm_index False (members r) name"
  shows "vnodes (AddNode name r) = vnodes r"
    "members (AddNode name r) = gm_set name True (members r)"
    "set (sortedHashes (AddNode name r)) = set (sortedHashes r) \<union> places (vnodes r) name"
    "length (sortedHashes (AddNode name r)) = length (sortedHashes r) + vnodes r"
    "gm_get (hashMap (AddNode name r)) h =
       (if h \<in> places (vnodes r) name then Some name else gm_get (hashMap r) h)"
  using assms add_loop_result [of name 0 "vnodes r" "sortedHashes r" "hashMap r"]
  by (simp_all add: AddNode_def places_def atLeast0LessThan case_prod_unfold)

definition demo_joins :: "ring_op list" where
  "demo_joins = [Join ''n1'', Join ''n2'', Join ''n3'', Leave ''n2'']"

text \<open>
  C9: After any sequence of joins and leaves the owner GetNode answers for a key is a current
  member, the one whose virtual node is the first at or after the hash of the key, wrapping
  around (sort.Search over the sorted hashes finds it), provided no two virtual nodes collide;
  on a ring without members GetNode answers the empty name.\<close>

theorem ring_GetNode_clockwise:
  assumes "v = vnodes (NewRing n)" "clash_free v U" "op_name ` set ops \<subseteq> U"
    and "M = run_members ops {}"
  shows "\<exists>r. ring_run ops (NewRing n) = Some r \<and>
    (if M = {} then GetNode key r = ''''
     else GetNode key r \<in> M \<and> successor (\<Union>m \<in> M. places v m) (hashKey key) \<in> places v (GetNode key r))"
proof -
  obtain r where r: "ring_run ops (NewRing n) = Some r" "ring_of v M r"
    using ring_run_ring_of [OF assms(2) _ assms(3), of "{}" "NewRing n"] ring_of_New assms(1,4) by auto
  then show ?thesis
    using ring_of_empty [OF r(2)] ring_of_GetNode [OF r(2), of key]
    by (auto simp: GetNode_def ring_places_def)
qed

theorem ring_GetNode_clockwise_witness:
  "\<exists>r. ring_run demo_joins (NewRing 4) = Some r \<and> GetNode ''user:1'' r \<in> {''n1'', ''n3''}"
proof -
  have "distinct (map (\<lambda>(n, i). vhash n i) (List.product [''n1'', ''n2'', ''n3''] [0..<4]))"
    by code_simp
  then have cf: "clash_free 4 (set [''n1'', ''n2'', ''n3''])" by (rule clash_free_list)
  have M: "run_members demo_joins {} = {''n1'', ''n3''}" by (auto simp: demo_joins_def)
  show ?thesis
    using ring_GetNode_clockwise [of 4 4 "set [''n1'', ''n2'', ''n3'']" demo_joins _ "''user:1''", OF _ cf _ refl]
    by (auto simp: M NewRing_def demo_joins_def split: if_splits)
qed

text \<open>
  C10: Consistent hashing disturbs only the keys it must: when a node joins, every key stays with
  its owner or moves to the new node, and when a node leaves, every key of the other nodes stays
  where it was.\<close>

theorem ring_minimal_disruption:
  assumes "clash_free v U" "insert n M \<subseteq> U" "ring_of v M r"
  shows "(GetNode key (AddNode n r) = n \<or> GetNode key (AddNode n r) = GetNode key r) \<and>
    (\<exists>r'. RemoveNode n r = Some r' \<and> (GetNode key r \<noteq> n \<longrightarrow> GetNode key r' = GetNode key r))"
proof (intro conjI)
  have U: "M \<subseteq> U" using assms(2) by blast
  have a: "ring_of v (insert n M) (AddNode n r)" by (rule ring_of_Add [OF assms])
  have "GetNode key (AddNode n r) \<in> insert n M" using ring_of_GetNode [OF a] by simp
  then show "GetNode key (AddNode n r) = n \<or> GetNode key (AddNode n r) = GetNode key r"
    using ring_shrink [OF assms(1,2) a assms(3) subset_insertI, of key] by auto
  obtain r' where r': "RemoveNode n r = Some r'" "ring_of v (M - {n}) r'"
    using ring_of_Remove [OF assms(1) U assms(3)] by blast
  have "GetNode key r' = GetNode key r" if "GetNode key r \<noteq> n"
  proof (cases "M = {}")
    case True
    then show ?thesis using ring_of_empty [OF assms(3)] ring_of_empty [OF r'(2)] by (simp add: GetNode_def)
  next
    case False
    then show ?thesis
      using ring_of_GetNode [OF assms(3), of key] that ring_shrink [OF assms(1) U assms(3) r'(2), of key] by auto
  qed
  then show "\<exists>r'. RemoveNode n r = Some r' \<and> (GetNode key r \<noteq> n \<longrightarrow> GetNode key r' = GetNode key r)"
    using r'(1) by blast
qed

theorem ring_minimal_disruption_witness:
  "GetNode ''user:7'' (AddNode ''n3'' (AddNode ''n2'' (AddNode ''n1'' (NewRing 4)))) \<in>
     {''n3'', GetNode ''user:7'' (AddNode ''n2'' (AddNode ''n1'' (NewRing 4)))}"
proof -
  have "distinct (map (\<lambda>(n, i). vhash n i) (List.product [''n1'', ''n2'', ''n3''] [0..<4]))"
    by code_simp
  then have cf: "clash_free 4 (set [''n1'', ''n2'', ''n3''])" by (rule clash_free_list)
  have "vnodes (NewRing 4) = 4" by (simp add: NewRing_def)
  then have "ring_of 4 {''n2'', ''n1''} (AddNode ''n2'' (AddNode ''n1'' (NewRing 4)))"
    using ring_of_New [of 4] by (intro ring_of_Add [OF cf]) auto
  then show ?thesis
    using ring_minimal_disruption [OF cf, of "''n3''" "{''n2'', ''n1''}"] by auto
qed

text \<open>
  C29: GetNodes answers distinct current members, as many as asked for or as there are,
  and starts with the owner of the key.\<close>

theorem ring_GetNodes_replicas:
  assumes "v = vnodes (NewRing n)" "clash_free v U" "op_name ` set ops \<subseteq> U"
    and "M = run_members ops {}" "M \<noteq> {}" "0 < c"
  shows "\<exists>r ns. ring_run ops (NewRing n) = Some r \<and> GetNodes key c r = Some ns \<and> distinct ns \<and>
    set ns \<subseteq> M \<and> length ns = min (nat c) (card M) \<and> hd ns = GetNode key r"
proof -
  obtain r where r: "ring_run ops (NewRing n) = Some r" "ring_of v M r"
    using ring_run_ring_of [OF assms(2) _ assms(3), of "{}" "NewRing n"] ring_of_New assms(1,4) by auto
  then show ?thesis using ring_of_GetNodes [OF r(2) assms(5), of c key] assms(6) by auto
qed

theorem ring_GetNodes_replicas_witness:
  "\<exists>r ns. ring_run demo_joins (NewRing 4) = Some r \<and> GetNodes ''user:1'' 5 r = Some ns \<and>
    distinct ns \<and> length ns = 2"
proof -
  have "distinct (map (\<lambda>(n, i). vhash n i) (List.product [''n1'', ''n2'', ''n3''] [0..<4]))"
    by code_simp
  then have cf: "clash_free 4 (set [''n1'', ''n2'', ''n3''])" by (rule clash_free_list)
  have M: "run_members demo_joins {} = {''n1'', ''n3''}" by (auto simp: demo_joins_def)
  show ?thesis
    using ring_GetNodes_replicas [of 4 4 "set [''n1'', ''n2'', ''n3'']" demo_joins _ 5 "''user:1''", OF _ cf _ refl]
    by (auto simp: M NewRing_def demo_joins_def)
qed

text \<open>
  The ring never panics: whatever non-empty names join and leave, colliding or not, the
  capacity that RemoveNode computes for its new slice is never negative, because a removal takes
  out at most one hash per virtual node of the node that leaves.\<close>

lemma ring_run_never_panics:
  assumes "[] \<notin> op_name ` set ops"
  shows "\<exists>r. ring_run ops (NewRing n) = Some r \<and>
    vnodes r * length (members r) \<le> length (sortedHashes r)"
proof -
  have "cap_inv (vnodes (NewRing n)) (NewRing n)" by (simp add: cap_inv_def NewRing_def Let_def)
  then show ?thesis using ring_run_cap_inv [OF _ assms] by (fastforce simp: cap_inv_def)
qed

text \<open>
  C39: Two nodes whose names have the same FNV-1a hash collide at every virtual node, and when
  the second one leaves the first is stranded: it is still a member, but GetNode answers the
  empty name for every key, because RemoveNode deletes the shared map entries.\<close>

theorem ring_collision_strands_member:
  assumes "hashKey a = hashKey b" "a \<noteq> b"
  shows "\<exists>r. RemoveNode b (AddNode b (AddNode a (NewRing n))) = Some r \<and>
    HasNode a r \<and> \<not> HasNode b r \<and> (\<forall>key. GetNode key r = '''')"
proof -
  define v where "v = vnodes (NewRing n)"
  have same: "vhash b i = vhash a i" for i
    using assms(1) by (simp add: vhash_def vnode_name_def hashKey_def fnv32a_append)
  define r1 where "r1 = AddNode b (AddNode a (NewRing n))"
  have pl: "places v b = places v a" by (simp add: places_def same)
  have new: "members (NewRing n) = []" "sortedHashes (NewRing n) = []" "hashMap (NewRing n) = []"
    by (simp_all add: NewRing_def Let_def)
  have f1: "\<not> gm_index False (members (NewRing n)) a" by (simp add: new)
  note add1 = AddNode_fresh [OF f1]
  have f2: "\<not> gm_index False (members (AddNode a (NewRing n))) b" using assms(2) by (simp add: add1 new gm_index_def)
  note add = add1 AddNode_fresh [OF f2]
  have hs: "set (sortedHashes r1) = places v a" and v: "vnodes r1 = v"
    and len: "v \<le> length (sortedHashes r1)"
    and mem: "\<And>m. gm_index False (members r1) m \<longleftrightarrow> m = a \<or> m = b"
    using assms(2) by (auto simp: r1_def add new pl gm_index_def v_def [symmetric])
  have hm: "gm_get (hashMap r1) h = (if h \<in> places v a then Some b else None)" for h
    using assms(2) by (simp add: r1_def add new pl v_def [symmetric])
  obtain hs' hm' where l: "remove_loop b (sortedHashes r1) (hashMap r1) = (hs', hm')"
    by (cases "remove_loop b (sortedHashes r1) (hashMap r1)")
  have "gm_get hm' h = None" for h
  proof (cases "h \<in> set (sortedHashes r1)")
    case True
    then show ?thesis
      using remove_loop_clears [of "sortedHashes r1" "hashMap r1" b h] hm l by (auto split: if_splits)
  next
    case False
    then show ?thesis using remove_loop_sub [of b "sortedHashes r1" "hashMap r1" h] hm hs l by fastforce
  qed
  then show ?thesis
    using l len v mem assms(2)
    by (auto simp: RemoveNode_def r1_def [symmetric] HasNode_def GetNode_def gm_index_def [of "[]"])
qed

theorem ring_collision_strands_member_witness:
  "\<exists>r. RemoveNode ''liquid'' (AddNode ''liquid'' (AddNode ''costarring'' (NewRing 150))) = Some r \<and>
    HasNode ''costarring'' r \<and> GetNode ''user:1'' r = ''''"
proof -
  have "hashKey ''costarring'' = hashKey ''liquid''" by code_simp
  then show ?thesis
    using ring_collision_strands_member [of "''costarring''" "''liquid''" 150] by auto
qed

end
