(* ===== verification/Lock_Engine.thy ===== *)
theory Lock_Engine
  imports Go_Std
begin

text \<open>
  \<open>src/internal/lock/lock.go\<close>: the lock engine of a node. Every operation runs under the mutex
  of the engine; a clock reading is an argument, and so are the 16 random bytes of a token. The
  second half of the theory is a transition system of one engine and its clients: a state holds
  the time, the engine and the grants handed out so far with the deadline each client knows, and
  its steps are the operations of the engine with the clock moving forward. The invariant
  \<open>lock_inv\<close> ties every grant that is still in force to the entry of its key.
\<close>

section \<open>Definitions\<close>

record lock_entry =
  lKey :: string
  lToken :: string
  lFencing :: uint64
  lExpiresAt :: instant
  lOwner :: string

definition lock_IsExpired :: "instant \<Rightarrow> lock_entry \<Rightarrow> bool" where
  "lock_IsExpired now e \<longleftrightarrow> now > lExpiresAt e"

record engine =
  locks :: "(string, lock_entry) gomap"
  fencingSeq :: uint64

definition NewEngine :: engine where
  "NewEngine = \<lparr>locks = [], fencingSeq = 0\<rparr>"

definition hex_digit :: "nat \<Rightarrow> char" where
  "hex_digit d = ''0123456789abcdef'' ! d"

text \<open>\<open>hex.EncodeToString\<close>\<close>

fun hex_encode :: "bytes \<Rightarrow> string" where
  "hex_encode [] = []"
| "hex_encode (b # bs) = hex_digit (unat b div 16) # hex_digit (unat b mod 16) # hex_encode bs"

definition generateToken :: "bytes \<Rightarrow> string" where
  "generateToken random = hex_encode random"

definition Acquire ::
    "instant \<Rightarrow> instant \<Rightarrow> bytes \<Rightarrow> string \<Rightarrow> duration \<Rightarrow> string \<Rightarrow> engine \<Rightarrow>
     engine \<times> (string \<times> uint64) option" where
  "Acquire t1 t2 random key ttl owner e =
     (if (case gm_get (locks e) key of None \<Rightarrow> False | Some existing \<Rightarrow> \<not> lock_IsExpired t1 existing)
      then (e, None)
      else let token = generateToken random; fencing = fencingSeq e + 1
           in (e\<lparr>fencingSeq := fencing,
                 locks := gm_set key
                   \<lparr>lKey = key, lToken = token, lFencing = fencing,
                    lExpiresAt = time_add t2 ttl, lOwner = owner\<rparr> (locks e)\<rparr>,
               Some (token, fencing)))"

definition Release :: "string \<Rightarrow> string \<Rightarrow> engine \<Rightarrow> engine \<times> bool" where
  "Release key token e =
     (case gm_get (locks e) key of
        None \<Rightarrow> (e, False)
      | Some entry \<Rightarrow>
          if lToken entry \<noteq> token then (e, False)
          else (e\<lparr>locks := gm_del key (locks e)\<rparr>, True))"

definition Extend ::
    "instant \<Rightarrow> instant \<Rightarrow> string \<Rightarrow> string \<Rightarrow> duration \<Rightarrow> engine \<Rightarrow> engine \<times> bool" where
  "Extend t1 t2 key token ttl e =
     (case gm_get (locks e) key of
        None \<Rightarrow> (e, False)
      | Some entry \<Rightarrow>
          if lock_IsExpired t1 entry then (e, False)
          else if lToken entry \<noteq> token then (e, False)
          else (e\<lparr>locks := gm_set key (entry\<lparr>lExpiresAt := time_add t2 ttl\<rparr>) (locks e)\<rparr>, True))"

definition IsHeld :: "instant \<Rightarrow> string \<Rightarrow> engine \<Rightarrow> bool" where
  "IsHeld now key e =
     (case gm_get (locks e) key of None \<Rightarrow> False | Some entry \<Rightarrow> \<not> lock_IsExpired now entry)"

text \<open>The range over the map, with one clock reading per entry.\<close>

fun active_loop :: "(nat \<Rightarrow> instant) \<Rightarrow> nat \<Rightarrow> (string, lock_entry) gomap \<Rightarrow> lock_entry list" where
  "active_loop clk i [] = []"
| "active_loop clk i ((key, entry) # rest) =
     (if \<not> lock_IsExpired (clk i) entry then entry # active_loop clk (Suc i) rest
      else active_loop clk (Suc i) rest)"

definition ActiveLocks :: "(nat \<Rightarrow> instant) \<Rightarrow> engine \<Rightarrow> lock_entry list" where
  "ActiveLocks clk e = active_loop clk 0 (locks e)"

text \<open>One tick of \<open>startCleanup\<close>: the loop deletes from the map it ranges over.\<close>

fun cleanup_loop :: "(nat \<Rightarrow> instant) \<Rightarrow> nat \<Rightarrow> (string \<times> lock_entry) list \<Rightarrow> engine \<Rightarrow> engine" where
  "cleanup_loop clk i [] e = e"
| "cleanup_loop clk i ((key, entry) # rest) e =
     cleanup_loop clk (Suc i) rest
       (if lock_IsExpired (clk i) entry then e\<lparr>locks := gm_del key (locks e)\<rparr> else e)"

definition cleanup_tick :: "(nat \<Rightarrow> instant) \<Rightarrow> engine \<Rightarrow> engine" where
  "cleanup_tick clk e = cleanup_loop clk 0 (locks e) e"

section \<open>The transition system\<close>

record grant =
  gKey :: string
  gToken :: string
  gFencing :: uint64
  gDeadline :: instant
  gReleased :: bool

record lock_state =
  lnow :: instant
  eng :: engine
  grants :: "grant list"

definition lock_init :: "instant \<Rightarrow> lock_state" where
  "lock_init t = \<lparr>lnow = t, eng = NewEngine, grants = []\<rparr>"

text \<open>A client may use its grant until the deadline it was told, unless it released it.\<close>

definition holds_at :: "instant \<Rightarrow> grant \<Rightarrow> bool" where
  "holds_at t g \<longleftrightarrow> \<not> gReleased g \<and> t \<le> gDeadline g"

definition mark_released :: "string \<Rightarrow> string \<Rightarrow> grant \<Rightarrow> grant" where
  "mark_released key token g = (if gKey g = key \<and> gToken g = token then g\<lparr>gReleased := True\<rparr> else g)"

definition mark_extended :: "string \<Rightarrow> string \<Rightarrow> instant \<Rightarrow> grant \<Rightarrow> grant" where
  "mark_extended key token t g = (if gKey g = key \<and> gToken g = token then g\<lparr>gDeadline := t\<rparr> else g)"

text \<open>
  The steps. The 16 random bytes of a token are assumed never to repeat. Anybody may call
  \<open>Release\<close> and \<open>Extend\<close> with any token.
\<close>

inductive lock_step :: "lock_state \<Rightarrow> lock_state \<Rightarrow> bool" where
  acquired:
    "lnow s \<le> t1 \<Longrightarrow> t1 \<le> t2 \<Longrightarrow> Acquire t1 t2 random key ttl owner (eng s) = (e', Some (token, fencing)) \<Longrightarrow>
     token \<notin> gToken ` set (grants s) \<Longrightarrow>
     lock_step s \<lparr>lnow = t2, eng = e',
       grants = grants s @ [\<lparr>gKey = key, gToken = token, gFencing = fencing,
                             gDeadline = time_add t2 ttl, gReleased = False\<rparr>]\<rparr>"
| refused:
    "lnow s \<le> t1 \<Longrightarrow> Acquire t1 t2 random key ttl owner (eng s) = (e', None) \<Longrightarrow>
     lock_step s (s\<lparr>lnow := t1, eng := e'\<rparr>)"
| released:
    "Release key token (eng s) = (e', True) \<Longrightarrow>
     lock_step s (s\<lparr>eng := e', grants := map (mark_released key token) (grants s)\<rparr>)"
| release_refused:
    "Release key token (eng s) = (e', False) \<Longrightarrow> lock_step s (s\<lparr>eng := e'\<rparr>)"
| extended:
    "lnow s \<le> t1 \<Longrightarrow> t1 \<le> t2 \<Longrightarrow> Extend t1 t2 key token ttl (eng s) = (e', True) \<Longrightarrow>
     lock_step s (s\<lparr>lnow := t2, eng := e', grants := map (mark_extended key token (time_add t2 ttl)) (grants s)\<rparr>)"
| extend_refused:
    "lnow s \<le> t1 \<Longrightarrow> Extend t1 t2 key token ttl (eng s) = (e', False) \<Longrightarrow>
     lock_step s (s\<lparr>lnow := t1, eng := e'\<rparr>)"
| cleanup:
    "(\<And>i. lnow s \<le> clk i \<and> clk i \<le> t) \<Longrightarrow> lock_step s (s\<lparr>lnow := t, eng := cleanup_tick clk (eng s)\<rparr>)"
| wait:
    "lnow s \<le> t \<Longrightarrow> lock_step s (s\<lparr>lnow := t\<rparr>)"

inductive_cases lock_stepE: "lock_step s s'"

inductive lock_reachable :: "lock_state \<Rightarrow> bool" where
  init: "lock_reachable (lock_init t)"
| step: "lock_reachable s \<Longrightarrow> lock_step s s' \<Longrightarrow> lock_reachable s'"

text \<open>
  The invariant: a grant still in force has an entry with its token, an entry with the token of a
  grant belongs to it, tokens are distinct, and the fencing tokens count the grants.
\<close>

definition lock_inv :: "lock_state \<Rightarrow> bool" where
  "lock_inv s \<longleftrightarrow>
     gm_wf (locks (eng s)) \<and> distinct (map gToken (grants s)) \<and>
     (\<forall>g \<in> set (grants s). holds_at (lnow s) g \<longrightarrow>
        (\<exists>en. gm_get (locks (eng s)) (gKey g) = Some en \<and> lToken en = gToken g)) \<and>
     (\<forall>g \<in> set (grants s). \<forall>en. gm_get (locks (eng s)) (gKey g) = Some en \<and> lToken en = gToken g \<longrightarrow>
        \<not> gReleased g \<and> lFencing en = gFencing g \<and> lExpiresAt en = gDeadline g) \<and>
     fencingSeq (eng s) = of_nat (length (grants s)) \<and>
     (\<forall>i < length (grants s). gFencing (grants s ! i) = of_nat (Suc i))"

section \<open>Lemmas: the invariant\<close>

lemma lock_invI:
  assumes "gm_wf (locks (eng s))" "distinct (map gToken (grants s))"
    and "\<And>g. g \<in> set (grants s) \<Longrightarrow> holds_at (lnow s) g \<Longrightarrow>
      \<exists>en. gm_get (locks (eng s)) (gKey g) = Some en \<and> lToken en = gToken g"
    and "\<And>g en. g \<in> set (grants s) \<Longrightarrow> gm_get (locks (eng s)) (gKey g) = Some en \<Longrightarrow> lToken en = gToken g \<Longrightarrow>
      \<not> gReleased g \<and> lFencing en = gFencing g \<and> lExpiresAt en = gDeadline g"
    and "fencingSeq (eng s) = of_nat (length (grants s))"
    and "\<And>i. i < length (grants s) \<Longrightarrow> gFencing (grants s ! i) = of_nat (Suc i)"
  shows "lock_inv s"
  using assms by (simp add: lock_inv_def)

lemma lock_invD:
  assumes "lock_inv s"
  shows "gm_wf (locks (eng s))" "distinct (map gToken (grants s))"
    "fencingSeq (eng s) = of_nat (length (grants s))"
    "i < length (grants s) \<Longrightarrow> gFencing (grants s ! i) = of_nat (Suc i)"
  using assms by (auto simp: lock_inv_def)

lemma lock_inv_entry:
  assumes "lock_inv s" "g \<in> set (grants s)" "holds_at (lnow s) g"
  obtains en where "gm_get (locks (eng s)) (gKey g) = Some en" "lToken en = gToken g"
    "lFencing en = gFencing g" "lExpiresAt en = gDeadline g"
  using assms unfolding lock_inv_def by blast

lemma lock_inv_own:
  assumes "lock_inv s" "g \<in> set (grants s)" "gm_get (locks (eng s)) (gKey g) = Some en" "lToken en = gToken g"
  shows "\<not> gReleased g" "lFencing en = gFencing g" "lExpiresAt en = gDeadline g"
  using assms unfolding lock_inv_def by blast+

lemma holds_at_mono: "holds_at t' g \<Longrightarrow> t \<le> t' \<Longrightarrow> holds_at t g"
  by (auto simp: holds_at_def)

lemma lock_inv_init: "lock_inv (lock_init t)"
  by (simp add: lock_inv_def lock_init_def NewEngine_def)

text \<open>Waiting keeps the invariant, so the steps below only have to look at the engine.\<close>

lemma lock_inv_wait: "lock_inv s \<Longrightarrow> lnow s \<le> t \<Longrightarrow> lock_inv (s\<lparr>lnow := t\<rparr>)"
  using holds_at_mono by (fastforce simp: lock_inv_def)

lemma Acquire_cases:
  assumes "Acquire t1 t2 random key ttl owner e = (e', res)"
  shows "(res = None \<and> e' = e \<and> IsHeld t1 key e) \<or>
    (\<not> IsHeld t1 key e \<and> res = Some (generateToken random, fencingSeq e + 1) \<and>
     e' = e\<lparr>fencingSeq := fencingSeq e + 1, locks := gm_set key
       \<lparr>lKey = key, lToken = generateToken random, lFencing = fencingSeq e + 1,
        lExpiresAt = time_add t2 ttl, lOwner = owner\<rparr> (locks e)\<rparr>)"
  using assms by (auto simp: Acquire_def IsHeld_def Let_def split: option.splits if_splits)

lemma lock_inv_held:
  assumes "lock_inv s" "g \<in> set (grants s)" "holds_at (lnow s) g" "holds_at t g"
  shows "IsHeld t (gKey g) (eng s)"
proof -
  obtain en where "gm_get (locks (eng s)) (gKey g) = Some en" "lExpiresAt en = gDeadline g"
    by (rule lock_inv_entry [OF assms(1-3)])
  with assms(4) show ?thesis by (simp add: IsHeld_def lock_IsExpired_def holds_at_def)
qed

lemma lock_inv_acquired:
  assumes inv: "lock_inv s" and t: "lnow s \<le> t1" "t1 \<le> t2"
    and acq: "Acquire t1 t2 random key ttl owner (eng s) = (e', Some (token, fencing))"
    and fresh: "token \<notin> gToken ` set (grants s)"
  shows "lock_inv \<lparr>lnow = t2, eng = e',
       grants = grants s @ [\<lparr>gKey = key, gToken = token, gFencing = fencing,
                             gDeadline = time_add t2 ttl, gReleased = False\<rparr>]\<rparr>" (is "lock_inv ?s")
proof (rule lock_invI)
  let ?g = "\<lparr>gKey = key, gToken = token, gFencing = fencing, gDeadline = time_add t2 ttl, gReleased = False\<rparr>"
  let ?e = "\<lparr>lKey = key, lToken = token, lFencing = fencing, lExpiresAt = time_add t2 ttl, lOwner = owner\<rparr>"
  have nh: "\<not> IsHeld t1 key (eng s)" and f: "fencing = fencingSeq (eng s) + 1"
    and e': "e' = eng s\<lparr>fencingSeq := fencing, locks := gm_set key ?e (locks (eng s))\<rparr>"
    using Acquire_cases [OF acq] by auto
  show "gm_wf (locks (eng ?s))" using lock_invD(1) [OF inv] by (simp add: e')
  show "distinct (map gToken (grants ?s))" using lock_invD(2) [OF inv] fresh by simp
  show "fencingSeq (eng ?s) = of_nat (length (grants ?s))"
    using lock_invD(3) [OF inv] by (simp add: e' f)
  show "gFencing (grants ?s ! i) = of_nat (Suc i)" if "i < length (grants ?s)" for i
    using that lock_invD(3) [OF inv] lock_invD(4) [OF inv, of i]
    by (cases "i < length (grants s)") (auto simp: f nth_append less_Suc_eq)
  fix g assume g: "g \<in> set (grants ?s)"
  show "\<exists>en. gm_get (locks (eng ?s)) (gKey g) = Some en \<and> lToken en = gToken g" if h: "holds_at (lnow ?s) g"
  proof (cases "g = ?g")
    case False
    then have old: "g \<in> set (grants s)" using g by auto
    have h1: "holds_at (lnow s) g" "holds_at t1 g" using h t by (auto elim: holds_at_mono)
    then have "gKey g \<noteq> key" using lock_inv_held [OF inv old] nh by auto
    moreover obtain en where "gm_get (locks (eng s)) (gKey g) = Some en" "lToken en = gToken g"
      by (rule lock_inv_entry [OF inv old h1(1)])
    ultimately show ?thesis by (simp add: e')
  qed (simp add: e')
  fix en assume en: "gm_get (locks (eng ?s)) (gKey g) = Some en" "lToken en = gToken g"
  show "\<not> gReleased g \<and> lFencing en = gFencing g \<and> lExpiresAt en = gDeadline g"
  proof (cases "g = ?g")
    case True
    then show ?thesis using en by (auto simp: e')
  next
    case False
    then have old: "g \<in> set (grants s)" using g by auto
    then have "gKey g \<noteq> key" using en fresh by (auto simp: e' split: if_splits)
    then show ?thesis using lock_inv_own [OF inv old] en by (simp add: e')
  qed
qed

lemma lock_inv_released:
  assumes inv: "lock_inv s" and rel: "Release key token (eng s) = (e', True)"
  shows "lock_inv (s\<lparr>eng := e', grants := map (mark_released key token) (grants s)\<rparr>)" (is "lock_inv ?s")
proof (rule lock_invI)
  obtain en0 where en0: "gm_get (locks (eng s)) key = Some en0" "lToken en0 = token"
    and e': "e' = eng s\<lparr>locks := gm_del key (locks (eng s))\<rparr>"
    using rel by (auto simp: Release_def split: option.splits if_splits)
  have m: "gToken (mark_released key token g) = gToken g" "gKey (mark_released key token g) = gKey g"
    "gFencing (mark_released key token g) = gFencing g" "gDeadline (mark_released key token g) = gDeadline g" for g
    by (simp_all add: mark_released_def)
  show "gm_wf (locks (eng ?s))" using lock_invD(1) [OF inv] by (simp add: e')
  show "distinct (map gToken (grants ?s))" using lock_invD(2) [OF inv] by (simp add: o_def m)
  show "fencingSeq (eng ?s) = of_nat (length (grants ?s))" using lock_invD(3) [OF inv] by (simp add: e')
  show "gFencing (grants ?s ! i) = of_nat (Suc i)" if "i < length (grants ?s)" for i
    using that lock_invD(4) [OF inv, of i] by (simp add: m)
  fix g' assume "g' \<in> set (grants ?s)"
  then obtain g where g: "g \<in> set (grants s)" "g' = mark_released key token g" by auto
  show "\<exists>en. gm_get (locks (eng ?s)) (gKey g') = Some en \<and> lToken en = gToken g'" if h: "holds_at (lnow ?s) g'"
  proof -
    have n: "\<not> (gKey g = key \<and> gToken g = token)"
      using h g(2) by (auto simp: holds_at_def mark_released_def)
    then have "holds_at (lnow s) g" using h g(2) by (auto simp: mark_released_def)
    then obtain en where "gm_get (locks (eng s)) (gKey g) = Some en" "lToken en = gToken g"
      by (rule lock_inv_entry [OF inv g(1)])
    moreover from this have "gKey g \<noteq> key" using n en0 by auto
    ultimately show ?thesis by (simp add: g(2) m e')
  qed
  fix en assume "gm_get (locks (eng ?s)) (gKey g') = Some en" "lToken en = gToken g'"
  then have "gm_get (locks (eng s)) (gKey g) = Some en" "lToken en = gToken g" "gKey g \<noteq> key"
    by (auto simp: g(2) m e' split: if_splits)
  then show "\<not> gReleased g' \<and> lFencing en = gFencing g' \<and> lExpiresAt en = gDeadline g'"
    using lock_inv_own [OF inv g(1)] by (simp add: g(2) mark_released_def)
qed

lemma lock_inv_extended:
  assumes inv: "lock_inv s" and t: "lnow s \<le> t1" "t1 \<le> t2"
    and ext: "Extend t1 t2 key token ttl (eng s) = (e', True)"
  shows "lock_inv (s\<lparr>lnow := t2, eng := e',
      grants := map (mark_extended key token (time_add t2 ttl)) (grants s)\<rparr>)" (is "lock_inv ?s")
proof (rule lock_invI)
  let ?m = "mark_extended key token (time_add t2 ttl)"
  obtain en0 where en0: "gm_get (locks (eng s)) key = Some en0" "lToken en0 = token" "t1 \<le> lExpiresAt en0"
    and e': "e' = eng s\<lparr>locks := gm_set key (en0\<lparr>lExpiresAt := time_add t2 ttl\<rparr>) (locks (eng s))\<rparr>"
    using ext by (auto simp: Extend_def lock_IsExpired_def split: option.splits if_splits)
  have m: "gToken (?m g) = gToken g" "gKey (?m g) = gKey g" "gFencing (?m g) = gFencing g"
    "gReleased (?m g) = gReleased g" for g
    by (simp_all add: mark_extended_def)
  show "gm_wf (locks (eng ?s))" using lock_invD(1) [OF inv] by (simp add: e')
  show "distinct (map gToken (grants ?s))" using lock_invD(2) [OF inv] by (simp add: o_def m)
  show "fencingSeq (eng ?s) = of_nat (length (grants ?s))" using lock_invD(3) [OF inv] by (simp add: e')
  show "gFencing (grants ?s ! i) = of_nat (Suc i)" if "i < length (grants ?s)" for i
    using that lock_invD(4) [OF inv, of i] by (simp add: m)
  fix g' assume "g' \<in> set (grants ?s)"
  then obtain g where g: "g \<in> set (grants s)" "g' = ?m g" by auto
  show "\<exists>en. gm_get (locks (eng ?s)) (gKey g') = Some en \<and> lToken en = gToken g'" if h: "holds_at (lnow ?s) g'"
  proof (cases "gKey g = key \<and> gToken g = token")
    case True
    then show ?thesis using en0 by (simp add: g(2) m e')
  next
    case False
    then have h2: "holds_at t2 g" using h g(2) by (auto simp: mark_extended_def)
    then have "holds_at (lnow s) g" using t by (auto elim: holds_at_mono)
    then obtain en where "gm_get (locks (eng s)) (gKey g) = Some en" "lToken en = gToken g"
      by (rule lock_inv_entry [OF inv g(1)])
    moreover from this have "gKey g \<noteq> key" using False en0 by auto
    ultimately show ?thesis by (simp add: g(2) m e')
  qed
  fix en assume en: "gm_get (locks (eng ?s)) (gKey g') = Some en" "lToken en = gToken g'"
  show "\<not> gReleased g' \<and> lFencing en = gFencing g' \<and> lExpiresAt en = gDeadline g'"
  proof (cases "gKey g = key")
    case True
    then have "en = en0\<lparr>lExpiresAt := time_add t2 ttl\<rparr>" "gToken g = token"
      using en en0 by (auto simp: g(2) m e')
    then show ?thesis using lock_inv_own [OF inv g(1), of en0] True en0 by (simp add: g(2) mark_extended_def)
  next
    case False
    then show ?thesis using lock_inv_own [OF inv g(1), of en] en by (simp add: g(2) mark_extended_def e')
  qed
qed

lemma cleanup_loop_frame:
  "fencingSeq (cleanup_loop clk i xs e) = fencingSeq e"
  "gm_wf (locks e) \<Longrightarrow> gm_wf (locks (cleanup_loop clk i xs e))"
  "gm_get (locks (cleanup_loop clk i xs e)) k = Some en \<Longrightarrow> gm_get (locks e) k = Some en"
  by (induction clk i xs e rule: cleanup_loop.induct) (auto split: if_splits)

lemma cleanup_loop_keeps:
  assumes "gm_get (locks e) k = Some en" "\<And>en'. (k, en') \<in> set xs \<Longrightarrow> en' = en" "\<And>i. clk i \<le> lExpiresAt en"
  shows "gm_get (locks (cleanup_loop clk i xs e)) k = Some en"
  using assms
proof (induction clk i xs e rule: cleanup_loop.induct)
  case (2 clk i key entry rest e)
  have "\<not> (lock_IsExpired (clk i) entry \<and> key = k)"
    using 2(3) [of entry] 2(4) [of i] by (auto simp: lock_IsExpired_def not_less)
  then show ?case using 2 by (cases "lock_IsExpired (clk i) entry") auto
qed simp

lemma lock_inv_cleanup:
  assumes inv: "lock_inv s" and t: "\<And>i. lnow s \<le> clk i \<and> clk i \<le> t"
  shows "lock_inv (s\<lparr>lnow := t, eng := cleanup_tick clk (eng s)\<rparr>)" (is "lock_inv ?s")
proof (rule lock_invI)
  note wf = lock_invD(1) [OF inv]
  show "gm_wf (locks (eng ?s))" using wf by (simp add: cleanup_tick_def cleanup_loop_frame)
  show "distinct (map gToken (grants ?s))" using lock_invD(2) [OF inv] by simp
  show "fencingSeq (eng ?s) = of_nat (length (grants ?s))"
    using lock_invD(3) [OF inv] by (simp add: cleanup_tick_def cleanup_loop_frame)
  show "gFencing (grants ?s ! i) = of_nat (Suc i)" if "i < length (grants ?s)" for i
    using that lock_invD(4) [OF inv] by simp
  fix g assume "g \<in> set (grants ?s)"
  then have g: "g \<in> set (grants s)" by simp
  show "\<exists>en. gm_get (locks (eng ?s)) (gKey g) = Some en \<and> lToken en = gToken g" if h: "holds_at (lnow ?s) g"
  proof -
    have "lnow s \<le> t" using t [of 0] by simp
    then have "holds_at (lnow s) g" using h by (auto elim: holds_at_mono)
    then obtain en where en: "gm_get (locks (eng s)) (gKey g) = Some en" "lToken en = gToken g"
      "lExpiresAt en = gDeadline g"
      by (rule lock_inv_entry [OF inv g])
    have "clk i \<le> lExpiresAt en" for i using t [of i] h en(3) by (simp add: holds_at_def)
    moreover have "en' = en" if "(gKey g, en') \<in> set (locks (eng s))" for en'
      using map_of_is_SomeI [OF wf that] en(1) by simp
    ultimately have "gm_get (locks (eng ?s)) (gKey g) = Some en"
      using en(1) by (simp add: cleanup_tick_def cleanup_loop_keeps)
    then show ?thesis using en(2) by blast
  qed
  fix en assume "gm_get (locks (eng ?s)) (gKey g) = Some en" "lToken en = gToken g"
  then show "\<not> gReleased g \<and> lFencing en = gFencing g \<and> lExpiresAt en = gDeadline g"
    using lock_inv_own [OF inv g] cleanup_loop_frame(3) [of clk 0 "locks (eng s)" "eng s" "gKey g" en]
    by (simp add: cleanup_tick_def)
qed

text \<open>Every step keeps the invariant.\<close>

lemma lock_step_inv: "lock_step s s' \<Longrightarrow> lock_inv s \<Longrightarrow> lock_inv s'"
proof (induction rule: lock_step.induct)
  case (acquired s t1 t2 random key ttl owner e' token fencing)
  then show ?case using lock_inv_acquired by blast
next
  case (refused s t1 t2 random key ttl owner e')
  then show ?case using lock_inv_wait [of s t1] Acquire_cases [OF refused(2)] by simp
next
  case (released key token s e')
  then show ?case using lock_inv_released by blast
next
  case (release_refused key token s e')
  then have "e' = eng s" by (auto simp: Release_def split: option.splits if_splits)
  then show ?case using release_refused by simp
next
  case (extended s t1 t2 key token ttl e')
  then show ?case using lock_inv_extended by blast
next
  case (extend_refused s t1 t2 key token ttl e')
  then have "e' = eng s" by (auto simp: Extend_def split: option.splits if_splits)
  then show ?case using extend_refused lock_inv_wait [of s t1] by simp
next
  case (cleanup s clk t)
  then show ?case using lock_inv_cleanup by blast
next
  case (wait s t)
  then show ?case using lock_inv_wait by blast
qed

lemma lock_reachable_inv: "lock_reachable s \<Longrightarrow> lock_inv s"
  by (induction rule: lock_reachable.induct) (auto simp: lock_inv_init intro: lock_step_inv)

end
