(* ===== verification/Lock_Props.thy ===== *)
theory Lock_Props
  imports Lock_Engine
begin

text \<open>
  One lock engine: mutual exclusion and fencing over every reachable state of the transition system,
  exclusive control of a held lock, availability of a free one, and what \<open>Release\<close> does after the
  lifetime of a lock.
\<close>

section \<open>Properties\<close>

text \<open>
  Mutual exclusion: in every reachable state, whatever calls of Acquire, Release, Extend and
  cleanup led to it and however the clock moved, two grants of the same key that are both still
  in force (before their deadline and not released) are the same grant.\<close>

lemma lock_mutual_exclusion:
  assumes "lock_reachable s" "g \<in> set (grants s)" "h \<in> set (grants s)" "gKey g = gKey h"
    and "holds_at (lnow s) g" "holds_at (lnow s) h"
  shows "g = h"
proof -
  note inv = lock_reachable_inv [OF assms(1)]
  obtain en where "gm_get (locks (eng s)) (gKey g) = Some en" "lToken en = gToken g"
    by (rule lock_inv_entry [OF inv assms(2,5)])
  moreover obtain en' where "gm_get (locks (eng s)) (gKey h) = Some en'" "lToken en' = gToken h"
    by (rule lock_inv_entry [OF inv assms(3,6)])
  ultimately have "gToken g = gToken h" using assms(4) by simp
  then show ?thesis
    using lock_invD(2) [OF inv] assms(2,3) by (auto simp: distinct_map inj_on_def)
qed

text \<open>
  Fencing: the fencing token of a later grant is strictly larger than that of every earlier
  grant of the engine, of the same key or not, as long as fewer than 2^64 grants were made.\<close>

lemma lock_fencing_increasing:
  assumes "lock_reachable s" "i < j" "j < length (grants s)" "length (grants s) < 2 ^ 64"
  shows "gFencing (grants s ! i) < gFencing (grants s ! j)"
proof -
  note f = lock_invD(4) [OF lock_reachable_inv [OF assms(1)]]
  have "unat (of_nat (Suc i) :: uint64) = Suc i" "unat (of_nat (Suc j) :: uint64) = Suc j"
    using assms by (simp_all add: unat_of_nat del: of_nat_Suc)
  then show ?thesis
    using f [of i] f [of j] assms by (simp add: word_less_nat_alt)
qed

text \<open>
  A lock in force is under the exclusive control of its holder: until its deadline no
  Acquire of the key succeeds, and Release and Extend with any other token are refused and
  change nothing, while Release and Extend with the token of the grant succeed.\<close>

lemma lock_exclusive_control:
  assumes "lock_reachable s" "g \<in> set (grants s)" "holds_at (lnow s) g" "lnow s \<le> t" "t \<le> gDeadline g"
    and "token \<noteq> gToken g"
  shows "Acquire t t2 random (gKey g) ttl owner (eng s) = (eng s, None) \<and>
    Release (gKey g) token (eng s) = (eng s, False) \<and>
    Extend t t2 (gKey g) token ttl (eng s) = (eng s, False) \<and>
    snd (Release (gKey g) (gToken g) (eng s)) \<and>
    snd (Extend t t2 (gKey g) (gToken g) ttl (eng s))"
proof -
  obtain en where "gm_get (locks (eng s)) (gKey g) = Some en" "lToken en = gToken g" "lExpiresAt en = gDeadline g"
    by (rule lock_inv_entry [OF lock_reachable_inv [OF assms(1)] assms(2,3)])
  then show ?thesis
    using assms(5,6) by (simp add: Acquire_def Release_def Extend_def lock_IsExpired_def)
qed

text \<open>
  A lock is available exactly when it is not held: Acquire succeeds if and only if the key
  has no entry or its entry has expired, the new holder gets the next fencing token, and the
  lock then counts as held up to and including the end of its lifetime and not after it.\<close>

lemma lock_acquire_iff_free:
  "(snd (Acquire t1 t2 random key ttl owner e) \<noteq> None \<longleftrightarrow> \<not> IsHeld t1 key e) \<and>
   (\<not> IsHeld t1 key e \<longrightarrow>
      snd (Acquire t1 t2 random key ttl owner e) = Some (generateToken random, fencingSeq e + 1) \<and>
      (\<forall>t. IsHeld t key (fst (Acquire t1 t2 random key ttl owner e)) \<longleftrightarrow> t \<le> time_add t2 ttl) \<and>
      (\<forall>t k. k \<noteq> key \<longrightarrow> IsHeld t k (fst (Acquire t1 t2 random key ttl owner e)) = IsHeld t k e))"
proof (cases "IsHeld t1 key e")
  case True
  then show ?thesis
    by (auto simp: Acquire_def IsHeld_def split: option.splits)
next
  case False
  then have "Acquire t1 t2 random key ttl owner e =
      (e\<lparr>fencingSeq := fencingSeq e + 1, locks := gm_set key
         \<lparr>lKey = key, lToken = generateToken random, lFencing = fencingSeq e + 1,
          lExpiresAt = time_add t2 ttl, lOwner = owner\<rparr> (locks e)\<rparr>,
       Some (generateToken random, fencingSeq e + 1))"
    using Acquire_cases [of t1 t2 random key ttl owner e] by (metis surj_pair)
  then show ?thesis using False by (simp add: IsHeld_def lock_IsExpired_def not_less)
qed

text \<open>
  Release looks at the token only and not at the clock: the release of a lock whose lifetime
  is over, which nobody holds any more, is answered with success as long as neither a later
  Acquire nor the cleanup replaced the entry; Extend refuses it.\<close>

lemma lock_Release_ignores_expiry:
  assumes "gm_get (locks e) key = Some entry" "lExpiresAt entry < t"
  shows "\<not> IsHeld t key e \<and> snd (Release key (lToken entry) e) \<and>
    \<not> snd (Extend t t2 key (lToken entry) ttl e)"
  using assms by (simp add: IsHeld_def Release_def Extend_def lock_IsExpired_def)

end
