(* ===== verification/Tag_Index.thy ===== *)
theory Tag_Index
  imports Go_Std
begin

text \<open>
  \<open>tagIndex\<close> of \<open>src/tags.go\<close>: two maps, from tags to the set of their keys and from keys to
  their tags. Every operation runs under the mutex of the index. The inner maps are reached only
  through the outer one, so changing one in place is an update of the outer map. The theory
  shows that the two maps are inverse to each other and that the index implements its
  specification, the map from a key to the tags it was last given.
\<close>

section \<open>Definitions\<close>

record tag_index =
  tagToKeys :: "(string, (string, unit) gomap) gomap"
  keyToTags :: "(string, string list) gomap"

definition newTagIndex :: tag_index where
  "newTagIndex = \<lparr>tagToKeys = [], keyToTags = []\<rparr>"

text \<open>The loop over the old tags of a key, shared by \<open>Add\<close> and \<open>Remove\<close>.\<close>

fun untag_loop :: "string \<Rightarrow> string list \<Rightarrow> (string, (string, unit) gomap) gomap \<Rightarrow>
    (string, (string, unit) gomap) gomap" where
  "untag_loop key [] t2k = t2k"
| "untag_loop key (tag # rest) t2k =
     (case gm_get t2k tag of
        None \<Rightarrow> untag_loop key rest t2k
      | Some keys \<Rightarrow>
          (let keys' = gm_del key keys
           in untag_loop key rest (if keys' = [] then gm_del tag t2k else gm_set tag keys' t2k)))"

text \<open>The loop over the new tags; a missing inner map is made first.\<close>

fun tag_loop :: "string \<Rightarrow> string list \<Rightarrow> (string, (string, unit) gomap) gomap \<Rightarrow>
    (string, (string, unit) gomap) gomap" where
  "tag_loop key [] t2k = t2k"
| "tag_loop key (tag # rest) t2k =
     tag_loop key rest (gm_set tag (gm_set key () (gm_index [] t2k tag)) t2k)"

definition tag_Add :: "string \<Rightarrow> string list \<Rightarrow> tag_index \<Rightarrow> tag_index" where
  "tag_Add key tags ti =
     (let t2k = (case gm_get (keyToTags ti) key of
                   Some oldTags \<Rightarrow> untag_loop key oldTags (tagToKeys ti)
                 | None \<Rightarrow> tagToKeys ti)
      in ti\<lparr>keyToTags := gm_set key tags (keyToTags ti), tagToKeys := tag_loop key tags t2k\<rparr>)"

definition tag_Remove :: "string \<Rightarrow> tag_index \<Rightarrow> tag_index" where
  "tag_Remove key ti =
     (case gm_get (keyToTags ti) key of
        None \<Rightarrow> ti
      | Some tags \<Rightarrow>
          ti\<lparr>tagToKeys := untag_loop key tags (tagToKeys ti), keyToTags := gm_del key (keyToTags ti)\<rparr>)"

definition GetKeysByTag :: "string \<Rightarrow> tag_index \<Rightarrow> string list" where
  "GetKeysByTag tag ti =
     (case gm_get (tagToKeys ti) tag of None \<Rightarrow> [] | Some keys \<Rightarrow> map fst keys)"

section \<open>The specification\<close>

datatype tag_op = TagAdd string "string list" | TagRemove string

fun tag_run :: "tag_op list \<Rightarrow> tag_index \<Rightarrow> tag_index" where
  "tag_run [] ti = ti"
| "tag_run (TagAdd k ts # ops) ti = tag_run ops (tag_Add k ts ti)"
| "tag_run (TagRemove k # ops) ti = tag_run ops (tag_Remove k ti)"

fun tag_spec :: "tag_op list \<Rightarrow> (string \<rightharpoonup> string list) \<Rightarrow> (string \<rightharpoonup> string list)" where
  "tag_spec [] m = m"
| "tag_spec (TagAdd k ts # ops) m = tag_spec ops (m(k \<mapsto> ts))"
| "tag_spec (TagRemove k # ops) m = tag_spec ops (m(k := None))"

definition tagged :: "(string \<rightharpoonup> string list) \<Rightarrow> string \<Rightarrow> string set" where
  "tagged m tag = {k. \<exists>ts. m k = Some ts \<and> tag \<in> set ts}"

definition keys_of :: "(string, (string, unit) gomap) gomap \<Rightarrow> string \<Rightarrow> string set" where
  "keys_of t2k tag = set (gm_keys (gm_index [] t2k tag))"

text \<open>Distinct keys in every inner map, and no empty inner map.\<close>

definition t2k_wf :: "(string, (string, unit) gomap) gomap \<Rightarrow> bool" where
  "t2k_wf t2k \<longleftrightarrow> (\<forall>tag keys. gm_get t2k tag = Some keys \<longrightarrow> gm_wf keys \<and> keys \<noteq> [])"

definition tag_inv :: "tag_index \<Rightarrow> bool" where
  "tag_inv ti \<longleftrightarrow> t2k_wf (tagToKeys ti) \<and>
     (\<forall>tag. keys_of (tagToKeys ti) tag = tagged (gm_get (keyToTags ti)) tag)"

section \<open>Lemmas\<close>

lemma keys_of_set: "keys_of (gm_set tag keys t2k) tag' = (if tag' = tag then set (gm_keys keys) else keys_of t2k tag')"
  by (simp add: keys_of_def)

lemma keys_of_del: "keys_of (gm_del tag t2k) tag' = (if tag' = tag then {} else keys_of t2k tag')"
  by (simp add: keys_of_def)

lemma gm_set_keys: "set (gm_keys (gm_set k v m)) = insert k (set (gm_keys m))"
  by (induction m) auto

lemma gm_set_not_Nil: "gm_set k v m \<noteq> []"
  by (cases m) auto

lemma gm_wf_index: "t2k_wf t2k \<Longrightarrow> gm_wf (gm_index [] t2k tag)"
  by (auto simp: t2k_wf_def gm_index_def split: option.split)

lemma keys_of_upd:
  "keys_of (if gm_del key keys = [] then gm_del tag t2k else gm_set tag (gm_del key keys) t2k) tag' =
     (if tag' = tag then set (gm_keys keys) - {key} else keys_of t2k tag')"
proof -
  have "set (gm_keys (gm_del key keys)) = set (gm_keys keys) - {key}" by (auto simp: gm_set_del)
  then show ?thesis by (auto simp: keys_of_set keys_of_del)
qed

lemma untag_loop_wf: "t2k_wf t2k \<Longrightarrow> t2k_wf (untag_loop key tags t2k)"
proof (induction key tags t2k rule: untag_loop.induct)
  case (2 key tag rest t2k)
  show ?case
  proof (cases "gm_get t2k tag")
    case (Some keys)
    have "t2k_wf (if gm_del key keys = [] then gm_del tag t2k else gm_set tag (gm_del key keys) t2k)"
      using 2(3) Some by (simp add: t2k_wf_def)
    then show ?thesis using 2(2) [OF Some refl] Some by (simp add: Let_def)
  qed (use 2 in simp)
qed simp

lemma untag_loop_keys:
  "keys_of (untag_loop key tags t2k) tag =
     (if tag \<in> set tags then keys_of t2k tag - {key} else keys_of t2k tag)"
proof (induction key tags t2k rule: untag_loop.induct)
  case (2 key t rest t2k)
  show ?case
  proof (cases "gm_get t2k t")
    case None
    then have "keys_of t2k t = {}" by (simp add: keys_of_def gm_index_def)
    then show ?thesis using None 2(1) by auto
  next
    case (Some keys)
    then have k: "set (gm_keys keys) = keys_of t2k t" by (simp add: keys_of_def gm_index_def)
    show ?thesis
      using Some 2(2) [OF Some refl] keys_of_upd [of key keys t t2k tag] k by (auto simp: Let_def)
  qed
qed simp

lemma tag_loop_wf: "t2k_wf t2k \<Longrightarrow> t2k_wf (tag_loop key tags t2k)"
proof (induction key tags t2k rule: tag_loop.induct)
  case (2 key tag rest t2k)
  have "t2k_wf (gm_set tag (gm_set key () (gm_index [] t2k tag)) t2k)"
    using 2(2) gm_wf_index [OF 2(2), of tag]
    by (auto simp: t2k_wf_def gm_set_not_Nil split: if_splits)
  then show ?case using 2(1) by simp
qed simp

lemma tag_loop_keys:
  "keys_of (tag_loop key tags t2k) tag =
     (if tag \<in> set tags then insert key (keys_of t2k tag) else keys_of t2k tag)"
proof (induction key tags t2k rule: tag_loop.induct)
  case (2 key t rest t2k)
  have "set (gm_keys (gm_set key () (gm_index [] t2k t))) = insert key (keys_of t2k t)"
    by (simp only: gm_set_keys keys_of_def)
  then show ?case using 2 by (auto simp: keys_of_set)
qed simp

lemma tag_inv_new: "tag_inv newTagIndex"
  by (simp add: tag_inv_def newTagIndex_def t2k_wf_def keys_of_def tagged_def)

lemma tag_inv_Add:
  assumes "tag_inv ti" shows "tag_inv (tag_Add key tags ti)"
proof -
  have k: "keys_of (tagToKeys ti) tag = tagged (gm_get (keyToTags ti)) tag" for tag
    using assms by (simp add: tag_inv_def)
  show ?thesis
  proof (cases "gm_get (keyToTags ti) key")
    case None
    then show ?thesis
      using assms k by (auto simp: tag_inv_def tag_Add_def tag_loop_wf tag_loop_keys tagged_def)
  next
    case (Some old)
    then show ?thesis
      using assms k
      by (auto simp: tag_inv_def tag_Add_def tag_loop_wf untag_loop_wf tag_loop_keys untag_loop_keys tagged_def)
  qed
qed

lemma tag_inv_Remove:
  assumes "tag_inv ti" shows "tag_inv (tag_Remove key ti)"
  using assms
  by (auto simp: tag_inv_def tag_Remove_def untag_loop_wf untag_loop_keys tagged_def split: option.split)

lemma tag_Add_spec: "gm_get (keyToTags (tag_Add key tags ti)) = (gm_get (keyToTags ti))(key \<mapsto> tags)"
  by (simp add: tag_Add_def Let_def fun_eq_iff)

lemma tag_Remove_spec: "gm_get (keyToTags (tag_Remove key ti)) = (gm_get (keyToTags ti))(key := None)"
  by (auto simp: tag_Remove_def fun_eq_iff split: option.split)

lemma tag_run_spec:
  "tag_inv ti \<Longrightarrow> tag_inv (tag_run ops ti) \<and> gm_get (keyToTags (tag_run ops ti)) = tag_spec ops (gm_get (keyToTags ti))"
  by (induction ops ti rule: tag_run.induct)
    (simp_all add: tag_inv_Add tag_inv_Remove tag_Add_spec tag_Remove_spec)

lemma GetKeysByTag_inv:
  assumes "tag_inv ti"
  shows "distinct (GetKeysByTag tag ti)" "set (GetKeysByTag tag ti) = tagged (gm_get (keyToTags ti)) tag"
proof -
  have e: "GetKeysByTag tag ti = gm_keys (gm_index [] (tagToKeys ti) tag)"
    by (simp add: GetKeysByTag_def gm_index_def split: option.split)
  show "distinct (GetKeysByTag tag ti)" using assms gm_wf_index by (simp add: e tag_inv_def)
  show "set (GetKeysByTag tag ti) = tagged (gm_get (keyToTags ti)) tag"
    using assms unfolding e by (simp only: tag_inv_def keys_of_def)
qed

section \<open>Properties\<close>

text \<open>
  C21: The tag index implements its specification: after any sequence of Add and Remove the keys
  it answers for a tag are, each once, exactly the keys whose last Add gave them the tag and that
  were not removed since, however often tags were replaced or repeated, and no tag is left with
  an empty set of keys.\<close>

theorem tag_index_refines:
  "distinct (GetKeysByTag tag (tag_run ops newTagIndex)) \<and>
   set (GetKeysByTag tag (tag_run ops newTagIndex)) = tagged (tag_spec ops Map.empty) tag \<and>
   gm_get (tagToKeys (tag_run ops newTagIndex)) tag \<noteq> Some []"
proof -
  have inv: "tag_inv (tag_run ops newTagIndex)"
    and k: "gm_get (keyToTags (tag_run ops newTagIndex)) = tag_spec ops Map.empty"
    using tag_run_spec [OF tag_inv_new, of ops] by (simp_all add: newTagIndex_def)
  then show ?thesis using GetKeysByTag_inv [OF inv, of tag] by (auto simp: tag_inv_def t2k_wf_def)
qed

end
