(* ===== verification/Path_Match.thy ===== *)
theory Path_Match
  imports Go_Std
begin

text \<open>
  \<open>path.Match\<close> of the Go standard library, which decides whether the key of an event matches the
  glob pattern of a subscription (\<open>src/internal/pubsub/subscription.go\<close>): the chunks between the
  stars are matched greedily, the leftmost place first, without backtracking over an earlier
  star. \<open>None\<close> is \<open>ErrBadPattern\<close>. The theory shows that on patterns of plain characters, \<open>?\<close>
  and \<open>*\<close> the greedy algorithm decides exactly the declarative meaning of a glob, \<open>glob\<close>.
\<close>

section \<open>Definitions\<close>

definition byte_at :: "string \<Rightarrow> nat \<Rightarrow> nat" where
  "byte_at s i = (if i < length s then of_char (s ! i) else 0)"

definition RuneError :: nat where
  "RuneError = 65533"

definition is_cont :: "nat \<Rightarrow> bool" where
  "is_cont b \<longleftrightarrow> 128 \<le> b \<and> b \<le> 191"

text \<open>\<open>utf8.DecodeRuneInString\<close>: the rune and its size; \<open>(RuneError, 1)\<close> for invalid bytes.\<close>

definition DecodeRune :: "string \<Rightarrow> nat \<times> nat" where
  "DecodeRune s =
     (let b0 = byte_at s 0; b1 = byte_at s 1; b2 = byte_at s 2; b3 = byte_at s 3
      in if s = [] then (RuneError, 0)
         else if b0 < 128 then (b0, 1)
         else if 194 \<le> b0 \<and> b0 \<le> 223 then
           (if is_cont b1 then ((b0 - 192) * 64 + (b1 - 128), 2) else (RuneError, 1))
         else if 224 \<le> b0 \<and> b0 \<le> 239 then
           (if is_cont b1 \<and> is_cont b2 \<and> (b0 = 224 \<longrightarrow> 160 \<le> b1) \<and> (b0 = 237 \<longrightarrow> b1 \<le> 159)
            then ((b0 - 224) * 4096 + (b1 - 128) * 64 + (b2 - 128), 3) else (RuneError, 1))
         else if 240 \<le> b0 \<and> b0 \<le> 244 then
           (if is_cont b1 \<and> is_cont b2 \<and> is_cont b3 \<and> (b0 = 240 \<longrightarrow> 144 \<le> b1) \<and> (b0 = 244 \<longrightarrow> b1 \<le> 143)
            then ((b0 - 240) * 262144 + (b1 - 128) * 4096 + (b2 - 128) * 64 + (b3 - 128), 4)
            else (RuneError, 1))
         else (RuneError, 1))"

text \<open>The scan of \<open>scanChunk\<close> up to the next star outside a character class.\<close>

fun scan_loop :: "bool \<Rightarrow> string \<Rightarrow> string \<times> string" where
  "scan_loop inrange [] = ([], [])"
| "scan_loop inrange (c # cs) =
     (if c = CHR 0x5C then
        (case cs of
           [] \<Rightarrow> ([c], [])
         | d # ds \<Rightarrow> (let (chunk, rest) = scan_loop inrange ds in (c # d # chunk, rest)))
      else if c = CHR ''['' then (let (chunk, rest) = scan_loop True cs in (c # chunk, rest))
      else if c = CHR '']'' then (let (chunk, rest) = scan_loop False cs in (c # chunk, rest))
      else if c = CHR ''*'' \<and> \<not> inrange then ([], c # cs)
      else (let (chunk, rest) = scan_loop inrange cs in (c # chunk, rest)))"

definition scanChunk :: "string \<Rightarrow> bool \<times> string \<times> string" where
  "scanChunk pattern =
     (let p = dropWhile (\<lambda>c. c = CHR ''*'') pattern;
          star = (pattern \<noteq> [] \<and> hd pattern = CHR ''*'');
          (chunk, rest) = scan_loop False p
      in (star, chunk, rest))"

definition getEsc :: "string \<Rightarrow> (nat \<times> string) option" where
  "getEsc chunk =
     (if chunk = [] \<or> hd chunk = CHR ''-'' \<or> hd chunk = CHR '']'' then None
      else let chunk' = (if hd chunk = CHR 0x5C then tl chunk else chunk)
           in if chunk' = [] then None
              else let (r, n) = DecodeRune chunk'; nchunk = drop n chunk'
                   in if (r = RuneError \<and> n = 1) \<or> nchunk = [] then None else Some (r, nchunk))"

lemma DecodeRune_size: "s \<noteq> [] \<Longrightarrow> 1 \<le> snd (DecodeRune s)"
  by (auto simp: DecodeRune_def Let_def)

lemma getEsc_length: "getEsc chunk = Some (r, nchunk) \<Longrightarrow> length nchunk < length chunk \<and> nchunk \<noteq> []"
proof -
  assume g: "getEsc chunk = Some (r, nchunk)"
  define c where "c = (if hd chunk = CHR 0x5C then tl chunk else chunk)"
  obtain x n where d: "DecodeRune c = (x, n)" by (cases "DecodeRune c")
  have c: "c \<noteq> []" "nchunk = drop n c" "nchunk \<noteq> []" "chunk \<noteq> []"
    using g d by (auto simp: getEsc_def Let_def c_def split: if_splits)
  then have "1 \<le> n" using DecodeRune_size [of c] d by simp
  then have "length nchunk < length c" using c by simp
  also have "length c \<le> length chunk" by (simp add: c_def)
  finally show ?thesis using c by simp
qed

text \<open>The loop over the ranges of a character class: what is left of the chunk and whether \<open>r\<close> matched.\<close>

function class_loop :: "string \<Rightarrow> nat \<Rightarrow> nat \<Rightarrow> bool \<Rightarrow> (string \<times> bool) option" where
  "class_loop chunk r nrange matched =
     (if chunk \<noteq> [] \<and> hd chunk = CHR '']'' \<and> nrange > 0 then Some (tl chunk, matched)
      else case getEsc chunk of
             None \<Rightarrow> None
           | Some (lo, chunk1) \<Rightarrow>
               if hd chunk1 = CHR ''-'' then
                 (case getEsc (tl chunk1) of
                    None \<Rightarrow> None
                  | Some (hi, chunk2) \<Rightarrow>
                      class_loop chunk2 r (Suc nrange) (matched \<or> (lo \<le> r \<and> r \<le> hi)))
               else class_loop chunk1 r (Suc nrange) (matched \<or> (lo \<le> r \<and> r \<le> lo)))"
  by pat_completeness auto
termination
  by (relation "measure (\<lambda>(chunk, r, n, m). length chunk)")
    (auto dest!: getEsc_length intro: less_trans le_less_trans)

declare class_loop.simps [simp del]

lemma class_loop_length:
  "class_loop chunk r n m = Some (rest, m') \<Longrightarrow> length rest < length chunk"
proof (induction chunk r n m rule: class_loop.induct)
  case (1 chunk r n m)
  show ?case
  proof (cases "chunk \<noteq> [] \<and> hd chunk = CHR '']'' \<and> n > 0")
    case True
    then show ?thesis using 1(3) by (subst (asm) class_loop.simps) auto
  next
    case False
    then obtain lo c1 where g: "getEsc chunk = Some (lo, c1)"
      using 1(3) by (subst (asm) class_loop.simps) (auto split: option.splits)
    note l1 = getEsc_length [OF g]
    show ?thesis
    proof (cases "hd c1 = CHR ''-''")
      case True
      then obtain hi c2 where h: "getEsc (tl c1) = Some (hi, c2)"
        using 1(3) False g by (subst (asm) class_loop.simps) (auto split: option.splits)
      have "length rest < length c2"
        using 1(1) [OF False g refl True h refl] 1(3) False g True h
        by (subst (asm) (2) class_loop.simps) auto
      then show ?thesis using getEsc_length [OF h] l1 by auto
    next
      case nd: False
      have "length rest < length c1"
        using 1(2) [OF False g refl nd] 1(3) False g nd by (subst (asm) (2) class_loop.simps) auto
      then show ?thesis using l1 by simp
    qed
  qed
qed

text \<open>
  \<open>matchChunk\<close>: \<open>None\<close> for a bad pattern, otherwise what is left of \<open>s\<close>, or \<open>Some None\<close> when
  the chunk does not match.
\<close>

function matchChunk_loop :: "bool \<Rightarrow> string \<Rightarrow> string \<Rightarrow> string option option" where
  "matchChunk_loop failed0 chunk s =
     (if chunk = [] then (if failed0 then Some None else Some (Some s))
      else
        let failed = (failed0 \<or> s = []); c = hd chunk
        in if c = CHR ''['' then
             let (r, n) = (if \<not> failed then DecodeRune s else (0, 0));
                 s' = (if \<not> failed then drop n s else s);
                 chunk1 = tl chunk;
                 negated = (chunk1 \<noteq> [] \<and> hd chunk1 = CHR ''^'');
                 chunk2 = (if negated then tl chunk1 else chunk1)
             in case class_loop chunk2 r 0 False of
                  None \<Rightarrow> None
                | Some (chunk3, m) \<Rightarrow> matchChunk_loop (failed \<or> m = negated) chunk3 s'
           else if c = CHR ''?'' then
             let s' = (if \<not> failed then drop (snd (DecodeRune s)) s else s)
             in matchChunk_loop (failed \<or> hd s = CHR ''/'') (tl chunk) s'
           else
             let chunk1 = (if c = CHR 0x5C then tl chunk else chunk)
             in if chunk1 = [] then None
                else matchChunk_loop (failed \<or> hd chunk1 \<noteq> hd s) (tl chunk1) (if \<not> failed then tl s else s))"
  by pat_completeness auto
termination
  by (relation "measure (\<lambda>(f, chunk, s). length chunk)")
    (auto dest!: class_loop_length simp: neq_Nil_conv split: if_splits)

declare matchChunk_loop.simps [simp del]

definition matchChunk :: "string \<Rightarrow> string \<Rightarrow> string option option" where
  "matchChunk chunk s = matchChunk_loop False chunk s"

text \<open>The loop that lets a star skip bytes, never over a slash.\<close>

fun star_loop :: "string \<Rightarrow> bool \<Rightarrow> string \<Rightarrow> string option option" where
  "star_loop chunk final [] = Some None"
| "star_loop chunk final (x # xs) =
     (if x = CHR ''/'' then Some None
      else case matchChunk chunk xs of
             None \<Rightarrow> None
           | Some (Some t) \<Rightarrow> if final \<and> t \<noteq> [] then star_loop chunk final xs else Some (Some t)
           | Some None \<Rightarrow> star_loop chunk final xs)"

lemma scan_loop_length: "length (fst (scan_loop b p)) + length (snd (scan_loop b p)) = length p"
  by (induction b p rule: scan_loop.induct) (simp_all add: case_prod_unfold Let_def split: list.split)

lemma scan_loop_progress:
  "p \<noteq> [] \<Longrightarrow> b \<or> hd p \<noteq> CHR ''*'' \<Longrightarrow> length (snd (scan_loop b p)) < length p"
proof -
  assume "p \<noteq> []" "b \<or> hd p \<noteq> CHR ''*''"
  then have "fst (scan_loop b p) \<noteq> []"
    by (cases p) (auto simp: case_prod_unfold Let_def split: list.split)
  then show "length (snd (scan_loop b p)) < length p"
    using scan_loop_length [of b p] by (cases "fst (scan_loop b p)") auto
qed

lemma scanChunk_progress:
  assumes "scanChunk p = (star, chunk, rest)" "p \<noteq> []" shows "length rest < length p"
proof -
  let ?q = "dropWhile (\<lambda>c. c = CHR ''*'') p"
  have r: "rest = snd (scan_loop False ?q)" using assms(1) by (auto simp: scanChunk_def Let_def split: prod.splits)
  show ?thesis
  proof (cases "?q = []")
    case True
    then have "rest = []" unfolding r by (simp only: scan_loop.simps snd_conv)
    then show ?thesis using assms(2) by simp
  next
    case False
    then have "hd ?q \<noteq> CHR ''*''" by (metis (mono_tags, lifting) hd_dropWhile)
    then have "length rest < length ?q" using scan_loop_progress [OF False, of False] r by simp
    then show ?thesis using length_dropWhile_le [of "\<lambda>c. c = CHR ''*''" p] by linarith
  qed
qed

text \<open>The check that the rest of a pattern is well-formed.\<close>

function valid_rest :: "string \<Rightarrow> bool option" where
  "valid_rest pattern =
     (if pattern = [] then Some False
      else let (star, chunk, rest) = scanChunk pattern
           in case matchChunk chunk [] of None \<Rightarrow> None | Some _ \<Rightarrow> valid_rest rest)"
  by pat_completeness auto
termination
  by (relation "measure length") (auto dest: scanChunk_progress [OF sym])

declare valid_rest.simps [simp del]

function path_Match :: "string \<Rightarrow> string \<Rightarrow> bool option" where
  "path_Match pattern name =
     (if pattern = [] then Some (name = [])
      else let (star, chunk, rest) = scanChunk pattern
           in if star \<and> chunk = [] then Some (CHR ''/'' \<notin> set name)
              else case matchChunk chunk name of
                     None \<Rightarrow> None
                   | Some res \<Rightarrow>
                       (case (case res of Some t \<Rightarrow> if t = [] \<or> rest \<noteq> [] then Some t else None | None \<Rightarrow> None) of
                          Some t \<Rightarrow> path_Match rest t
                        | None \<Rightarrow>
                            if star then
                              (case star_loop chunk (rest = []) name of
                                 None \<Rightarrow> None
                               | Some (Some t) \<Rightarrow> path_Match rest t
                               | Some None \<Rightarrow> valid_rest rest)
                            else valid_rest rest))"
  by pat_completeness auto
termination
  by (relation "measure (\<lambda>(p, n). length p)") (auto dest: scanChunk_progress [OF sym])

declare path_Match.simps [simp del]

section \<open>The meaning of a glob\<close>

text \<open>A plain pattern: no character class and no escape.\<close>

definition plain :: "string \<Rightarrow> bool" where
  "plain p \<longleftrightarrow> CHR ''['' \<notin> set p \<and> CHR 0x5C \<notin> set p"

definition ascii :: "string \<Rightarrow> bool" where
  "ascii s \<longleftrightarrow> (\<forall>c \<in> set s. (of_char c :: nat) < 128)"

text \<open>One pattern character against one byte.\<close>

definition accepts :: "char \<Rightarrow> char \<Rightarrow> bool" where
  "accepts c x \<longleftrightarrow> (if c = CHR ''?'' then x \<noteq> CHR ''/'' else x = c)"

text \<open>A star stands for any bytes but a slash, \<open>?\<close> for one byte but a slash.\<close>

fun glob :: "string \<Rightarrow> string \<Rightarrow> bool" where
  "glob [] s = (s = [])"
| "glob (c # p) s =
     (if c = CHR ''*'' then
        glob p s \<or> (case s of [] \<Rightarrow> False | x # xs \<Rightarrow> x \<noteq> CHR ''/'' \<and> glob (c # p) xs)
      else (case s of [] \<Rightarrow> False | x # xs \<Rightarrow> accepts c x \<and> glob p xs))"

declare glob.simps(2) [simp del]

fun eat :: "string \<Rightarrow> string \<Rightarrow> string option" where
  "eat [] s = Some s"
| "eat (c # cs) [] = None"
| "eat (c # cs) (x # xs) = (if accepts c x then eat cs xs else None)"

section \<open>Lemmas: chunks\<close>

lemma DecodeRune_ascii: "ascii s \<Longrightarrow> s \<noteq> [] \<Longrightarrow> snd (DecodeRune s) = 1"
  by (cases s) (auto simp: DecodeRune_def byte_at_def ascii_def Let_def)

lemma matchChunk_loop_eat:
  "plain chunk \<Longrightarrow> ascii s \<Longrightarrow> matchChunk_loop failed chunk s = Some (if failed then None else eat chunk s)"
proof (induction chunk arbitrary: failed s)
  case Nil
  then show ?case by (subst matchChunk_loop.simps) simp
next
  case (Cons c cs)
  have p: "plain cs" "c \<noteq> CHR ''[''" "c \<noteq> CHR 0x5C" using Cons.prems by (auto simp: plain_def)
  show ?case
  proof (cases "failed \<or> s = []")
    case True
    then show ?thesis
      using Cons.IH [OF p(1) Cons.prems(2), of True] p(2,3)
      by (subst matchChunk_loop.simps) (cases s; auto)
  next
    case False
    then obtain x xs where s: "s = x # xs" "\<not> failed" by (cases s) auto
    have a: "ascii xs" using Cons.prems(2) s by (simp add: ascii_def)
    have d: "drop (snd (DecodeRune (x # xs))) (x # xs) = xs"
      using DecodeRune_ascii [of s] Cons.prems(2) s by simp
    show ?thesis
      using Cons.IH [OF p(1) a] p(2,3) s d
      by (subst matchChunk_loop.simps) (auto simp: accepts_def Let_def)
  qed
qed

lemma matchChunk_eat: "plain chunk \<Longrightarrow> ascii s \<Longrightarrow> matchChunk chunk s = Some (eat chunk s)"
  by (simp add: matchChunk_def matchChunk_loop_eat)

lemma scan_loop_plain:
  "plain p \<Longrightarrow> scan_loop False p = (takeWhile (\<lambda>c. c \<noteq> CHR ''*'') p, dropWhile (\<lambda>c. c \<noteq> CHR ''*'') p)"
  by (induction p) (auto simp: plain_def)

lemma eat_Some:
  "eat chunk s = Some t \<longleftrightarrow>
     (\<exists>m. s = m @ t \<and> length m = length chunk \<and> (\<forall>i < length chunk. accepts (chunk ! i) (m ! i)))"
proof (induction chunk s rule: eat.induct)
  case (3 c cs x xs)
  show ?case
  proof
    assume "eat (c # cs) (x # xs) = Some t"
    then obtain m where "xs = m @ t" "length m = length cs" "\<forall>i < length cs. accepts (cs ! i) (m ! i)" "accepts c x"
      using 3 by (auto split: if_splits)
    then show "\<exists>m. x # xs = m @ t \<and> length m = length (c # cs) \<and>
        (\<forall>i < length (c # cs). accepts ((c # cs) ! i) (m ! i))"
      by (intro exI [of _ "x # m"]) (auto simp: nth_Cons split: nat.split)
  next
    assume "\<exists>m. x # xs = m @ t \<and> length m = length (c # cs) \<and>
        (\<forall>i < length (c # cs). accepts ((c # cs) ! i) (m ! i))"
    then obtain m where m: "x # xs = m @ t" "length m = Suc (length cs)"
      "\<forall>i < Suc (length cs). accepts ((c # cs) ! i) (m ! i)" by auto
    then obtain m' where m': "m = x # m'" by (cases m) auto
    then have "accepts c x" "\<forall>i < length cs. accepts (cs ! i) (m' ! i)" using m(3) by force+
    then show "eat (c # cs) (x # xs) = Some t" using m m' 3 by auto
  qed
qed auto

section \<open>Lemmas: globs\<close>

lemma glob_char:
  "CHR ''*'' \<noteq> c \<Longrightarrow> glob (c # p) s \<longleftrightarrow> (case s of [] \<Rightarrow> False | x # xs \<Rightarrow> accepts c x \<and> glob p xs)"
  by (subst glob.simps) simp

lemma glob_chunk:
  "CHR ''*'' \<notin> set chunk \<Longrightarrow>
   glob (chunk @ p) s \<longleftrightarrow> (case eat chunk s of None \<Rightarrow> False | Some t \<Rightarrow> glob p t)"
  by (induction chunk s rule: eat.induct) (simp_all add: glob_char)

lemma glob_star:
  "glob (CHR ''*'' # p) s \<longleftrightarrow> (\<exists>u t. s = u @ t \<and> CHR ''/'' \<notin> set u \<and> glob p t)"
proof (induction s)
  case Nil
  show ?case by (subst glob.simps) simp
next
  case (Cons x xs)
  have "glob (CHR ''*'' # p) (x # xs) \<longleftrightarrow> glob p (x # xs) \<or> x \<noteq> CHR ''/'' \<and> glob (CHR ''*'' # p) xs"
    by (subst glob.simps) simp
  also have "\<dots> \<longleftrightarrow> glob p (x # xs) \<or> x \<noteq> CHR ''/'' \<and> (\<exists>u t. xs = u @ t \<and> CHR ''/'' \<notin> set u \<and> glob p t)"
    using Cons by simp
  also have "\<dots> \<longleftrightarrow> (\<exists>u t. x # xs = u @ t \<and> CHR ''/'' \<notin> set u \<and> glob p t)"
  proof
    assume "glob p (x # xs) \<or> x \<noteq> CHR ''/'' \<and> (\<exists>u t. xs = u @ t \<and> CHR ''/'' \<notin> set u \<and> glob p t)"
    then show "\<exists>u t. x # xs = u @ t \<and> CHR ''/'' \<notin> set u \<and> glob p t"
    proof
      assume "x \<noteq> CHR ''/'' \<and> (\<exists>u t. xs = u @ t \<and> CHR ''/'' \<notin> set u \<and> glob p t)"
      then obtain u t where "xs = u @ t" "CHR ''/'' \<notin> set u" "glob p t" "x \<noteq> CHR ''/''" by blast
      then show ?thesis by (intro exI [of _ "x # u"] exI [of _ t]) simp
    qed (auto intro: exI [of _ "[]"])
  next
    assume "\<exists>u t. x # xs = u @ t \<and> CHR ''/'' \<notin> set u \<and> glob p t"
    then obtain u t where "x # xs = u @ t" "CHR ''/'' \<notin> set u" "glob p t" by blast
    then show "glob p (x # xs) \<or> x \<noteq> CHR ''/'' \<and> (\<exists>u t. xs = u @ t \<and> CHR ''/'' \<notin> set u \<and> glob p t)"
      by (cases u) auto
  qed
  finally show ?case .
qed

lemma glob_star_star: "glob (CHR ''*'' # CHR ''*'' # p) s = glob (CHR ''*'' # p) s"
proof -
  have "(\<exists>u t. s = u @ t \<and> CHR ''/'' \<notin> set u \<and> (\<exists>v w. t = v @ w \<and> CHR ''/'' \<notin> set v \<and> glob p w)) \<longleftrightarrow>
      (\<exists>u t. s = u @ t \<and> CHR ''/'' \<notin> set u \<and> glob p t)"
  proof
    assume "\<exists>u t. s = u @ t \<and> CHR ''/'' \<notin> set u \<and> (\<exists>v w. t = v @ w \<and> CHR ''/'' \<notin> set v \<and> glob p w)"
    then obtain u v w where "s = (u @ v) @ w" "CHR ''/'' \<notin> set (u @ v)" "glob p w" by auto
    then show "\<exists>u t. s = u @ t \<and> CHR ''/'' \<notin> set u \<and> glob p t" by blast
  next
    assume "\<exists>u t. s = u @ t \<and> CHR ''/'' \<notin> set u \<and> glob p t"
    then obtain u t where "s = u @ [] @ t" "CHR ''/'' \<notin> set u" "glob p t" by auto
    then show "\<exists>u t. s = u @ t \<and> CHR ''/'' \<notin> set u \<and> (\<exists>v w. t = v @ w \<and> CHR ''/'' \<notin> set v \<and> glob p w)"
      by (intro exI [of _ u] exI [of _ t]) (auto intro: exI [of _ "[]"])
  qed
  then show ?thesis by (simp only: glob_star)
qed

lemma glob_stars:
  "glob (CHR ''*'' # p) s = glob (CHR ''*'' # dropWhile (\<lambda>c. c = CHR ''*'') p) s"
proof (induction p)
  case (Cons c p)
  show ?case
  proof (cases "c = CHR ''*''")
    case True
    then have "glob (CHR ''*'' # c # p) s = glob (CHR ''*'' # p) s" by (simp only: glob_star_star)
    moreover have "dropWhile (\<lambda>c. c = CHR ''*'') (c # p) = dropWhile (\<lambda>c. c = CHR ''*'') p" using True by simp
    ultimately show ?thesis using Cons by (simp only:)
  qed simp
qed simp

section \<open>Lemmas: greedy matching\<close>

text \<open>A star may absorb more bytes, as long as there is no slash among them.\<close>

lemma glob_star_absorb:
  "glob (CHR ''*'' # p) t \<Longrightarrow> CHR ''/'' \<notin> set d \<Longrightarrow> glob (CHR ''*'' # p) (d @ t)"
proof -
  assume "glob (CHR ''*'' # p) t" "CHR ''/'' \<notin> set d"
  then obtain u w where "d @ t = (d @ u) @ w" "CHR ''/'' \<notin> set (d @ u)" "glob p w"
    by (auto simp only: glob_star append_assoc set_append Un_iff)
  then show ?thesis unfolding glob_star by blast
qed

text \<open>
  Two places of a chunk, both reachable without crossing a slash: the bytes by which the rests
  differ hold no slash.
\<close>

lemma chunk_shift:
  assumes s: "s = u @ m @ t" "s = u' @ m' @ t'" and len: "length u \<le> length u'"
    and u': "CHR ''/'' \<notin> set u'"
    and m: "length m = length chunk" "\<forall>i < length chunk. accepts (chunk ! i) (m ! i)"
    and m': "length m' = length chunk" "\<forall>i < length chunk. accepts (chunk ! i) (m' ! i)"
  shows "\<exists>d. t = d @ t' \<and> CHR ''/'' \<notin> set d"
proof -
  let ?n = "length chunk" and ?i = "length u" and ?j = "length u'"
  have at_m: "s ! (?i + q) = m ! q" if "q < ?n" for q using s(1) m(1) that by (simp add: nth_append)
  have at_m': "s ! (?j + q) = m' ! q" if "q < ?n" for q using s(2) m'(1) that by (simp add: nth_append)
  have at_u': "s ! q \<noteq> CHR ''/''" if "q < ?j" for q
    using s(2) that u' by (metis nth_append nth_mem)
  have slash: "chunk ! q = CHR ''/''" if "q < ?n" "m' ! q = CHR ''/''" for q
    using m'(2) that by (auto simp: accepts_def split: if_splits)
  have no: "chunk ! q \<noteq> CHR ''/''" if "q < ?n" "?i < ?j" for q
    using that
  proof (induction q rule: less_induct)
    case (less q)
    show ?case
    proof
      assume c: "chunk ! q = CHR ''/''"
      have "accepts (chunk ! q) (m ! q)" using m(2) less.prems(1) by blast
      then have "s ! (?i + q) = CHR ''/''" using c at_m less.prems by (simp add: accepts_def)
      then have ge: "?j \<le> ?i + q" using at_u' not_le by blast
      define r where "r = ?i + q - ?j"
      have r: "r < q" "?j + r = ?i + q" using ge less.prems by (auto simp: r_def)
      then have "m' ! r = CHR ''/''" using at_m' [of r] less.prems \<open>s ! (?i + q) = CHR ''/''\<close> by simp
      then have "chunk ! r = CHR ''/''" using slash r less.prems by simp
      then show False using less.IH [OF r(1)] r less.prems by simp
    qed
  qed
  define k where "k = ?j - ?i"
  have t: "t = drop (?i + ?n) s" using s(1) m(1) by simp
  have t': "t' = drop (?j + ?n) s" using s(2) m'(1) by simp
  have "t = take k t @ t'"
  proof -
    have "k + (?i + ?n) = ?j + ?n" using len by (simp add: k_def)
    then have "drop k t = t'" unfolding t t' drop_drop by (simp only:)
    then show ?thesis by (metis append_take_drop_id)
  qed
  moreover have "CHR ''/'' \<notin> set (take k t)"
  proof
    assume "CHR ''/'' \<in> set (take k t)"
    then obtain q where q: "q < k" "q < length t" "t ! q = CHR ''/''" by (auto simp: in_set_conv_nth)
    then have sq: "s ! (?i + ?n + q) = CHR ''/''" "?i + ?n + q < length s" using t by auto
    have lt: "?i < ?j" using q(1) by (simp add: k_def)
    have "?j \<le> ?i + ?n + q" using at_u' sq(1) not_le by blast
    then obtain r where r: "?i + ?n + q = ?j + r" using le_Suc_ex by blast
    then have "r < ?n" using q(1) by (simp add: k_def)
    then have "m' ! r = CHR ''/''" using at_m' sq(1) r by simp
    then show False using slash no [OF \<open>r < ?n\<close> lt] \<open>r < ?n\<close> by blast
  qed
  ultimately show ?thesis by blast
qed

text \<open>The leftmost place of a chunk is as good as any other before a further star.\<close>

lemma greedy:
  assumes "s = u @ a" "eat chunk a = Some t"
    and "s = u' @ a'" "CHR ''/'' \<notin> set u'" "eat chunk a' = Some t'" "length u \<le> length u'"
    and "glob (CHR ''*'' # p) t'"
  shows "glob (CHR ''*'' # p) t"
proof -
  obtain m where m: "a = m @ t" "length m = length chunk" "\<forall>i < length chunk. accepts (chunk ! i) (m ! i)"
    using assms(2) by (auto simp: eat_Some)
  obtain m' where m': "a' = m' @ t'" "length m' = length chunk" "\<forall>i < length chunk. accepts (chunk ! i) (m' ! i)"
    using assms(5) by (auto simp: eat_Some)
  obtain d where "t = d @ t'" "CHR ''/'' \<notin> set d"
    using chunk_shift [of s u m t u' m' t' chunk] assms m m' by auto
  then show ?thesis using glob_star_absorb [OF assms(7)] by simp
qed

text \<open>A place of a chunk after a non-empty run of skipped bytes, at the very end if \<open>final\<close>.\<close>

definition place :: "string \<Rightarrow> bool \<Rightarrow> string \<Rightarrow> string \<Rightarrow> string \<Rightarrow> bool" where
  "place chunk final s u t \<longleftrightarrow>
     u \<noteq> [] \<and> CHR ''/'' \<notin> set u \<and> (final \<longrightarrow> t = []) \<and> (\<exists>a. s = u @ a \<and> eat chunk a = Some t)"

lemma place_Nil: "\<not> place chunk final [] u t"
  by (simp add: place_def)

lemma place_Cons:
  "place chunk final (x # xs) u t \<longleftrightarrow> x \<noteq> CHR ''/'' \<and>
     (u = [x] \<and> eat chunk xs = Some t \<and> (final \<longrightarrow> t = []) \<or> (\<exists>v. u = x # v \<and> place chunk final xs v t))"
proof (cases u)
  case (Cons y v)
  then show ?thesis by (cases v) (auto simp: place_def)
qed (simp add: place_def)

lemma place_slash: "\<not> place chunk final (CHR ''/'' # xs) u t"
  by (simp add: place_Cons)

lemma star_loop_plain:
  assumes "plain chunk" "ascii s"
  shows "case star_loop chunk final s of
      None \<Rightarrow> False
    | Some None \<Rightarrow> \<forall>u t. \<not> place chunk final s u t
    | Some (Some t) \<Rightarrow> \<exists>u. place chunk final s u t \<and> (\<forall>u' t'. place chunk final s u' t' \<longrightarrow> length u \<le> length u')"
  using assms(2)
proof (induction s)
  case (Cons x xs)
  have a: "ascii xs" using Cons.prems by (simp add: ascii_def)
  note mc = matchChunk_eat [OF assms(1) a]
  show ?case
  proof (cases "x = CHR ''/''")
    case True
    then show ?thesis by (simp add: place_slash)
  next
    case x: False
    show ?thesis
    proof (cases "\<exists>t. eat chunk xs = Some t \<and> (final \<longrightarrow> t = [])")
      case True
      then obtain t where t: "eat chunk xs = Some t" "final \<longrightarrow> t = []" by blast
      then have "star_loop chunk final (x # xs) = Some (Some t)" using x mc by auto
      moreover have "place chunk final (x # xs) [x] t" using t x by (simp add: place_Cons)
      moreover have "length [x] \<le> length u'" if "place chunk final (x # xs) u' t'" for u' t'
        using that by (auto simp: place_Cons)
      ultimately show ?thesis by auto
    next
      case no: False
      then have e: "star_loop chunk final (x # xs) = star_loop chunk final xs"
        using x mc by (cases "eat chunk xs") auto
      have p: "place chunk final (x # xs) u t \<longleftrightarrow> (\<exists>v. u = x # v \<and> place chunk final xs v t)" for u t
        using no x by (auto simp: place_Cons)
      show ?thesis
      proof (cases "\<exists>t. star_loop chunk final xs = Some (Some t)")
        case True
        then obtain t u where t: "star_loop chunk final xs = Some (Some t)" and u: "place chunk final xs u t"
          "\<forall>u' t'. place chunk final xs u' t' \<longrightarrow> length u \<le> length u'"
          using Cons.IH [OF a] by auto
        have "place chunk final (x # xs) (x # u) t \<and>
            (\<forall>u' t'. place chunk final (x # xs) u' t' \<longrightarrow> length (x # u) \<le> length u')"
          using u by (auto simp: p)
        then show ?thesis unfolding e t by (simp only: option.case) blast
      next
        case False
        then have "star_loop chunk final xs = Some None" using Cons.IH [OF a] by (auto split: option.splits)
        then show ?thesis using Cons.IH [OF a] unfolding e by (auto simp: p)
      qed
    qed
  qed
qed (simp add: place_Nil)

lemma valid_rest_plain: "plain p \<Longrightarrow> valid_rest p = Some False"
proof (induction p rule: valid_rest.induct)
  case (1 p)
  show ?case
  proof (cases "p = []")
    case True
    then show ?thesis by (subst valid_rest.simps) simp
  next
    case False
    obtain star chunk rest where s: "scanChunk p = (star, chunk, rest)" by (cases "scanChunk p")
    let ?q = "dropWhile (\<lambda>c. c = CHR ''*'') p"
    have q: "plain ?q" using 1(2) by (auto simp: plain_def dest: set_dropWhileD)
    have "chunk = takeWhile (\<lambda>c. c \<noteq> CHR ''*'') ?q" "rest = dropWhile (\<lambda>c. c \<noteq> CHR ''*'') ?q"
      using s scan_loop_plain [OF q] by (auto simp: scanChunk_def Let_def)
    then have "plain chunk" "plain rest"
      using q by (auto simp: plain_def dest: set_takeWhileD set_dropWhileD)
    moreover have "matchChunk chunk [] = Some (eat chunk [])"
      by (rule matchChunk_eat) (simp_all add: \<open>plain chunk\<close> ascii_def)
    ultimately show ?thesis using False s 1(1) [OF False s [symmetric] refl] by (subst valid_rest.simps) auto
  qed
qed

lemma scanChunk_plain:
  assumes "plain p" "scanChunk p = (star, chunk, rest)"
  shows "plain chunk" "plain rest" "CHR ''*'' \<notin> set chunk" "rest = [] \<or> (\<exists>r. rest = CHR ''*'' # r)"
    "glob p s \<longleftrightarrow> (if star then glob (CHR ''*'' # chunk @ rest) s else glob (chunk @ rest) s)"
proof -
  let ?q = "dropWhile (\<lambda>c. c = CHR ''*'') p"
  have q: "plain ?q" using assms(1) by (auto simp: plain_def dest: set_dropWhileD)
  have c: "chunk = takeWhile (\<lambda>c. c \<noteq> CHR ''*'') ?q" "rest = dropWhile (\<lambda>c. c \<noteq> CHR ''*'') ?q"
    and star: "star \<longleftrightarrow> p \<noteq> [] \<and> hd p = CHR ''*''"
    using assms(2) scan_loop_plain [OF q] by (auto simp: scanChunk_def Let_def)
  show "plain chunk" "plain rest" using c q by (auto simp: plain_def dest: set_takeWhileD set_dropWhileD)
  show "CHR ''*'' \<notin> set chunk" using c by (auto dest: set_takeWhileD)
  show "rest = [] \<or> (\<exists>r. rest = CHR ''*'' # r)"
  proof (cases rest)
    case (Cons x r)
    then have "hd rest = CHR ''*''" using hd_dropWhile [of "\<lambda>c. c \<noteq> CHR ''*''" ?q] c(2) by auto
    then show ?thesis using Cons by simp
  qed simp
  have cr: "chunk @ rest = ?q" unfolding c by (rule takeWhile_dropWhile_id)
  show "glob p s \<longleftrightarrow> (if star then glob (CHR ''*'' # chunk @ rest) s else glob (chunk @ rest) s)"
  proof (cases p)
    case (Cons x p')
    show ?thesis
    proof (cases "x = CHR ''*''")
      case True
      then have "?q = dropWhile (\<lambda>c. c = CHR ''*'') p'" by (simp add: Cons)
      then show ?thesis using glob_stars [of p' s] Cons True star unfolding cr by simp
    next
      case False
      then show ?thesis using Cons star unfolding cr by simp
    qed
  qed (simp add: c star)
qed

lemma scanChunk_star_only:
  assumes "plain p" "scanChunk p = (star, [], rest)"
  shows "rest = dropWhile (\<lambda>c. c = CHR ''*'') p"
proof -
  let ?q = "dropWhile (\<lambda>c. c = CHR ''*'') p"
  have q: "plain ?q" using assms(1) by (auto simp: plain_def dest: set_dropWhileD)
  have "[] = takeWhile (\<lambda>c. c \<noteq> CHR ''*'') ?q" "rest = dropWhile (\<lambda>c. c \<noteq> CHR ''*'') ?q"
    using assms(2) scan_loop_plain [OF q] by (auto simp: scanChunk_def Let_def)
  then show ?thesis using takeWhile_dropWhile_id [of "\<lambda>c. c \<noteq> CHR ''*''" ?q] by simp
qed

text \<open>A star before a chunk: the chunk sits here or after some skipped bytes.\<close>

lemma glob_star_chunk:
  assumes "CHR ''*'' \<notin> set chunk"
  shows "glob (CHR ''*'' # chunk @ rest) s \<longleftrightarrow>
    (\<exists>t. eat chunk s = Some t \<and> glob rest t) \<or> (\<exists>u t. place chunk False s u t \<and> glob rest t)"
proof
  assume "glob (CHR ''*'' # chunk @ rest) s"
  then obtain u a where u: "s = u @ a" "CHR ''/'' \<notin> set u" "glob (chunk @ rest) a" by (auto simp: glob_star)
  then obtain t where t: "eat chunk a = Some t" "glob rest t"
    using glob_chunk [OF assms] by (auto split: option.splits)
  show "(\<exists>t. eat chunk s = Some t \<and> glob rest t) \<or> (\<exists>u t. place chunk False s u t \<and> glob rest t)"
    using u t by (cases "u = []") (auto simp: place_def)
next
  assume "(\<exists>t. eat chunk s = Some t \<and> glob rest t) \<or> (\<exists>u t. place chunk False s u t \<and> glob rest t)"
  then obtain u a t where "s = u @ a" "CHR ''/'' \<notin> set u" "eat chunk a = Some t" "glob rest t"
    by (fastforce simp: place_def)
  then have "s = u @ a \<and> CHR ''/'' \<notin> set u \<and> glob (chunk @ rest) a"
    using glob_chunk [OF assms, of rest a] by simp
  then show "glob (CHR ''*'' # chunk @ rest) s" unfolding glob_star by blast
qed

text \<open>The first place a star finds decides the rest of the pattern.\<close>

lemma first_place_decides:
  assumes rest: "rest = [] \<or> (\<exists>r. rest = CHR ''*'' # r)"
    and here: "case eat chunk s of None \<Rightarrow> True | Some t \<Rightarrow> rest = [] \<and> t \<noteq> []"
    and u: "place chunk (rest = []) s u t" "\<forall>u' t'. place chunk (rest = []) s u' t' \<longrightarrow> length u \<le> length u'"
    and free: "CHR ''*'' \<notin> set chunk"
  shows "glob (CHR ''*'' # chunk @ rest) s \<longleftrightarrow> glob rest t"
proof (cases "rest = []")
  case True
  then have "glob rest t" using u(1) by (simp add: place_def)
  moreover have "place chunk False s u t" using u(1) by (auto simp: place_def)
  ultimately show ?thesis using glob_star_chunk [OF free] by blast
next
  case False
  then obtain r where r: "rest = CHR ''*'' # r" using rest by blast
  have n: "eat chunk s = None" using here False by (auto split: option.splits)
  have ut: "place chunk False s u t" using u(1) False by simp
  have "glob rest t" if pl: "place chunk False s u' t'" and gl: "glob rest t'" for u' t'
  proof -
    obtain a where a: "s = u @ a" "eat chunk a = Some t" using ut by (auto simp: place_def)
    obtain a' where a': "s = u' @ a'" "CHR ''/'' \<notin> set u'" "eat chunk a' = Some t'"
      using pl by (auto simp: place_def)
    have "length u \<le> length u'" using u(2) pl False by auto
    then show ?thesis using greedy [OF a a' _ gl [unfolded r]] r by simp
  qed
  then show ?thesis using glob_star_chunk [OF free, of rest s] n ut by auto
qed

text \<open>When the chunk matches here, before a further star, no other place can do better.\<close>

lemma here_decides:
  assumes "rest = [] \<or> (\<exists>r. rest = CHR ''*'' # r)" "eat chunk s = Some t" "t = [] \<or> rest \<noteq> []"
    and free: "CHR ''*'' \<notin> set chunk"
  shows "glob (CHR ''*'' # chunk @ rest) s \<longleftrightarrow> glob rest t"
proof (cases "rest = []")
  case True
  then show ?thesis using glob_star_chunk [OF free, of "[]" s] assms by auto
next
  case False
  then obtain r where r: "rest = CHR ''*'' # r" using assms(1) by blast
  have "glob rest t" if pl: "place chunk False s u' t'" and gl: "glob rest t'" for u' t'
  proof -
    obtain a' where a': "s = u' @ a'" "CHR ''/'' \<notin> set u'" "eat chunk a' = Some t'"
      using pl by (auto simp: place_def)
    show ?thesis using greedy [of s "[]" s chunk t u' a' t' r] assms(2) a' gl r by simp
  qed
  then show ?thesis using glob_star_chunk [OF free, of rest s] assms(2) by auto
qed

lemma eat_ascii: "eat chunk s = Some t \<Longrightarrow> ascii s \<Longrightarrow> ascii t"
  by (auto simp: eat_Some ascii_def)

lemma place_ascii: "place chunk final s u t \<Longrightarrow> ascii s \<Longrightarrow> ascii t"
  by (auto simp: place_def ascii_def eat_Some)

lemma glob_only_star: "glob [CHR ''*''] s \<longleftrightarrow> CHR ''/'' \<notin> set s"
  by (auto simp: glob_star)

text \<open>A round of the main loop on a plain pattern: it goes on with the rest of the pattern at the place
  the chunk was found, or ends in failure.\<close>

lemma path_Match_star_only:
  assumes "plain p" "p \<noteq> []" "scanChunk p = (star, chunk, rest)" "star \<and> chunk = []"
  shows "path_Match p s = Some (glob p s)"
proof -
  have "rest = []"
  proof (rule ccontr)
    assume "rest \<noteq> []"
    then obtain r where "rest = CHR ''*'' # r" using scanChunk_plain(4) [OF assms(1,3)] by blast
    moreover have "rest = dropWhile (\<lambda>c. c = CHR ''*'') p"
      using scanChunk_star_only [OF assms(1)] assms(3,4) by simp
    ultimately show False
      using hd_dropWhile [of "\<lambda>c. c = CHR ''*''" p] by (metis list.distinct(1) list.sel(1))
  qed
  then show ?thesis
    using assms scanChunk_plain(5) [OF assms(1,3), of s] glob_only_star by (subst path_Match.simps) simp
qed

lemma path_Match_round:
  assumes p: "plain p" and s: "ascii s" and ne: "p \<noteq> []" and sc: "scanChunk p = (star, chunk, rest)"
    and sch: "\<not> (star \<and> chunk = [])"
  shows "path_Match p s =
    (case (case eat chunk s of Some t \<Rightarrow> if t = [] \<or> rest \<noteq> [] then Some t else None | None \<Rightarrow> None) of
       Some t \<Rightarrow> path_Match rest t
     | None \<Rightarrow> (case (if star then star_loop chunk (rest = []) s else Some None) of
                 None \<Rightarrow> None | Some (Some t) \<Rightarrow> path_Match rest t | Some None \<Rightarrow> Some False))"
  using ne sc sch matchChunk_eat [OF scanChunk_plain(1) [OF p sc] s] valid_rest_plain [OF scanChunk_plain(2) [OF p sc]]
  by (subst path_Match.simps) (auto split: option.splits)

text \<open>No place for the chunk: the specification fails as well.\<close>

lemma no_place_no_match:
  assumes p: "plain p" and s: "ascii s" and sc: "scanChunk p = (star, chunk, rest)"
    and here: "case eat chunk s of None \<Rightarrow> True | Some t \<Rightarrow> rest = [] \<and> t \<noteq> []"
    and none: "star \<Longrightarrow> star_loop chunk (rest = []) s = Some None"
  shows "\<not> glob p s"
proof
  assume g: "glob p s"
  note P = scanChunk_plain [OF p sc]
  have nh: "\<not> (\<exists>t. eat chunk s = Some t \<and> glob rest t)" using here by (auto split: option.splits)
  show False
  proof (cases star)
    case True
    then obtain u t where "place chunk False s u t" "glob rest t"
      using g P(5) [of s] glob_star_chunk [OF P(3)] nh by auto
    then have "place chunk (rest = []) s u t" by (auto simp: place_def)
    then show False using star_loop_plain [OF P(1) s, of "rest = []"] none [OF True] by simp
  next
    case False
    then show False using g P(5) [of s] glob_chunk [OF P(3), of rest s] nh by (auto split: option.splits)
  qed
qed

lemma path_Match_glob: "plain p \<Longrightarrow> ascii s \<Longrightarrow> path_Match p s = Some (glob p s)"
proof (induction "length p" arbitrary: p s rule: less_induct)
  case less
  show ?case
  proof (cases "p = []")
    case True
    then show ?thesis by (subst path_Match.simps) simp
  next
    case ne: False
    obtain star chunk rest where sc: "scanChunk p = (star, chunk, rest)" by (cases "scanChunk p")
    note P = scanChunk_plain [OF less.prems(1) sc] and lt = scanChunk_progress [OF sc ne]
    note R = path_Match_round [OF less.prems ne sc]
    let ?res = "case eat chunk s of Some t \<Rightarrow> if t = [] \<or> rest \<noteq> [] then Some t else None | None \<Rightarrow> None"
    consider (star) "star \<and> chunk = []" | (here) t where "\<not> (star \<and> chunk = [])" "?res = Some t"
      | (away) "\<not> (star \<and> chunk = [])" "?res = None" by (cases ?res) auto
    then show ?thesis
    proof cases
      case star
      then show ?thesis using path_Match_star_only [OF less.prems(1) ne sc] by blast
    next
      case here
      then have t: "eat chunk s = Some t" "t = [] \<or> rest \<noteq> []" by (auto split: option.splits if_splits)
      have "path_Match rest t = Some (glob rest t)"
        by (rule less.hyps [OF lt P(2) eat_ascii [OF t(1) less.prems(2)]])
      then show ?thesis
        using R here here_decides [OF P(4) t P(3)] glob_chunk [OF P(3), of rest s] t(1) P(5) [of s] by simp
    next
      case away
      then have out: "case eat chunk s of None \<Rightarrow> True | Some t \<Rightarrow> rest = [] \<and> t \<noteq> []"
        by (auto split: option.splits if_splits)
      note L = star_loop_plain [OF P(1) less.prems(2), of "rest = []"]
      show ?thesis
      proof (cases "\<exists>t. star \<and> star_loop chunk (rest = []) s = Some (Some t)")
        case True
        then obtain t u where t: "star" "star_loop chunk (rest = []) s = Some (Some t)"
          and u: "place chunk (rest = []) s u t" "\<forall>u' t'. place chunk (rest = []) s u' t' \<longrightarrow> length u \<le> length u'"
          using L by auto
        have "path_Match rest t = Some (glob rest t)"
          by (rule less.hyps [OF lt P(2) place_ascii [OF u(1) less.prems(2)]])
        then show ?thesis
          using R away t first_place_decides [OF P(4) out u P(3)] P(5) [of s] by simp
      next
        case False
        then have n: "star \<Longrightarrow> star_loop chunk (rest = []) s = Some None" using L by (auto split: option.splits)
        then show ?thesis
          using R away no_place_no_match [OF less.prems sc out n] by (cases star) simp_all
      qed
    qed
  qed
qed

end
