(* ===== verification/Pubsub.thy ===== *)
theory Pubsub
  imports Path_Match
begin

text \<open>
  The event broker, \<open>src/internal/pubsub/broker.go\<close>, \<open>subscription.go\<close> and \<open>event.go\<close>: subscriptions
  with a buffered channel each, non-blocking dispatch, the hooks and the shutdown.

  The broker and its clients share the \<open>*Subscription\<close> objects, so these live in an explicit store,
  \<open>heap\<close>, and a pointer is an index into it. A panic (a send on a closed channel, a second
  \<open>close\<close>) is the value \<open>None\<close>. A hook is a callback of the application and is named by a number;
  firing the hooks answers the calls that are made, in order. The mutex of the broker makes its
  operations atomic; \<open>Close\<close>, which a client calls on its own pointer, does not take it, so the two
  steps that \<open>Publish\<close> makes for one subscription are also given on their own, \<open>publish_check\<close>
  and \<open>publish_send\<close>.
\<close>

section \<open>Definitions\<close>

text \<open>A buffered channel; \<open>select { case ch <- v: default: }\<close>, \<open>close(ch)\<close> and a receive that does not wait.\<close>

record 'a chan =
  chBuf :: "'a list"
  chCap :: nat
  chClosed :: bool

definition chan_trysend :: "'a \<Rightarrow> 'a chan \<Rightarrow> 'a chan option" where
  "chan_trysend v c =
     (if chClosed c then None
      else if length (chBuf c) < chCap c then Some (c\<lparr>chBuf := chBuf c @ [v]\<rparr>)
      else Some c)"

definition chan_close :: "'a chan \<Rightarrow> 'a chan option" where
  "chan_close c = (if chClosed c then None else Some (c\<lparr>chClosed := True\<rparr>))"

datatype 'a received = Got 'a | Drained | Empty

definition chan_recv :: "'a chan \<Rightarrow> 'a received \<times> 'a chan" where
  "chan_recv c =
     (case chBuf c of
        v # rest \<Rightarrow> (Got v, c\<lparr>chBuf := rest\<rparr>)
      | [] \<Rightarrow> (if chClosed c then Drained else Empty, c))"

type_synonym EventType = string

definition EventSet :: EventType where "EventSet = ''set''"
definition EventDelete :: EventType where "EventDelete = ''delete''"
definition EventExpire :: EventType where "EventExpire = ''expire''"
definition EventEvict :: EventType where "EventEvict = ''evict''"

record Event =
  evType :: EventType
  evKey :: string
  evValue :: bytes
  evTimestamp :: "instant option"
  evNodeName :: string

record Subscription =
  subID :: uint64
  subPattern :: string
  subCh :: "Event chan"
  subDone :: bool
  subClosed :: bool

definition defaultBufSize :: nat where
  "defaultBufSize = 256"

definition newSubscription :: "uint64 \<Rightarrow> string \<Rightarrow> nat \<Rightarrow> Subscription" where
  "newSubscription sid pattern bufSize =
     \<lparr>subID = sid, subPattern = pattern, subCh = \<lparr>chBuf = [], chCap = bufSize, chClosed = False\<rparr>,
      subDone = False, subClosed = False\<rparr>"

text \<open>\<open>Close\<close>: the flag, then \<open>close(done)\<close>, then \<open>close(ch)\<close>. \<open>subDone\<close> tells that \<open>done\<close> is closed.\<close>

definition sub_Close :: "Subscription \<Rightarrow> Subscription option" where
  "sub_Close s =
     (if \<not> subClosed s then
        if subDone s then None
        else case chan_close (subCh s) of
               None \<Rightarrow> None
             | Some c \<Rightarrow> Some (s\<lparr>subClosed := True, subDone := True, subCh := c\<rparr>)
      else Some s)"

text \<open>\<open>matched, _ := path.Match(...)\<close>: a malformed pattern matches nothing.\<close>

definition sub_matches :: "Subscription \<Rightarrow> string \<Rightarrow> bool" where
  "sub_matches s key = (case path_Match (subPattern s) key of Some matched \<Rightarrow> matched | None \<Rightarrow> False)"

type_synonym hook = nat

record Broker =
  heap :: "Subscription list"
  subscriptions :: "(uint64, nat) gomap"
  nextID :: uint64
  onHit :: "hook list"
  onMiss :: "hook list"
  onEvict :: "hook list"
  onSet :: "hook list"
  onDelete :: "hook list"

definition NewBroker :: Broker where
  "NewBroker = \<lparr>heap = [], subscriptions = [], nextID = 0,
     onHit = [], onMiss = [], onEvict = [], onSet = [], onDelete = []\<rparr>"

text \<open>\<open>Subscribe\<close> answers the pointer to the new subscription.\<close>

definition Subscribe :: "string \<Rightarrow> Broker \<Rightarrow> nat \<times> Broker" where
  "Subscribe pattern b =
     (let sid = nextID b + 1; sub = newSubscription sid pattern defaultBufSize; r = length (heap b)
      in (r, b\<lparr>nextID := sid, heap := heap b @ [sub], subscriptions := gm_set sid r (subscriptions b)\<rparr>))"

definition Unsubscribe :: "uint64 \<Rightarrow> Broker \<Rightarrow> Broker option" where
  "Unsubscribe sid b =
     (case gm_get (subscriptions b) sid of
        None \<Rightarrow> Some b
      | Some r \<Rightarrow>
          (case sub_Close (heap b ! r) of
             None \<Rightarrow> None
           | Some s \<Rightarrow> Some (b\<lparr>heap := (heap b)[r := s], subscriptions := gm_del sid (subscriptions b)\<rparr>)))"

text \<open>The two steps of the loop body of \<open>Publish\<close>.\<close>

definition publish_check :: "Event \<Rightarrow> nat \<Rightarrow> Subscription list \<Rightarrow> bool" where
  "publish_check event r h \<longleftrightarrow> \<not> subClosed (h ! r) \<and> sub_matches (h ! r) (evKey event)"

definition publish_send :: "Event \<Rightarrow> nat \<Rightarrow> Subscription list \<Rightarrow> Subscription list option" where
  "publish_send event r h =
     (case chan_trysend event (subCh (h ! r)) of
        None \<Rightarrow> None
      | Some c \<Rightarrow> Some (h[r := (h ! r)\<lparr>subCh := c\<rparr>]))"

fun publish_loop :: "Event \<Rightarrow> nat list \<Rightarrow> Subscription list \<Rightarrow> Subscription list option" where
  "publish_loop event [] h = Some h"
| "publish_loop event (r # rs) h =
     (if publish_check event r h then
        (case publish_send event r h of None \<Rightarrow> None | Some h' \<Rightarrow> publish_loop event rs h')
      else publish_loop event rs h)"

definition stamp :: "instant \<Rightarrow> Event \<Rightarrow> Event" where
  "stamp now event = (if evTimestamp event = None then event\<lparr>evTimestamp := Some now\<rparr> else event)"

definition Publish :: "instant \<Rightarrow> Event \<Rightarrow> Broker \<Rightarrow> Broker option" where
  "Publish now event b =
     (case publish_loop (stamp now event) (map snd (subscriptions b)) (heap b) of
        None \<Rightarrow> None
      | Some h \<Rightarrow> Some (b\<lparr>heap := h\<rparr>))"

definition OnHit :: "hook \<Rightarrow> Broker \<Rightarrow> Broker" where
  "OnHit fn b = b\<lparr>onHit := onHit b @ [fn]\<rparr>"

definition OnMiss :: "hook \<Rightarrow> Broker \<Rightarrow> Broker" where
  "OnMiss fn b = b\<lparr>onMiss := onMiss b @ [fn]\<rparr>"

definition OnEvict :: "hook \<Rightarrow> Broker \<Rightarrow> Broker" where
  "OnEvict fn b = b\<lparr>onEvict := onEvict b @ [fn]\<rparr>"

definition OnSet :: "hook \<Rightarrow> Broker \<Rightarrow> Broker" where
  "OnSet fn b = b\<lparr>onSet := onSet b @ [fn]\<rparr>"

definition OnDelete :: "hook \<Rightarrow> Broker \<Rightarrow> Broker" where
  "OnDelete fn b = b\<lparr>onDelete := onDelete b @ [fn]\<rparr>"

text \<open>The calls the hooks receive.\<close>

datatype call =
    HitCall hook string
  | MissCall hook string
  | EvictCall hook string bytes
  | SetCall hook string bytes
  | DeleteCall hook string

definition FireHit :: "string \<Rightarrow> Broker \<Rightarrow> call list" where
  "FireHit key b = map (\<lambda>fn. HitCall fn key) (onHit b)"

definition FireMiss :: "string \<Rightarrow> Broker \<Rightarrow> call list" where
  "FireMiss key b = map (\<lambda>fn. MissCall fn key) (onMiss b)"

definition FireEvict :: "string \<Rightarrow> bytes \<Rightarrow> Broker \<Rightarrow> call list" where
  "FireEvict key val b = map (\<lambda>fn. EvictCall fn key val) (onEvict b)"

definition FireSet :: "string \<Rightarrow> bytes \<Rightarrow> Broker \<Rightarrow> call list" where
  "FireSet key val b = map (\<lambda>fn. SetCall fn key val) (onSet b)"

definition FireDelete :: "string \<Rightarrow> Broker \<Rightarrow> call list" where
  "FireDelete key b = map (\<lambda>fn. DeleteCall fn key) (onDelete b)"

text \<open>The loop of \<open>Shutdown\<close> deletes every entry it visits.\<close>

fun shutdown_loop :: "nat list \<Rightarrow> Subscription list \<Rightarrow> Subscription list option" where
  "shutdown_loop [] h = Some h"
| "shutdown_loop (r # rs) h =
     (case sub_Close (h ! r) of None \<Rightarrow> None | Some s \<Rightarrow> shutdown_loop rs (h[r := s]))"

definition broker_Shutdown :: "Broker \<Rightarrow> Broker option" where
  "broker_Shutdown b =
     (case shutdown_loop (map snd (subscriptions b)) (heap b) of
        None \<Rightarrow> None
      | Some h \<Rightarrow> Some (b\<lparr>heap := h, subscriptions := []\<rparr>))"

text \<open>What a client does through its pointer: \<open>sub.Close()\<close> and a receive from \<open>sub.Events()\<close>.\<close>

definition client_Close :: "nat \<Rightarrow> Broker \<Rightarrow> Broker option" where
  "client_Close r b =
     (case sub_Close (heap b ! r) of None \<Rightarrow> None | Some s \<Rightarrow> Some (b\<lparr>heap := (heap b)[r := s]\<rparr>))"

definition client_recv :: "nat \<Rightarrow> Broker \<Rightarrow> Event received \<times> Broker" where
  "client_recv r b =
     (let (got, c) = chan_recv (subCh (heap b ! r))
      in (got, b\<lparr>heap := (heap b)[r := (heap b ! r)\<lparr>subCh := c\<rparr>]\<rparr>))"

section \<open>The specification\<close>

text \<open>A run of the broker and its clients. A client uses only pointers that \<open>Subscribe\<close> gave it.\<close>

datatype broker_op =
    OpSubscribe string
  | OpUnsubscribe uint64
  | OpPublish instant Event
  | OpClose nat
  | OpRecv nat
  | OpShutdown

fun broker_step :: "broker_op \<Rightarrow> Broker \<Rightarrow> Broker option" where
  "broker_step (OpSubscribe pattern) b = Some (snd (Subscribe pattern b))"
| "broker_step (OpUnsubscribe sid) b = Unsubscribe sid b"
| "broker_step (OpPublish now event) b = Publish now event b"
| "broker_step (OpClose r) b = (if r < length (heap b) then client_Close r b else Some b)"
| "broker_step (OpRecv r) b = (if r < length (heap b) then Some (snd (client_recv r b)) else Some b)"
| "broker_step OpShutdown b = broker_Shutdown b"

fun broker_run :: "broker_op list \<Rightarrow> Broker \<Rightarrow> Broker option" where
  "broker_run [] b = Some b"
| "broker_run (a # as) b = (case broker_step a b of None \<Rightarrow> None | Some b' \<Rightarrow> broker_run as b')"

text \<open>The specification: mailboxes with a pattern, a flag and a queue of at most 256 events.\<close>

record mailbox =
  mbPattern :: string
  mbOpen :: bool
  mbQueue :: "Event list"

definition mb_accept :: "Event \<Rightarrow> mailbox \<Rightarrow> mailbox" where
  "mb_accept event m =
     (if mbOpen m \<and> path_Match (mbPattern m) (evKey event) = Some True \<and> length (mbQueue m) < 256
      then m\<lparr>mbQueue := mbQueue m @ [event]\<rparr> else m)"

definition mb_close :: "mailbox \<Rightarrow> mailbox" where
  "mb_close m = m\<lparr>mbOpen := False\<rparr>"

definition at_index :: "nat \<Rightarrow> ('a \<Rightarrow> 'a) \<Rightarrow> 'a list \<Rightarrow> 'a list" where
  "at_index i f xs = (if i < length xs then xs[i := f (xs ! i)] else xs)"

fun mail_step :: "broker_op \<Rightarrow> mailbox list \<Rightarrow> mailbox list" where
  "mail_step (OpSubscribe pattern) ms = ms @ [\<lparr>mbPattern = pattern, mbOpen = True, mbQueue = []\<rparr>]"
| "mail_step (OpUnsubscribe sid) ms = (if sid = 0 then ms else at_index (unat sid - 1) mb_close ms)"
| "mail_step (OpPublish now event) ms = map (mb_accept (stamp now event)) ms"
| "mail_step (OpClose r) ms = at_index r mb_close ms"
| "mail_step (OpRecv r) ms = at_index r (\<lambda>m. m\<lparr>mbQueue := tl (mbQueue m)\<rparr>) ms"
| "mail_step OpShutdown ms = map mb_close ms"

definition mail_run :: "broker_op list \<Rightarrow> mailbox list \<Rightarrow> mailbox list" where
  "mail_run ops ms = foldl (\<lambda>ms a. mail_step a ms) ms ops"

definition mailbox_of :: "Subscription \<Rightarrow> mailbox" where
  "mailbox_of s = \<lparr>mbPattern = subPattern s, mbOpen = (\<not> subClosed s), mbQueue = chBuf (subCh s)\<rparr>"

text \<open>
  The invariant: the three marks of a closed subscription agree, a buffer is never over its capacity,
  the map leads to distinct subscriptions of the store, to every open one, and to the one with the
  identifier of the entry.
\<close>

definition sub_inv :: "Subscription \<Rightarrow> bool" where
  "sub_inv s \<longleftrightarrow> chClosed (subCh s) = subClosed s \<and> subDone s = subClosed s \<and>
     chCap (subCh s) = defaultBufSize \<and> length (chBuf (subCh s)) \<le> chCap (subCh s)"

definition broker_inv :: "Broker \<Rightarrow> bool" where
  "broker_inv b \<longleftrightarrow> (\<forall>s \<in> set (heap b). sub_inv s) \<and> gm_wf (subscriptions b) \<and>
     (\<forall>sid r. gm_get (subscriptions b) sid = Some r \<longrightarrow> r < length (heap b) \<and> unat sid = Suc r) \<and>
     (\<forall>r < length (heap b). \<not> subClosed (heap b ! r) \<longrightarrow> (\<exists>sid. gm_get (subscriptions b) sid = Some r)) \<and>
     nextID b = of_nat (length (heap b))"

section \<open>Lemmas\<close>

lemma sub_inv_new: "sub_inv (newSubscription sid p defaultBufSize)"
  by (simp add: sub_inv_def newSubscription_def)

lemma sub_Close_ok:
  assumes "sub_inv s"
  obtains s' where "sub_Close s = Some s'" "sub_inv s'" "subClosed s'" "mailbox_of s' = mb_close (mailbox_of s)"
  using assms that
  by (cases "subClosed s") (auto simp: sub_Close_def sub_inv_def chan_close_def mailbox_of_def mb_close_def)

lemma trysend_ok:
  assumes "sub_inv s" "\<not> subClosed s"
  obtains c where "chan_trysend event (subCh s) = Some c" "sub_inv (s\<lparr>subCh := c\<rparr>)"
    "chBuf c = (if length (chBuf (subCh s)) < 256 then chBuf (subCh s) @ [event] else chBuf (subCh s))"
proof (cases "length (chBuf (subCh s)) < 256")
  case True
  show ?thesis
    by (rule that [of "(subCh s)\<lparr>chBuf := chBuf (subCh s) @ [event]\<rparr>"])
      (use True assms in \<open>auto simp: chan_trysend_def sub_inv_def defaultBufSize_def\<close>)
next
  case False
  show ?thesis
    by (rule that [of "subCh s"])
      (use False assms in \<open>auto simp: chan_trysend_def sub_inv_def defaultBufSize_def\<close>)
qed

lemma sub_matches_iff: "sub_matches s key \<longleftrightarrow> path_Match (subPattern s) key = Some True"
  by (auto simp: sub_matches_def split: option.splits)

text \<open>One round of the loop of \<open>Publish\<close> is the delivery to one mailbox.\<close>

lemma publish_one:
  assumes "sub_inv (h ! r)" "r < length h"
  obtains h' where "publish_loop event (r # rs) h = publish_loop event rs h'" "length h' = length h"
    "sub_inv (h' ! r)" "mailbox_of (h' ! r) = mb_accept event (mailbox_of (h ! r))"
    "subClosed (h' ! r) = subClosed (h ! r)" "\<forall>q. q \<noteq> r \<longrightarrow> h' ! q = h ! q"
proof (cases "publish_check event r h")
  case True
  then have o: "\<not> subClosed (h ! r)" and m: "path_Match (subPattern (h ! r)) (evKey event) = Some True"
    by (auto simp: publish_check_def sub_matches_iff)
  obtain c where c: "chan_trysend event (subCh (h ! r)) = Some c" "sub_inv ((h ! r)\<lparr>subCh := c\<rparr>)"
    "chBuf c = (if length (chBuf (subCh (h ! r))) < 256 then chBuf (subCh (h ! r)) @ [event] else chBuf (subCh (h ! r)))"
    by (rule trysend_ok [OF assms(1) o])
  show ?thesis
    by (rule that [of "h[r := (h ! r)\<lparr>subCh := c\<rparr>]"])
      (use True c o m assms(2) in \<open>simp_all add: publish_send_def mailbox_of_def mb_accept_def\<close>)
next
  case False
  show ?thesis
    by (rule that [of h])
      (use False assms in \<open>auto simp: publish_check_def sub_matches_iff mailbox_of_def mb_accept_def\<close>)
qed

lemma publish_loop_ok:
  assumes "\<forall>r \<in> set rs. r < length h" "distinct rs" "\<forall>s \<in> set h. sub_inv s"
  obtains h' where "publish_loop event rs h = Some h'" "length h' = length h" "\<forall>s \<in> set h'. sub_inv s"
    "\<forall>r < length h. subClosed (h' ! r) = subClosed (h ! r)"
    "\<forall>r < length h. mailbox_of (h' ! r) = (if r \<in> set rs then mb_accept event (mailbox_of (h ! r)) else mailbox_of (h ! r))"
  using assms
proof (induction rs arbitrary: h thesis)
  case Nil
  then show ?case by simp
next
  case (Cons r rs)
  have r: "sub_inv (h ! r)" "r < length h" using Cons.prems by auto
  obtain h1 where h1: "publish_loop event (r # rs) h = publish_loop event rs h1" "length h1 = length h"
    "sub_inv (h1 ! r)" "mailbox_of (h1 ! r) = mb_accept event (mailbox_of (h ! r))"
    "subClosed (h1 ! r) = subClosed (h ! r)" "\<forall>q. q \<noteq> r \<longrightarrow> h1 ! q = h ! q"
    by (rule publish_one [OF r])
  have i1: "\<forall>s \<in> set h1. sub_inv s"
    using Cons.prems(4) h1(2,3,6) by (metis in_set_conv_nth)
  obtain h' where h': "publish_loop event rs h1 = Some h'" "length h' = length h1" "\<forall>s \<in> set h'. sub_inv s"
    "\<forall>r < length h1. subClosed (h' ! r) = subClosed (h1 ! r)"
    "\<forall>r < length h1. mailbox_of (h' ! r) = (if r \<in> set rs then mb_accept event (mailbox_of (h1 ! r)) else mailbox_of (h1 ! r))"
    by (rule Cons.IH [of h1]) (use Cons.prems h1(2) i1 in auto)
  show ?case
  proof (rule Cons.prems(1) [of h'])
    show "\<forall>q < length h. subClosed (h' ! q) = subClosed (h ! q)" using h'(4) h1(2,5,6) by metis
    show "\<forall>q < length h. mailbox_of (h' ! q) =
        (if q \<in> set (r # rs) then mb_accept event (mailbox_of (h ! q)) else mailbox_of (h ! q))"
      using h'(5) h1(2,4,6) Cons.prems(3) by (auto split: if_splits)
  qed (use h' h1 in auto)
qed

lemma shutdown_loop_ok:
  assumes "\<forall>r \<in> set rs. r < length h" "\<forall>s \<in> set h. sub_inv s"
  obtains h' where "shutdown_loop rs h = Some h'" "length h' = length h" "\<forall>s \<in> set h'. sub_inv s"
    "\<forall>r < length h. mailbox_of (h' ! r) = (if r \<in> set rs then mb_close (mailbox_of (h ! r)) else mailbox_of (h ! r))"
  using assms
proof (induction rs arbitrary: h thesis)
  case Nil
  then show ?case by simp
next
  case (Cons r rs)
  have r: "sub_inv (h ! r)" "r < length h" using Cons.prems by auto
  obtain s where s: "sub_Close (h ! r) = Some s" "sub_inv s" "subClosed s" "mailbox_of s = mb_close (mailbox_of (h ! r))"
    by (rule sub_Close_ok [OF r(1)])
  have i: "\<forall>s \<in> set (h[r := s]). sub_inv s" using Cons.prems(3) s(2) by (auto dest: set_update_subset_insert [THEN subsetD])
  obtain h' where h': "shutdown_loop rs (h[r := s]) = Some h'" "length h' = length (h[r := s])" "\<forall>s \<in> set h'. sub_inv s"
    "\<forall>q < length (h[r := s]). mailbox_of (h' ! q) =
       (if q \<in> set rs then mb_close (mailbox_of (h[r := s] ! q)) else mailbox_of (h[r := s] ! q))"
    by (rule Cons.IH [of "h[r := s]"]) (use Cons.prems(2) i in auto)
  show ?case
    by (rule Cons.prems(1) [of h'])
      (use h' s r(2) in \<open>auto simp: mb_close_def nth_list_update split: if_splits\<close>)
qed

text \<open>The map of a broker reaches exactly the subscriptions that its entries name.\<close>

lemma broker_inv_refs:
  assumes "broker_inv b"
  shows "\<forall>r \<in> set (map snd (subscriptions b)). r < length (heap b)" "distinct (map snd (subscriptions b))"
    "\<And>r. r < length (heap b) \<Longrightarrow> \<not> subClosed (heap b ! r) \<Longrightarrow> r \<in> set (map snd (subscriptions b))"
proof -
  have wf: "gm_wf (subscriptions b)" using assms by (simp add: broker_inv_def)
  have e: "r < length (heap b) \<and> unat sid = Suc r" if m: "(sid, r) \<in> set (subscriptions b)" for sid r
  proof -
    have "gm_get (subscriptions b) sid = Some r" using gm_in_set [OF wf] m by simp
    then show ?thesis using assms by (simp add: broker_inv_def)
  qed
  then show "\<forall>r \<in> set (map snd (subscriptions b)). r < length (heap b)" by auto
  have "inj_on snd (set (subscriptions b))"
  proof (rule inj_onI, clarsimp)
    fix s1 r s2 assume "(s1, r) \<in> set (subscriptions b)" "(s2, r) \<in> set (subscriptions b)"
    then have "unat s1 = unat s2" using e by simp
    then show "s1 = s2" by (simp add: word_unat_eq_iff)
  qed
  then show "distinct (map snd (subscriptions b))"
    using wf by (simp add: distinct_map)
  show "r \<in> set (map snd (subscriptions b))" if r: "r < length (heap b)" "\<not> subClosed (heap b ! r)" for r
  proof -
    obtain sid where "gm_get (subscriptions b) sid = Some r" using assms r by (auto simp: broker_inv_def)
    then have "(sid, r) \<in> set (subscriptions b)" by (rule map_of_SomeD)
    then show ?thesis by force
  qed
qed

lemma broker_inv_new: "broker_inv NewBroker"
  by (simp add: broker_inv_def NewBroker_def)

lemma Subscribe_ok:
  assumes "broker_inv b" "Suc (length (heap b)) < 2 ^ 64"
  shows "broker_inv (snd (Subscribe p b)) \<and>
    map mailbox_of (heap (snd (Subscribe p b))) = map mailbox_of (heap b) @ [\<lparr>mbPattern = p, mbOpen = True, mbQueue = []\<rparr>]"
proof -
  let ?sid = "nextID b + 1"
  have u: "unat ?sid = Suc (length (heap b))"
    using assms by (simp add: broker_inv_def unat_word_ariths unat_of_nat)
  have old: "r < length (heap b) \<and> unat sid = Suc r" if "gm_get (subscriptions b) sid = Some r" for sid r
    using assms(1) that by (simp add: broker_inv_def)
  have keep: "gm_get (subscriptions b) sid = Some r \<Longrightarrow> sid \<noteq> ?sid" for sid r
    using old [of sid r] u by auto
  let ?b = "snd (Subscribe p b)"
  have h: "heap ?b = heap b @ [newSubscription ?sid p defaultBufSize]"
    and m: "gm_get (subscriptions ?b) = (gm_get (subscriptions b))(?sid \<mapsto> length (heap b))"
    and w: "gm_wf (subscriptions ?b)" and n: "nextID ?b = ?sid"
    using assms(1) by (simp_all add: Subscribe_def Let_def broker_inv_def fun_eq_iff)
  have "\<exists>sid. gm_get (subscriptions ?b) sid = Some r"
    if r: "r < length (heap ?b)" "\<not> subClosed (heap ?b ! r)" for r
  proof (cases "r = length (heap b)")
    case False
    then have "r < length (heap b)" "\<not> subClosed (heap b ! r)" using r h by (auto simp: nth_append)
    then obtain sid where "gm_get (subscriptions b) sid = Some r" using assms(1) by (auto simp: broker_inv_def)
    then show ?thesis using keep [of sid r] by (intro exI [of _ sid]) (simp add: m)
  qed (auto simp: m)
  moreover have "r < length (heap ?b) \<and> unat sid = Suc r" if "gm_get (subscriptions ?b) sid = Some r" for sid r
    using that old [of sid r] u by (auto simp: m h split: if_splits)
  moreover have "\<forall>s \<in> set (heap ?b). sub_inv s" using assms(1) sub_inv_new by (auto simp: h broker_inv_def)
  moreover have "nextID ?b = of_nat (length (heap ?b))" using assms(1) by (simp add: n h broker_inv_def)
  ultimately have "broker_inv ?b" using w unfolding broker_inv_def by blast
  then show ?thesis by (simp add: h mailbox_of_def newSubscription_def)
qed

lemma at_heap:
  assumes "r < length h" "mailbox_of s = f (mailbox_of (h ! r))"
  shows "map mailbox_of (h[r := s]) = at_index r f (map mailbox_of h)"
  using assms by (simp add: at_index_def map_update)

lemma client_Close_ok:
  assumes "broker_inv b" "r < length (heap b)"
  obtains b' where "client_Close r b = Some b'" "broker_inv b'"
    "map mailbox_of (heap b') = at_index r mb_close (map mailbox_of (heap b))"
proof -
  have "sub_inv (heap b ! r)" using assms by (simp add: broker_inv_def)
  then obtain s where s: "sub_Close (heap b ! r) = Some s" "sub_inv s" "subClosed s"
    "mailbox_of s = mb_close (mailbox_of (heap b ! r))" by (rule sub_Close_ok)
  show ?thesis
  proof (rule that [of "b\<lparr>heap := (heap b)[r := s]\<rparr>"])
    show "broker_inv (b\<lparr>heap := (heap b)[r := s]\<rparr>)"
      using assms s(2,3) set_update_subset_insert [of "heap b" r s]
      by (auto simp: broker_inv_def nth_list_update)
  qed (use s assms(2) at_heap [of r "heap b" s mb_close] in \<open>simp_all add: client_Close_def\<close>)
qed

lemma Unsubscribe_ok:
  assumes "broker_inv b" "length (heap b) < 2 ^ 64"
  obtains b' where "Unsubscribe sid b = Some b'" "broker_inv b'"
    "map mailbox_of (heap b') = mail_step (OpUnsubscribe sid) (map mailbox_of (heap b))"
proof (cases "gm_get (subscriptions b) sid")
  case None
  have "subClosed (heap b ! (unat sid - 1))" if n0: "sid \<noteq> 0" and lt: "unat sid - 1 < length (heap b)"
  proof (rule ccontr)
    assume "\<not> subClosed (heap b ! (unat sid - 1))"
    then obtain sid' where s: "gm_get (subscriptions b) sid' = Some (unat sid - 1)"
      using assms(1) lt by (auto simp: broker_inv_def)
    then have "unat sid' = Suc (unat sid - 1)" using assms(1) by (simp add: broker_inv_def)
    moreover have "0 < unat sid" using n0 by (simp add: unat_gt_0)
    ultimately have "sid' = sid" by (simp add: word_unat_eq_iff)
    then show False using s None by simp
  qed
  then have "mail_step (OpUnsubscribe sid) (map mailbox_of (heap b)) = map mailbox_of (heap b)"
    by (auto simp: at_index_def mb_close_def mailbox_of_def intro!: list_update_same_conv [THEN iffD2])
  then show ?thesis using that [of b] assms(1) None by (simp add: Unsubscribe_def)
next
  case (Some r)
  have r: "r < length (heap b)" "unat sid = Suc r" using Some assms(1) by (auto simp: broker_inv_def)
  have "sub_inv (heap b ! r)" using assms(1) r(1) by (simp add: broker_inv_def)
  then obtain s where s: "sub_Close (heap b ! r) = Some s" "sub_inv s" "subClosed s"
    "mailbox_of s = mb_close (mailbox_of (heap b ! r))" by (rule sub_Close_ok)
  let ?b = "b\<lparr>heap := (heap b)[r := s], subscriptions := gm_del sid (subscriptions b)\<rparr>"
  have e: "gm_get (subscriptions b) sid' = Some q \<Longrightarrow> unat sid' = Suc q" for sid' q
    using assms(1) by (simp add: broker_inv_def)
  have "\<exists>sid'. sid' \<noteq> sid \<and> gm_get (subscriptions b) sid' = Some q"
    if q: "q < length (heap b)" "q \<noteq> r" "\<not> subClosed (heap b ! q)" for q
  proof -
    obtain sid' where "gm_get (subscriptions b) sid' = Some q" using assms(1) q by (auto simp: broker_inv_def)
    then show ?thesis using Some q(2) by (intro exI [of _ sid']) auto
  qed
  moreover have "q \<noteq> r \<and> \<not> subClosed (heap b ! q)"
    if "q < length (heap b)" "\<not> subClosed ((heap b)[r := s] ! q)" for q
    using that s(3) by (cases "q = r") auto
  ultimately have "\<exists>sid'. gm_get (gm_del sid (subscriptions b)) sid' = Some q"
    if "q < length (heap b)" "\<not> subClosed ((heap b)[r := s] ! q)" for q
    using that by (metis fun_upd_other gm_get_del)
  moreover have "q < length (heap b) \<and> unat sid' = Suc q" if "gm_get (gm_del sid (subscriptions b)) sid' = Some q" for sid' q
    using that assms(1) by (auto simp: broker_inv_def split: if_splits)
  moreover have "\<forall>s' \<in> set ((heap b)[r := s]). sub_inv s'"
    using assms(1) s(2) set_update_subset_insert [of "heap b" r s] by (auto simp: broker_inv_def)
  moreover have "gm_wf (gm_del sid (subscriptions b))" "nextID b = of_nat (length (heap b))"
    using assms(1) by (simp_all add: broker_inv_def)
  ultimately have "broker_inv ?b" unfolding broker_inv_def by simp
  moreover have "map mailbox_of (heap ?b) = mail_step (OpUnsubscribe sid) (map mailbox_of (heap b))"
    using r at_heap [of r "heap b" s mb_close] s(4) by auto
  ultimately show ?thesis using that [of ?b] Some s(1) by (simp add: Unsubscribe_def)
qed

lemma Publish_ok:
  assumes "broker_inv b"
  obtains b' where "Publish now event b = Some b'" "broker_inv b'" "subscriptions b' = subscriptions b"
    "map mailbox_of (heap b') = map (mb_accept (stamp now event)) (map mailbox_of (heap b))"
proof -
  note R = broker_inv_refs [OF assms]
  have i: "\<forall>s \<in> set (heap b). sub_inv s" using assms by (simp add: broker_inv_def)
  obtain h where h: "publish_loop (stamp now event) (map snd (subscriptions b)) (heap b) = Some h"
    "length h = length (heap b)" "\<forall>s \<in> set h. sub_inv s"
    "\<forall>r < length (heap b). subClosed (h ! r) = subClosed (heap b ! r)"
    "\<forall>r < length (heap b). mailbox_of (h ! r) =
      (if r \<in> set (map snd (subscriptions b)) then mb_accept (stamp now event) (mailbox_of (heap b ! r)) else mailbox_of (heap b ! r))"
    by (rule publish_loop_ok [OF R(1,2) i])
  have acc: "mailbox_of (h ! r) = mb_accept (stamp now event) (mailbox_of (heap b ! r))" if "r < length (heap b)" for r
    using h(5) that R(3) [OF that] by (cases "subClosed (heap b ! r)") (auto simp: mb_accept_def mailbox_of_def)
  show ?thesis
  proof (rule that [of "b\<lparr>heap := h\<rparr>"])
    show "broker_inv (b\<lparr>heap := h\<rparr>)" using assms h(2,3,4) by (simp add: broker_inv_def)
    show "map mailbox_of (heap (b\<lparr>heap := h\<rparr>)) = map (mb_accept (stamp now event)) (map mailbox_of (heap b))"
      using acc h(2) by (simp add: list_eq_iff_nth_eq)
  qed (simp_all add: Publish_def h(1))
qed

lemma Shutdown_ok:
  assumes "broker_inv b"
  obtains b' where "broker_Shutdown b = Some b'" "broker_inv b'"
    "map mailbox_of (heap b') = map mb_close (map mailbox_of (heap b))"
proof -
  note R = broker_inv_refs [OF assms]
  have i: "\<forall>s \<in> set (heap b). sub_inv s" using assms by (simp add: broker_inv_def)
  obtain h where h: "shutdown_loop (map snd (subscriptions b)) (heap b) = Some h"
    "length h = length (heap b)" "\<forall>s \<in> set h. sub_inv s"
    "\<forall>r < length (heap b). mailbox_of (h ! r) =
      (if r \<in> set (map snd (subscriptions b)) then mb_close (mailbox_of (heap b ! r)) else mailbox_of (heap b ! r))"
    by (rule shutdown_loop_ok [OF R(1) i])
  have cl: "mailbox_of (h ! r) = mb_close (mailbox_of (heap b ! r))" if "r < length (heap b)" for r
    using h(4) that R(3) [OF that] by (cases "subClosed (heap b ! r)") (auto simp: mb_close_def mailbox_of_def)
  then have "subClosed (h ! r)" if "r < length (heap b)" for r
    using that cl [OF that, THEN arg_cong [of _ _ mbOpen]] by (simp add: mailbox_of_def mb_close_def)
  then have "broker_inv (b\<lparr>heap := h, subscriptions := []\<rparr>)"
    using assms h(2,3) by (simp add: broker_inv_def)
  moreover have "map mailbox_of h = map mb_close (map mailbox_of (heap b))"
    using cl h(2) by (simp add: list_eq_iff_nth_eq)
  ultimately show ?thesis using that [of "b\<lparr>heap := h, subscriptions := []\<rparr>"] h(1) by (simp add: broker_Shutdown_def)
qed

lemma client_recv_ok:
  assumes "broker_inv b" "r < length (heap b)"
  shows "broker_inv (snd (client_recv r b)) \<and>
    map mailbox_of (heap (snd (client_recv r b))) =
      at_index r (\<lambda>m. m\<lparr>mbQueue := tl (mbQueue m)\<rparr>) (map mailbox_of (heap b))"
proof -
  let ?s = "(heap b ! r)\<lparr>subCh := snd (chan_recv (subCh (heap b ! r)))\<rparr>"
  have s: "sub_inv (heap b ! r)" using assms by (simp add: broker_inv_def)
  then have s': "sub_inv ?s" by (auto simp: sub_inv_def chan_recv_def split: list.splits)
  have e: "snd (client_recv r b) = b\<lparr>heap := (heap b)[r := ?s]\<rparr>" by (simp add: client_recv_def Let_def case_prod_unfold)
  have "mailbox_of ?s = (mailbox_of (heap b ! r))\<lparr>mbQueue := tl (mbQueue (mailbox_of (heap b ! r)))\<rparr>"
    by (simp add: mailbox_of_def chan_recv_def split: list.splits)
  moreover have "subClosed ((heap b)[r := ?s] ! q) = subClosed (heap b ! q)" for q
    using assms(2) by (cases "q = r") simp_all
  moreover have "\<forall>s \<in> set ((heap b)[r := ?s]). sub_inv s"
    using assms(1) s' set_update_subset_insert [of "heap b" r ?s] by (auto simp: broker_inv_def)
  ultimately show ?thesis
    using assms at_heap [of r "heap b" ?s "\<lambda>m. m\<lparr>mbQueue := tl (mbQueue m)\<rparr>"]
    unfolding e broker_inv_def by simp
qed

lemma broker_step_ok:
  assumes "broker_inv b" "Suc (length (heap b)) < 2 ^ 64"
  obtains b' where "broker_step a b = Some b'" "broker_inv b'" "length (heap b') \<le> Suc (length (heap b))"
    "map mailbox_of (heap b') = mail_step a (map mailbox_of (heap b))"
proof -
  have len: "length (mail_step a ms) \<le> Suc (length ms)" for ms by (cases a) (auto simp: at_index_def)
  have "\<exists>b'. broker_step a b = Some b' \<and> broker_inv b' \<and> map mailbox_of (heap b') = mail_step a (map mailbox_of (heap b))"
  proof (cases a)
    case (OpSubscribe p)
    then show ?thesis using Subscribe_ok [OF assms, of p] by simp
  next
    case (OpUnsubscribe sid)
    then show ?thesis using Unsubscribe_ok [OF assms(1), of sid] assms(2) by (metis Suc_lessD broker_step.simps(2))
  next
    case (OpPublish now event)
    then show ?thesis using Publish_ok [OF assms(1), of now event] by (metis broker_step.simps(3) mail_step.simps(3))
  next
    case (OpClose r)
    then show ?thesis
      using client_Close_ok [OF assms(1), of r] assms(1)
      by (cases "r < length (heap b)") (auto simp: at_index_def)
  next
    case (OpRecv r)
    then show ?thesis
      using client_recv_ok [OF assms(1), of r] assms(1)
      by (cases "r < length (heap b)") (auto simp: at_index_def)
  next
    case OpShutdown
    then show ?thesis using Shutdown_ok [OF assms(1)] by (metis broker_step.simps(6) mail_step.simps(6))
  qed
  then show ?thesis using that len by (metis length_map)
qed

lemma broker_run_ok:
  assumes "broker_inv b" "length (heap b) + length ops < 2 ^ 64"
  shows "\<exists>b'. broker_run ops b = Some b' \<and> broker_inv b' \<and>
    map mailbox_of (heap b') = mail_run ops (map mailbox_of (heap b))"
  using assms
proof (induction ops arbitrary: b)
  case (Cons a ops)
  obtain b1 where b1: "broker_step a b = Some b1" "broker_inv b1" "length (heap b1) \<le> Suc (length (heap b))"
    "map mailbox_of (heap b1) = mail_step a (map mailbox_of (heap b))"
    by (rule broker_step_ok [OF Cons.prems(1), of a]) (use Cons.prems(2) in auto)
  have "length (heap b1) + length ops < 2 ^ 64" using b1(3) Cons.prems(2) by simp
  from Cons.IH [OF b1(2) this] show ?case using b1 by (simp add: mail_run_def)
qed (simp add: mail_run_def)

section \<open>Properties\<close>


definition demo_event :: "string \<Rightarrow> Event" where
  "demo_event key = \<lparr>evType = EventSet, evKey = key, evValue = [1], evTimestamp = None, evNodeName = []\<rparr>"


text \<open>C28: A subscription with a pattern without brackets and backslashes matches an ASCII key exactly
  when the glob semantics says so: a star stands for any run of characters other than a slash, a
  question mark for one such character, every other character for itself. The matcher (\<open>path.Match\<close>)
  finds this with the leftmost place of every chunk and no backtracking.\<close>

theorem sub_matches_is_glob:
  assumes "plain (subPattern s)" "ascii key"
  shows "sub_matches s key \<longleftrightarrow> glob (subPattern s) key"
  using path_Match_glob [OF assms] by (simp add: sub_matches_iff)

theorem sub_matches_is_glob_witness:
  "sub_matches (newSubscription 1 ''user:*:na?e'' 256) ''user:42:name''"
proof -
  have "plain ''user:*:na?e''" "ascii ''user:42:name''" "glob ''user:*:na?e'' ''user:42:name''" by code_simp+
  then show ?thesis
    using sub_matches_is_glob [of "newSubscription 1 ''user:*:na?e'' 256" "''user:42:name''"]
    by (simp add: newSubscription_def)
qed

text \<open>C40: \<open>Subscription.Close\<close> takes no lock of the broker. When a client closes its subscription
  after \<open>Publish\<close> has tested it and before the send, the send is on a closed channel and panics, in
  every reachable state.\<close>

theorem publish_close_race:
  assumes "broker_run ops NewBroker = Some b" "length ops < 2 ^ 64" "r < length (heap b)"
    and "publish_check event r (heap b)"
  shows "\<exists>b'. client_Close r b = Some b' \<and> publish_send event r (heap b') = None"
proof -
  have inv: "broker_inv b" using broker_run_ok [OF broker_inv_new, of ops] assms(1,2) by (auto simp: NewBroker_def)
  then have "sub_inv (heap b ! r)" using assms(3) by (simp add: broker_inv_def)
  then show ?thesis
    using assms(3,4)
    by (auto simp: client_Close_def publish_check_def publish_send_def sub_Close_def sub_inv_def chan_close_def chan_trysend_def)
qed

theorem publish_close_race_witness:
  "\<exists>b b'. broker_run [OpSubscribe ''*''] NewBroker = Some b \<and> client_Close 0 b = Some b' \<and>
     publish_send (demo_event ''k'') 0 (heap b') = None"
proof -
  let ?b = "snd (Subscribe ''*'' NewBroker)"
  have "publish_check (demo_event ''k'') 0 (heap ?b)" "0 < length (heap ?b)" by code_simp+
  then show ?thesis using publish_close_race [of "[OpSubscribe ''*'']" ?b 0 "demo_event ''k''"] by auto
qed

text \<open>Operations other than \<open>Unsubscribe\<close> and \<open>Shutdown\<close>: what the public API of a running cache offers.\<close>

fun public_op :: "broker_op \<Rightarrow> bool" where
  "public_op (OpUnsubscribe sid) = False"
| "public_op OpShutdown = False"
| "public_op a = True"

fun subscribes :: "broker_op list \<Rightarrow> nat" where
  "subscribes [] = 0"
| "subscribes (OpSubscribe p # ops) = Suc (subscribes ops)"
| "subscribes (a # ops) = subscribes ops"

lemma public_step_registered:
  assumes inv: "broker_inv b" and len: "Suc (length (heap b)) < 2 ^ 64"
    and "broker_step a b = Some b'" "public_op a"
  shows "length (subscriptions b') = subscribes [a] + length (subscriptions b)"
proof (cases a)
  case (OpSubscribe p)
  have "unat (nextID b + 1) = Suc (length (heap b))"
    using inv len by (simp add: broker_inv_def unat_word_ariths unat_of_nat)
  then have "gm_get (subscriptions b) (nextID b + 1) = None"
    using inv by (cases "gm_get (subscriptions b) (nextID b + 1)") (auto simp: broker_inv_def)
  then show ?thesis using assms(3) OpSubscribe by (auto simp: Subscribe_def Let_def length_gm_set)
next
  case (OpPublish now event)
  then show ?thesis using assms(3) by (auto simp: Publish_def split: option.splits)
qed (use assms(3,4) in \<open>auto simp: client_Close_def client_recv_def Let_def case_prod_unfold split: option.splits if_splits\<close>)

lemma subscribes_Cons: "subscribes (a # ops) = subscribes [a] + subscribes ops"
  by (cases a) simp_all

lemma public_run_registered:
  assumes "broker_inv b" "length (heap b) + length ops < 2 ^ 64" "broker_run ops b = Some b'" "list_all public_op ops"
  shows "length (subscriptions b') = subscribes ops + length (subscriptions b)"
  using assms
proof (induction ops arbitrary: b)
  case (Cons a ops)
  obtain b1 where b1: "broker_step a b = Some b1" "broker_inv b1" "length (heap b1) \<le> Suc (length (heap b))"
    by (rule broker_step_ok [OF Cons.prems(1), of a]) (use Cons.prems(2) in auto)
  have "length (subscriptions b1) = subscribes [a] + length (subscriptions b)"
    by (rule public_step_registered [OF Cons.prems(1) _ b1(1)]) (use Cons.prems in auto)
  moreover have "length (subscriptions b') = subscribes ops + length (subscriptions b1)"
    by (rule Cons.IH [OF b1(2)]) (use b1 Cons.prems in auto)
  ultimately show ?case using subscribes_Cons [of a ops] by simp
qed simp

text \<open>Closing a subscription, which the documentation of \<open>Close\<close> calls unsubscribing, does not
  remove it from the broker: the broker keeps as many registrations as there were calls of
  \<open>Subscribe\<close>, whatever the clients close, until the broker is shut down.\<close>

lemma close_never_unregisters:
  assumes "length ops < 2 ^ 64" "list_all public_op ops"
  shows "\<exists>b. broker_run ops NewBroker = Some b \<and> length (subscriptions b) = subscribes ops"
proof -
  obtain b where b: "broker_run ops NewBroker = Some b"
    using broker_run_ok [OF broker_inv_new, of ops] assms(1) by (auto simp: NewBroker_def)
  have "length (subscriptions b) = subscribes ops + length (subscriptions NewBroker)"
    by (rule public_run_registered [OF broker_inv_new _ b assms(2)]) (use assms(1) in \<open>simp add: NewBroker_def\<close>)
  then show ?thesis using b by (simp add: NewBroker_def)
qed

end
