(* ===== verification/Float64.thy ===== *)
theory Float64
  imports Go_Std "HOL-Library.Log_Nat"
begin

text \<open>
  Go's \<open>float64\<close>: the finite values are rationals, and every operation rounds its exact result to the
  nearest number with 53 significant bits, ties to even, with gradual underflow at \<open>2^-1074\<close> and
  overflow to an infinity at \<open>2^1024\<close>, as on a processor that rounds every operation of an expression.
  The two zeros are one value: the code of this repository never divides by a zero that could be
  negative, and nothing else tells them apart.
\<close>

section \<open>Definitions\<close>

datatype float64 = Fin rat | PInf | NInf | NaN

text \<open>The nearest integer, ties to even.\<close>

definition rnd_int :: "rat \<Rightarrow> int" where
  "rnd_int y =
     (let f = \<lfloor>y\<rfloor>; d = y - of_int f
      in if d < 1 / 2 \<or> d = 1 / 2 \<and> even f then f else f + 1)"

text \<open>The exponent of the leading bit of a positive number.\<close>

definition binexp :: "rat \<Rightarrow> int" where
  "binexp x =
     (let (n, d) = quotient_of x; k = int (floorlog 2 (nat n)) - int (floorlog 2 (nat d))
      in if 2 powi k \<le> x then k else k - 1)"

definition ulp_exp :: "rat \<Rightarrow> int" where
  "ulp_exp x = max (-1074) (binexp \<bar>x\<bar> - 52)"

definition rnd :: "rat \<Rightarrow> rat" where
  "rnd x = (if x = 0 then 0 else of_int (rnd_int (x / 2 powi ulp_exp x)) * 2 powi ulp_exp x)"

definition fl :: "rat \<Rightarrow> float64" where
  "fl x = (let r = rnd x in if 2 ^ 1024 \<le> r then PInf else if r \<le> - (2 ^ 1024) then NInf else Fin r)"

fun f_add :: "float64 \<Rightarrow> float64 \<Rightarrow> float64" where
  "f_add (Fin a) (Fin b) = fl (a + b)"
| "f_add NaN b = NaN"
| "f_add a NaN = NaN"
| "f_add PInf NInf = NaN"
| "f_add NInf PInf = NaN"
| "f_add PInf b = PInf"
| "f_add NInf b = NInf"
| "f_add a b = b"

fun f_neg :: "float64 \<Rightarrow> float64" where
  "f_neg (Fin a) = Fin (- a)"
| "f_neg PInf = NInf"
| "f_neg NInf = PInf"
| "f_neg NaN = NaN"

definition f_sub :: "float64 \<Rightarrow> float64 \<Rightarrow> float64" where
  "f_sub a b = f_add a (f_neg b)"

text \<open>An infinity with the sign of a number, \<open>NaN\<close> for zero.\<close>

definition inf_sgn :: "rat \<Rightarrow> float64" where
  "inf_sgn a = (if 0 < a then PInf else if a < 0 then NInf else NaN)"

fun f_mul :: "float64 \<Rightarrow> float64 \<Rightarrow> float64" where
  "f_mul (Fin a) (Fin b) = fl (a * b)"
| "f_mul NaN b = NaN"
| "f_mul a NaN = NaN"
| "f_mul (Fin a) PInf = inf_sgn a"
| "f_mul (Fin a) NInf = inf_sgn (- a)"
| "f_mul PInf (Fin b) = inf_sgn b"
| "f_mul NInf (Fin b) = inf_sgn (- b)"
| "f_mul PInf PInf = PInf"
| "f_mul NInf NInf = PInf"
| "f_mul PInf NInf = NInf"
| "f_mul NInf PInf = NInf"

fun f_div :: "float64 \<Rightarrow> float64 \<Rightarrow> float64" where
  "f_div (Fin a) (Fin b) = (if b = 0 then inf_sgn a else fl (a / b))"
| "f_div NaN b = NaN"
| "f_div a NaN = NaN"
| "f_div (Fin a) b = Fin 0"
| "f_div PInf (Fin b) = (if 0 \<le> b then PInf else NInf)"
| "f_div NInf (Fin b) = (if 0 \<le> b then NInf else PInf)"
| "f_div a b = NaN"

text \<open>Comparisons are false on \<open>NaN\<close>.\<close>

fun f_less :: "float64 \<Rightarrow> float64 \<Rightarrow> bool" where
  "f_less (Fin a) (Fin b) = (a < b)"
| "f_less NaN b = False"
| "f_less a NaN = False"
| "f_less a NInf = False"
| "f_less NInf b = True"
| "f_less PInf b = False"
| "f_less a PInf = True"

definition f_le :: "float64 \<Rightarrow> float64 \<Rightarrow> bool" where
  "f_le a b \<longleftrightarrow> f_less a b \<or> a = b \<and> a \<noteq> NaN"

text \<open>Conversions. What \<open>int64(f)\<close> answers for \<open>NaN\<close> and for a value out of range is up to the
  implementation, the argument \<open>oor\<close>.\<close>

definition f_of_int64 :: "int64 \<Rightarrow> float64" where
  "f_of_int64 i = fl (of_int (sint i))"

definition trunc_rat :: "rat \<Rightarrow> int" where
  "trunc_rat x = (if 0 \<le> x then \<lfloor>x\<rfloor> else \<lceil>x\<rceil>)"

fun f_to_int64 :: "(float64 \<Rightarrow> int64) \<Rightarrow> float64 \<Rightarrow> int64" where
  "f_to_int64 oor (Fin x) =
     (let i = trunc_rat x in if - (2 ^ 63) \<le> i \<and> i < 2 ^ 63 then word_of_int i else oor (Fin x))"
| "f_to_int64 oor f = oor f"

text \<open>\<open>Duration.Seconds\<close>: integer division and remainder towards zero.\<close>

definition quot :: "int \<Rightarrow> int \<Rightarrow> int" where
  "quot a b = sgn a * (\<bar>a\<bar> div b)"

definition Seconds :: "duration \<Rightarrow> float64" where
  "Seconds d =
     (let s = quot (sint d) (sint second); n = sint d - s * sint second
      in f_add (fl (of_int s)) (f_div (fl (of_int n)) (Fin 1000000000)))"

section \<open>Lemmas\<close>

declare of_int_sint [simp del]

lemma rnd_int_bounds: "\<bar>of_int (rnd_int y) - y\<bar> \<le> 1 / 2"
proof -
  have a: "of_int \<lfloor>y\<rfloor> \<le> y" "y < of_int \<lfloor>y\<rfloor> + 1" by linarith+
  show ?thesis
  proof (cases "y - of_int \<lfloor>y\<rfloor> < 1 / 2 \<or> y - of_int \<lfloor>y\<rfloor> = 1 / 2 \<and> even \<lfloor>y\<rfloor>")
    case True
    then have "rnd_int y = \<lfloor>y\<rfloor>" by (simp add: rnd_int_def Let_def)
    then show ?thesis using a True by linarith
  next
    case False
    then have "rnd_int y = \<lfloor>y\<rfloor> + 1" by (simp add: rnd_int_def Let_def)
    then show ?thesis using a False by simp
  qed
qed

lemma rnd_int_ge: "of_int n \<le> y \<Longrightarrow> n \<le> rnd_int y"
proof -
  assume "of_int n \<le> y"
  then have "n \<le> \<lfloor>y\<rfloor>" by (simp add: le_floor_iff)
  then show ?thesis by (simp add: rnd_int_def Let_def)
qed

lemma rnd_int_le: "y \<le> of_int n \<Longrightarrow> rnd_int y \<le> n"
proof -
  assume y: "y \<le> of_int n"
  then have f: "\<lfloor>y\<rfloor> \<le> n" by (metis floor_mono floor_of_int)
  show ?thesis
  proof (cases "\<lfloor>y\<rfloor> = n")
    case True
    then have "y = of_int n" using y by (metis antisym of_int_floor_le)
    then show ?thesis by (simp add: rnd_int_def)
  next
    case False
    then show ?thesis using f by (auto simp: rnd_int_def Let_def)
  qed
qed

lemma floorlog2_bounds:
  assumes "0 < i" shows "2 ^ floorlog 2 (nat i) \<le> 2 * i \<and> i < 2 ^ floorlog 2 (nat i)"
proof -
  have b: "2 ^ (floorlog 2 (nat i) - 1) \<le> nat i \<and> nat i < 2 ^ floorlog 2 (nat i)"
    by (rule floorlog_bounds) (use assms in auto)
  moreover have "0 < floorlog 2 (nat i)" using b assms by (cases "floorlog 2 (nat i)") auto
  ultimately have "2 ^ floorlog 2 (nat i) \<le> 2 * nat i \<and> nat i < 2 ^ floorlog 2 (nat i)"
    by (cases "floorlog 2 (nat i)") auto
  then have "int (2 ^ floorlog 2 (nat i)) \<le> int (2 * nat i) \<and> int (nat i) < int (2 ^ floorlog 2 (nat i))"
    by (simp only: of_nat_le_iff of_nat_less_iff)
  then show ?thesis using assms by simp
qed

lemma powi_nat_diff: "(2::rat) powi (int a - int b) = 2 ^ a / 2 ^ b"
  by (simp add: power_int_diff)

lemma binexp_bounds:
  assumes "0 < x" shows "2 powi binexp x \<le> x" "x < 2 powi (binexp x + 1)"
proof -
  obtain n d where q: "quotient_of x = (n, d)" by (cases "quotient_of x")
  have d: "0 < d" and x: "x = of_int n / of_int d" using q by (simp_all add: quotient_of_denom_pos quotient_of_div)
  then have n: "0 < n" using assms by (simp add: zero_less_divide_iff)
  let ?a = "floorlog 2 (nat n)" and ?b = "floorlog 2 (nat d)" and ?k = "int (floorlog 2 (nat n)) - int (floorlog 2 (nat d))"
  have "of_int (2 ^ ?a) \<le> (of_int (2 * n) :: rat)" "of_int n < (of_int (2 ^ ?a) :: rat)"
      "of_int (2 ^ ?b) \<le> (of_int (2 * d) :: rat)" "of_int d < (of_int (2 ^ ?b) :: rat)"
    using floorlog2_bounds [OF n] floorlog2_bounds [OF d] unfolding of_int_le_iff of_int_less_iff by simp_all
  then have r: "(2::rat) ^ ?a \<le> 2 * of_int n" "of_int n < (2::rat) ^ ?a" "(2::rat) ^ ?b \<le> 2 * of_int d" "of_int d < (2::rat) ^ ?b"
    by simp_all
  have dp: "(0::rat) < of_int d" using d by simp
  have up: "x < 2 * 2 powi ?k"
  proof -
    have "(of_int n :: rat) * 2 ^ ?b < 2 ^ ?a * (2 * of_int d)"
      using mult_less_le_imp_less [OF r(2,3)] n dp by (simp add: mult.commute)
    then show ?thesis using dp by (simp add: x powi_nat_diff field_simps)
  qed
  have lo: "2 powi ?k < 2 * x"
  proof -
    have "(2 :: rat) ^ ?a * of_int d < (2 * of_int n) * 2 ^ ?b"
      using mult_le_less_imp_less [OF r(1,4)] n dp by simp
    then show ?thesis using dp by (simp add: x powi_nat_diff field_simps)
  qed
  have half: "(2::rat) powi (?k - 1) = 2 powi ?k / 2" by (simp add: power_int_diff)
  show "2 powi binexp x \<le> x" using lo half by (simp add: binexp_def q Let_def)
  show "x < 2 powi (binexp x + 1)" using up half by (auto simp: binexp_def q Let_def power_int_add)
qed
lemma powi_pos [simp]: "0 < (2::rat) powi e"
  by (simp add: zero_less_power_int)

text \<open>The rounding error: half a unit in the last place.\<close>

definition u53 :: rat where
  "u53 = 1 / 2 ^ 53"

definition tiny :: rat where
  "tiny = 2 powi (-1074) / 2"

lemma tiny_pos: "0 < tiny"
  unfolding tiny_def by (rule divide_pos_pos [OF powi_pos]) simp

lemma rnd_error: "\<bar>rnd x - x\<bar> \<le> u53 * \<bar>x\<bar> + tiny"
proof (cases "x = 0")
  case False
  let ?e = "ulp_exp x" and ?p = "(2::rat) powi ulp_exp x"
  have "rnd x - x = (of_int (rnd_int (x / ?p)) - x / ?p) * ?p"
    using False by (simp add: rnd_def algebra_simps)
  then have "\<bar>rnd x - x\<bar> \<le> 1 / 2 * ?p"
    using mult_right_mono [OF rnd_int_bounds [of "x / ?p"], of ?p] by (simp add: abs_mult)
  also have "1 / 2 * ?p \<le> u53 * \<bar>x\<bar> + tiny"
  proof (cases "binexp \<bar>x\<bar> - 52 \<le> -1074")
    case True
    then have "ulp_exp x = -1074" unfolding ulp_exp_def by linarith
    then have "1 / 2 * ?p = tiny" unfolding tiny_def by (simp only: mult_1_left times_divide_eq_left)
    then show ?thesis using False by (simp add: u53_def)
  next
    case False
    then have "?p = 2 powi (binexp \<bar>x\<bar>) / 2 ^ 52" by (simp add: ulp_exp_def max_def power_int_diff)
    then have "1 / 2 * ?p = u53 * 2 powi (binexp \<bar>x\<bar>)" by (simp add: u53_def)
    also have "\<dots> \<le> u53 * \<bar>x\<bar>"
      using binexp_bounds(1) [of "\<bar>x\<bar>"] \<open>x \<noteq> 0\<close> by (simp add: u53_def)
    finally show ?thesis using tiny_pos by linarith
  qed
  finally show ?thesis .
qed (use tiny_pos in \<open>simp add: rnd_def\<close>)

lemma binexp_less: "0 < x \<Longrightarrow> x < 2 powi k \<Longrightarrow> binexp x < k"
  using binexp_bounds(1) [of x] power_int_increasing [of k "binexp x" "2::rat"] by (cases "k \<le> binexp x") auto

lemma binexp_ge: "0 < x \<Longrightarrow> 2 powi k \<le> x \<Longrightarrow> k \<le> binexp x"
  using binexp_bounds(2) [of x] power_int_increasing [of "binexp x + 1" k "2::rat"] by (cases "binexp x < k") auto

text \<open>Up to \<open>2^53\<close> an integer is a multiple of the unit in the last place of every number not above it.\<close>

lemma int_scaled:
  assumes "ulp_exp x \<le> 0" shows "\<exists>m. (of_int n :: rat) = of_int m * 2 powi ulp_exp x"
proof -
  have "(of_int n :: rat) = of_int (n * 2 ^ nat (- ulp_exp x)) * 2 powi ulp_exp x"
    using assms power_int_add [of "2::rat" "- ulp_exp x" "ulp_exp x"] by (simp add: power_int_def)
  then show ?thesis by blast
qed

lemma rnd_ge:
  assumes "0 \<le> n" "n \<le> 2 ^ 53" "of_int n \<le> x" shows "of_int n \<le> rnd x"
proof (cases "x = 0")
  case False
  then have x: "0 < x" using assms(1,3) by (metis of_int_0_le_iff order_le_less order_trans)
  let ?p = "(2::rat) powi ulp_exp x"
  show ?thesis
  proof (cases "ulp_exp x \<le> 0")
    case True
    then obtain m where m: "(of_int n :: rat) = of_int m * ?p" using int_scaled by blast
    then have "of_int m \<le> x / ?p" using assms(3) by (simp add: pos_le_divide_eq)
    then have "m \<le> rnd_int (x / ?p)" by (rule rnd_int_ge)
    then have "(of_int m :: rat) * ?p \<le> of_int (rnd_int (x / ?p)) * ?p" by simp
    then show ?thesis using m x by (simp add: rnd_def)
  next
    case e: False
    then have u: "ulp_exp x = binexp x - 52" using x by (auto simp: ulp_exp_def max_def split: if_splits)
    then have "(2::rat) ^ 52 * ?p \<le> x" using binexp_bounds(1) [OF x] by (simp add: power_int_diff)
    then have "2 ^ 52 \<le> rnd_int (x / ?p)" by (intro rnd_int_ge) (simp add: pos_le_divide_eq)
    then have "(of_int (2 ^ 52) :: rat) \<le> of_int (rnd_int (x / ?p))" unfolding of_int_le_iff .
    then have "(2::rat) ^ 52 \<le> of_int (rnd_int (x / ?p))" by simp
    moreover have "(2::rat) powi 1 \<le> ?p" using e by (intro power_int_increasing) auto
    ultimately have "(2::rat) ^ 52 * 2 powi 1 \<le> of_int (rnd_int (x / ?p)) * ?p" by (intro mult_mono) auto
    moreover have "(of_int n :: rat) \<le> of_int (2 ^ 53)" using assms(2) unfolding of_int_le_iff .
    ultimately show ?thesis using x by (simp add: rnd_def)
  qed
qed (use assms in \<open>simp add: rnd_def\<close>)

lemma rnd_le:
  assumes "0 \<le> x" "n \<le> 2 ^ 53" "x \<le> of_int n" shows "rnd x \<le> of_int n"
proof (cases "x = 0")
  case False
  then have x: "0 < x" using assms(1) by simp
  let ?p = "(2::rat) powi ulp_exp x"
  have up: "(of_int n :: rat) \<le> of_int (2 ^ 53)" using assms(2) unfolding of_int_le_iff .
  have "\<exists>m. (of_int n :: rat) = of_int m * ?p"
  proof (cases "x < 2 ^ 53")
    case True
    then have "binexp x < 53" using x by (intro binexp_less) auto
    then show ?thesis using x by (intro int_scaled) (simp add: ulp_exp_def)
  next
    case False
    then have n: "n = 2 ^ 53" and xe: "x = 2 ^ 53" using assms(3) up assms(2) by (auto simp flip: of_int_le_iff)
    have "binexp x = 53" using binexp_ge [OF x, of 53] binexp_less [OF x, of 54] xe by simp
    then show ?thesis using n x by (intro exI [of _ "2 ^ 52"]) (simp add: ulp_exp_def)
  qed
  then obtain m where m: "(of_int n :: rat) = of_int m * ?p" by blast
  then have "x / ?p \<le> of_int m" using assms(3) by (simp add: pos_divide_le_eq)
  then have "rnd_int (x / ?p) \<le> m" by (rule rnd_int_le)
  then have "(of_int (rnd_int (x / ?p)) :: rat) * ?p \<le> of_int m * ?p" by simp
  then show ?thesis using m x by (simp add: rnd_def)
qed (use assms in \<open>simp add: rnd_def\<close>)

lemma rnd_of_int: "0 \<le> n \<Longrightarrow> n \<le> 2 ^ 53 \<Longrightarrow> rnd (of_int n) = of_int n"
  using rnd_ge [of n "of_int n"] rnd_le [of "of_int n" n] by simp

lemma rnd_nonneg: "0 \<le> x \<Longrightarrow> 0 \<le> rnd x"
  using rnd_ge [of 0 x] by simp

text \<open>The relative form of the error, for numbers that are not absurdly small, and no overflow.\<close>

definition v52 :: rat where
  "v52 = 1 / 2 ^ 52"

lemma tiny_small: "tiny \<le> u53 / 2 ^ 200"
proof -
  have half: "a / 2 \<le> a" if "0 < a" for a :: rat using that by simp
  have "(2::rat) powi (-1074) \<le> 2 powi (- int 300)" by (rule power_int_increasing) simp_all
  also have "(2::rat) powi (- int 300) = 1 / 2 ^ 300" by (simp only: power_int_minus power_int_of_nat inverse_eq_divide)
  finally have "tiny \<le> 1 / 2 ^ 300" unfolding tiny_def using half [OF powi_pos, of "-1074"] by linarith
  also have "(1::rat) / 2 ^ 300 \<le> u53 / 2 ^ 200" unfolding u53_def by simp
  finally show ?thesis .
qed

lemma rnd_rel: "0 \<le> x \<Longrightarrow> x = 0 \<or> 1 / 2 ^ 200 \<le> x \<Longrightarrow> \<bar>rnd x - x\<bar> \<le> v52 * x"
proof (cases "x = 0")
  case False
  assume x: "0 \<le> x" "x = 0 \<or> 1 / 2 ^ 200 \<le> x"
  have "tiny \<le> u53 * x" using False x mult_left_mono [of "1 / 2 ^ 200" x u53] tiny_small by (simp add: u53_def)
  then show ?thesis using rnd_error [of x] x(1) by (simp add: v52_def u53_def)
qed (simp add: rnd_def)

lemma rnd_abs: "0 \<le> x \<Longrightarrow> x \<le> b \<Longrightarrow> 1 \<le> b \<Longrightarrow> \<bar>rnd x - x\<bar> \<le> v52 * b"
proof -
  assume x: "0 \<le> x" "x \<le> b" "1 \<le> b"
  have "tiny \<le> u53" using tiny_small by (simp add: u53_def)
  moreover have "u53 * x \<le> u53 * b" "u53 \<le> u53 * b" using x by (simp_all add: u53_def)
  ultimately show ?thesis using rnd_error [of x] x by (simp add: v52_def u53_def)
qed

lemma fl_Fin: "0 \<le> x \<Longrightarrow> x \<le> 2 ^ 200 \<Longrightarrow> fl x = Fin (rnd x)"
proof -
  assume x: "0 \<le> x" "x \<le> 2 ^ 200"
  have "rnd x \<le> 2 ^ 201" using rnd_abs [OF x] x by (simp add: v52_def)
  also have "(2::rat) ^ 201 < 2 ^ 1024" by (rule power_strict_increasing) simp_all
  finally have a: "rnd x < 2 ^ 1024" .
  have "0 \<le> rnd x" using rnd_nonneg [OF x(1)] .
  moreover have "- ((2::rat) ^ 1024) < 0" by (simp only: neg_less_0_iff_less zero_less_power zero_less_numeral)
  ultimately have "\<not> rnd x \<le> - (2 ^ 1024)" by linarith
  then show ?thesis using a unfolding fl_def Let_def by (simp only: not_le [symmetric] if_False)
qed

lemma fl_of_int: "0 \<le> n \<Longrightarrow> n \<le> 2 ^ 53 \<Longrightarrow> fl (of_int n) = Fin (of_int n)"
proof -
  assume n: "0 \<le> n" "n \<le> 2 ^ 53"
  have "(of_int n :: rat) \<le> of_int (2 ^ 53)" using n(2) unfolding of_int_le_iff .
  then show ?thesis using fl_Fin [of "of_int n"] rnd_of_int [OF n] n(1) by simp
qed

text \<open>\<open>Seconds\<close> of a duration that is not negative.\<close>

lemma sint_second [simp]: "sint second = 1000000000"
  by (simp add: second_def)

lemma Seconds_close:
  assumes "0 \<le> sint d"
  obtains s where "Seconds d = Fin s" "0 \<le> s" "\<bar>s - of_int (sint d) / 10 ^ 9\<bar> \<le> 3 * v52 * (of_int (sint d) / 10 ^ 9)"
proof -
  define q where "q = sint d div 10 ^ 9"
  define n where "n = sint d mod 10 ^ 9"
  have qn: "sint d = q * 10 ^ 9 + n" "0 \<le> q" "0 \<le> n" "n < 10 ^ 9"
    using assms by (simp_all add: q_def n_def)
  have b: "q \<le> 2 ^ 53" using qn sint64_bounds(2) [of d] by simp
  have "quot (sint d) (sint second) = q" using assms by (simp add: quot_def q_def sgn_if)
  then have S: "Seconds d = f_add (fl (of_int q)) (f_div (fl (of_int n)) (Fin 1000000000))"
    using qn(1) by (simp add: Seconds_def Let_def)
  define x where "x = (of_int n / 10 ^ 9 :: rat)"
  have x: "0 \<le> x" "x < 1" using qn by (simp_all add: x_def divide_less_eq)
  have x1: "x = 0 \<or> 1 / 10 ^ 9 \<le> x"
  proof (cases "n = 0")
    case False
    then have "(of_int 1 :: rat) \<le> of_int n" using qn(3) unfolding of_int_le_iff by simp
    then show ?thesis by (simp add: x_def divide_simps)
  qed (simp add: x_def)
  then have "x = 0 \<or> 1 / 2 ^ 200 \<le> x" by auto
  note rx = rnd_rel [OF x(1) this]
  have rx0: "0 \<le> rnd x" using rnd_nonneg [OF x(1)] .
  have vx: "v52 * x \<le> x / 2" using x by (simp add: v52_def)
  then have rx2: "rnd x \<le> 2" using rx x by linarith
  let ?y = "of_int q + rnd x"
  have qq: "(0::rat) \<le> of_int q" "(of_int q :: rat) \<le> of_int (2 ^ 53)"
    using qn(2) b unfolding of_int_le_iff by simp_all
  have y: "0 \<le> ?y" "?y \<le> 2 ^ 54" using qq rx0 rx2 by simp_all
  have f: "Seconds d = Fin (rnd ?y)"
    using S fl_of_int [OF qn(2) b] fl_of_int [of n] qn(3,4) fl_Fin [of x] x fl_Fin [of ?y] y by (simp add: x_def)
  have D: "of_int (sint d) / 10 ^ 9 = of_int q + x" using qn(1) by (simp add: x_def add_divide_distrib)
  have "?y = 0 \<or> 1 / 2 ^ 200 \<le> ?y"
  proof (cases "q = 0")
    case True
    have "1 / 2 ^ 200 \<le> rnd x" if "x \<noteq> 0"
    proof -
      have "(1::rat) / 2 ^ 200 \<le> 1 / 10 ^ 9 / 2" by simp
      also have "\<dots> \<le> x / 2" using x1 that by (intro divide_right_mono) simp_all
      also have "\<dots> \<le> rnd x" using rx vx by linarith
      finally show ?thesis .
    qed
    then show ?thesis using True by (cases "x = 0") (auto simp: rnd_def)
  next
    case False
    then have "(of_int 1 :: rat) \<le> of_int q" using qn(2) unfolding of_int_le_iff by simp
    then show ?thesis using rx0 by simp
  qed
  then have "\<bar>rnd ?y - ?y\<bar> \<le> v52 * ?y" by (rule rnd_rel [OF y(1)])
  moreover have "v52 * ?y \<le> 2 * v52 * (of_int q + x)"
  proof -
    have "rnd x \<le> 2 * x" using rx vx x(1) by linarith
    then have "?y \<le> 2 * (of_int q + x)" using qq(1) by simp
    then show ?thesis using mult_left_mono [of ?y "2 * (of_int q + x)" v52] by (simp add: v52_def)
  qed
  moreover have "\<bar>?y - (of_int q + x)\<bar> \<le> v52 * (of_int q + x)"
  proof -
    have "v52 * x \<le> v52 * (of_int q + x)" using qq by (simp add: v52_def)
    then show ?thesis using rx by simp
  qed
  ultimately have "\<bar>rnd ?y - (of_int q + x)\<bar> \<le> 3 * v52 * (of_int q + x)" by linarith
  then show ?thesis using that [of "rnd ?y"] f rnd_nonneg [OF y(1)] unfolding D by blast
qed

end
