(* ===== verification/Rate_Limit.thy ===== *)
theory Rate_Limit
  imports Float64
begin

text \<open>
  The two rate limiters, \<open>src/internal/ratelimit/tokenbucket.go\<close> and \<open>slidingwindow.go\<close>. The mutex
  makes every \<open>Allow\<close> atomic; the clock reading of a call is an argument. The buckets and windows are
  reached only through the map, so changing one in place is an update of the map. The arithmetic is
  that of \<open>float64\<close>, rounding included; \<open>oor\<close> is what the implementation answers for \<open>int64(f)\<close> out of
  range.
\<close>

section \<open>Definitions\<close>

record rl_state =
  Allowed :: bool
  Remaining :: int64
  Limit :: int64
  ResetsAt :: instant

record bucket =
  tokens :: float64
  b_limit :: int64
  lastFill :: instant
  b_window :: duration

type_synonym token_bucket = "(string, bucket) gomap"

definition NewTokenBucket :: token_bucket where
  "NewTokenBucket = []"

text \<open>The refill: the new value of \<open>b.tokens\<close>.\<close>

definition refill :: "float64 \<Rightarrow> duration \<Rightarrow> int64 \<Rightarrow> duration \<Rightarrow> float64" where
  "refill t elapsed limit window =
     (let refillRate = f_div (f_of_int64 limit) (Seconds window);
          t' = f_add t (f_mul (Seconds elapsed) refillRate)
      in if f_less (f_of_int64 limit) t' then f_of_int64 limit else t')"

definition tb_Allow ::
    "(float64 \<Rightarrow> int64) \<Rightarrow> instant \<Rightarrow> string \<Rightarrow> int64 \<Rightarrow> duration \<Rightarrow> token_bucket \<Rightarrow> rl_state \<times> token_bucket" where
  "tb_Allow oor now key limit window tb =
     (let b0 = (case gm_get tb key of
                  Some b \<Rightarrow> b
                | None \<Rightarrow> \<lparr>tokens = f_of_int64 limit, b_limit = limit, lastFill = now, b_window = window\<rparr>);
          t = refill (tokens b0) (time_sub now (lastFill b0)) limit window;
          b1 = b0\<lparr>b_limit := limit, b_window := window, tokens := t, lastFill := now\<rparr>;
          resetsAt = time_add now window
      in if f_le (Fin 1) t then
           let t' = f_sub t (Fin 1)
           in (\<lparr>Allowed = True, Remaining = f_to_int64 oor t', Limit = limit, ResetsAt = resetsAt\<rparr>,
               gm_set key (b1\<lparr>tokens := t'\<rparr>) tb)
         else (\<lparr>Allowed = False, Remaining = 0, Limit = limit, ResetsAt = resetsAt\<rparr>, gm_set key b1 tb))"

definition tb_Reset :: "string \<Rightarrow> token_bucket \<Rightarrow> token_bucket" where
  "tb_Reset key tb = gm_del key tb"

record window =
  prevCount :: int64
  currCount :: int64
  w_limit :: int64
  windowLen :: duration
  currStart :: instant

type_synonym sliding_window = "(string, window) gomap"

definition NewSlidingWindow :: sliding_window where
  "NewSlidingWindow = []"

text \<open>The advance of the windows. \<open>2*windowLen\<close> is an \<open>int64\<close> product and wraps around.\<close>

definition advance :: "instant \<Rightarrow> duration \<Rightarrow> window \<Rightarrow> window" where
  "advance now wlen w =
     (let elapsed = time_sub now (currStart w)
      in if \<not> less64 elapsed (2 * wlen) then w\<lparr>prevCount := 0, currCount := 0, currStart := now\<rparr>
         else if \<not> less64 elapsed wlen then
           w\<lparr>prevCount := currCount w, currCount := 0, currStart := time_add (currStart w) wlen\<rparr>
         else w)"

definition estimate :: "instant \<Rightarrow> duration \<Rightarrow> window \<Rightarrow> float64" where
  "estimate now wlen w =
     (let p0 = f_div (Seconds (time_sub now (currStart w))) (Seconds wlen);
          windowProgress = (if f_less (Fin 1) p0 then Fin 1 else p0);
          prevWeight = f_sub (Fin 1) windowProgress
      in f_add (f_mul (f_of_int64 (prevCount w)) prevWeight) (f_of_int64 (currCount w)))"

definition sw_Allow ::
    "(float64 \<Rightarrow> int64) \<Rightarrow> instant \<Rightarrow> string \<Rightarrow> int64 \<Rightarrow> duration \<Rightarrow> sliding_window \<Rightarrow> rl_state \<times> sliding_window" where
  "sw_Allow oor now key limit wlen sw =
     (let w0 = (case gm_get sw key of
                  Some w \<Rightarrow> w
                | None \<Rightarrow> \<lparr>prevCount = 0, currCount = 0, w_limit = limit, windowLen = wlen, currStart = now\<rparr>);
          w1 = advance now wlen (w0\<lparr>w_limit := limit, windowLen := wlen\<rparr>);
          est = f_to_int64 oor (estimate now wlen w1);
          resetsAt = time_add (currStart w1) wlen
      in if less64 est limit then
           let remaining = limit - est - 1
           in (\<lparr>Allowed = True, Remaining = (if less64 remaining 0 then 0 else remaining),
                Limit = limit, ResetsAt = resetsAt\<rparr>,
               gm_set key (w1\<lparr>currCount := currCount w1 + 1\<rparr>) sw)
         else (\<lparr>Allowed = False, Remaining = 0, Limit = limit, ResetsAt = resetsAt\<rparr>, gm_set key w1 sw))"

definition sw_Reset :: "string \<Rightarrow> sliding_window \<Rightarrow> sliding_window" where
  "sw_Reset key sw = gm_del key sw"

section \<open>Runs\<close>

text \<open>A call of \<open>Allow\<close>: the time, the key, the limit and the window.\<close>

type_synonym rl_call = "instant \<times> string \<times> int64 \<times> duration"

text \<open>How many calls for a key are granted, in a run that starts from a limiter.\<close>

fun tb_grants :: "(float64 \<Rightarrow> int64) \<Rightarrow> string \<Rightarrow> rl_call list \<Rightarrow> token_bucket \<Rightarrow> nat" where
  "tb_grants oor k [] tb = 0"
| "tb_grants oor k ((now, key, limit, window) # cs) tb =
     (let (s, tb') = tb_Allow oor now key limit window tb
      in (if key = k \<and> Allowed s then 1 else 0) + tb_grants oor k cs tb')"

fun sw_after :: "(float64 \<Rightarrow> int64) \<Rightarrow> rl_call list \<Rightarrow> sliding_window \<Rightarrow> sliding_window" where
  "sw_after oor [] sw = sw"
| "sw_after oor ((now, key, limit, window) # cs) sw = sw_after oor cs (snd (sw_Allow oor now key limit window sw))"

fun sw_grants :: "(float64 \<Rightarrow> int64) \<Rightarrow> string \<Rightarrow> rl_call list \<Rightarrow> sliding_window \<Rightarrow> nat" where
  "sw_grants oor k [] sw = 0"
| "sw_grants oor k ((now, key, limit, window) # cs) sw =
     (let (s, sw') = sw_Allow oor now key limit window sw
      in (if key = k \<and> Allowed s then 1 else 0) + sw_grants oor k cs sw')"

text \<open>
  The calls for \<open>k\<close> all have the same limit and window, and their clock readings lie between \<open>a\<close>
  and \<open>b\<close>, in order. Calls for other keys are arbitrary.
\<close>

fun steady :: "string \<Rightarrow> int64 \<Rightarrow> duration \<Rightarrow> instant \<Rightarrow> instant \<Rightarrow> rl_call list \<Rightarrow> bool" where
  "steady k limit window a b [] \<longleftrightarrow> True"
| "steady k limit window a b ((now, key, l, w) # cs) \<longleftrightarrow>
     (if key = k then l = limit \<and> w = window \<and> a \<le> now \<and> now \<le> b \<and> steady k limit window now b cs
      else steady k limit window a b cs)"

section \<open>Lemmas\<close>

lemma v52_half: "0 \<le> x \<Longrightarrow> v52 * x \<le> x / 2"
  by (simp add: v52_def)

lemma half_le: "a \<le> x \<Longrightarrow> x / 2 \<le> y \<Longrightarrow> b \<le> a / 2 \<Longrightarrow> b \<le> (y :: rat)"
  by linarith

lemma rel_bounds:
  assumes "0 \<le> x" "\<bar>y - x\<bar> \<le> v52 * x"
  shows "x / 2 \<le> y" "y \<le> 2 * x" "y \<le> x * (1 + v52)"
proof -
  have "y - x \<le> v52 * x" "x - y \<le> v52 * x" using assms(2) by linarith+
  then show "x / 2 \<le> y" "y \<le> 2 * x" "y \<le> x * (1 + v52)"
    using v52_half [OF assms(1)] assms(1) by (simp_all add: algebra_simps)
qed

lemma close_le: "\<bar>s - D\<bar> \<le> 3 * v52 * D \<Longrightarrow> 0 \<le> D \<Longrightarrow> D \<le> b \<Longrightarrow> s \<le> 2 * b"
proof -
  assume a: "\<bar>s - D\<bar> \<le> 3 * v52 * D" "0 \<le> D" "D \<le> b"
  have "3 * v52 * D \<le> D / 2" using a(2) by (simp add: v52_def)
  then show ?thesis using a by linarith
qed

lemma f_of_int64_small: "0 \<le> sint l \<Longrightarrow> sint l \<le> 2 ^ 53 \<Longrightarrow> f_of_int64 l = Fin (of_int (sint l))"
  unfolding f_of_int64_def by (rule fl_of_int)

text \<open>The refill rate, and the number of tokens that one refill adds, as rationals: a relative error of
  a few units in the last place.\<close>

lemma rate_close:
  assumes L: "1 \<le> L" "L \<le> 2 ^ 53" and D: "1 / 10 ^ 9 \<le> D" "D \<le> 2 ^ 64"
    and s: "\<bar>s - D\<bar> \<le> 3 * v52 * D"
  shows "0 < s" "L / s \<le> 2 ^ 100" "1 / 2 ^ 100 \<le> rnd (L / s)" "rnd (L / s) \<le> 2 ^ 100"
    "rnd (L / s) \<le> L / D * (1 + 6 * v52)"
proof -
  have D0: "0 < D" using D(1) by (rule less_le_trans [rotated]) simp
  have vd: "3 * v52 * D \<le> D / 2" using D0 by (simp add: v52_def)
  have sl: "D / 2 \<le> s" and su: "s \<le> 2 * D" using s vd by linarith+
  show s0: "0 < s" using sl D0 by linarith
  have "L / s \<le> L / (D / 2)" using sl D0 L by (intro divide_left_mono) auto
  also have "\<dots> \<le> 2 ^ 53 / (1 / 10 ^ 9 / 2)"
    using L D D0 by (intro frac_le divide_right_mono) auto
  finally have up: "L / s \<le> 2 ^ 53 / (1 / 10 ^ 9 / 2)" .
  also have "(2::rat) ^ 53 / (1 / 10 ^ 9 / 2) \<le> 2 ^ 99" by simp
  finally have up99: "L / s \<le> 2 ^ 99" .
  also have "(2::rat) ^ 99 \<le> 2 ^ 100" by simp
  finally show "L / s \<le> 2 ^ 100" .
  have "1 / 2 ^ 65 \<le> L / s" using L s0 su D(2) by (intro frac_le) auto
  then have lo: "1 / 2 ^ 65 \<le> L / s" .
  moreover have "(1::rat) / 2 ^ 200 \<le> 1 / 2 ^ 65" by simp
  ultimately have "1 / 2 ^ 200 \<le> L / s" by (rule order_trans [rotated])
  then have r: "\<bar>rnd (L / s) - L / s\<bar> \<le> v52 * (L / s)" using L s0 by (intro rnd_rel) auto
  have "0 \<le> L / s" using L s0 by simp
  note R = rel_bounds [OF this r]
  show "1 / 2 ^ 100 \<le> rnd (L / s)" by (rule half_le [OF lo R(1)]) simp
  have "(2::rat) * 2 ^ 99 = 2 ^ 100" by simp
  then show "rnd (L / s) \<le> 2 ^ 100" using R(2) up99 by linarith
  have "D * (1 - 3 * v52) \<le> s" using s by (simp add: algebra_simps abs_le_iff)
  moreover have "0 < D * (1 - 3 * v52)" using D0 by (simp add: v52_def)
  ultimately have "L / s \<le> L / (D * (1 - 3 * v52))" using L by (intro divide_left_mono) auto
  also have "\<dots> = L / D * (1 / (1 - 3 * v52))" by simp
  also have "\<dots> \<le> L / D * (1 + 4 * v52)" using L D0 by (intro mult_left_mono) (auto simp: v52_def)
  finally have "L / s * (1 + v52) \<le> L / D * (1 + 4 * v52) * (1 + v52)" by (intro mult_right_mono) (auto simp: v52_def)
  also have "\<dots> = L / D * ((1 + 4 * v52) * (1 + v52))" by (simp only: mult.assoc)
  also have "\<dots> \<le> L / D * (1 + 6 * v52)" using L D0 by (intro mult_left_mono) (auto simp: v52_def)
  finally have "L / s * (1 + v52) \<le> L / D * (1 + 6 * v52)" .
  then show "rnd (L / s) \<le> L / D * (1 + 6 * v52)" using R(3) by linarith
qed

lemma inc_close:
  assumes r: "1 / 2 ^ 100 \<le> r" "r \<le> 2 ^ 100" "r \<le> Q * (1 + 6 * v52)" "0 \<le> Q"
    and s: "0 \<le> s" "\<bar>s - D\<bar> \<le> 3 * v52 * D" and D: "D = 0 \<or> 1 / 10 ^ 9 \<le> D" "D \<le> 2 ^ 64"
  shows "0 \<le> s * r" "s * r \<le> 2 ^ 190" "rnd (s * r) \<le> 2 * 2 ^ 190" "rnd (s * r) \<le> D * Q * (1 + 16 * v52)"
proof -
  have r0: "0 < r" using r(1) by (rule less_le_trans [rotated]) simp
  show sr: "0 \<le> s * r" using s(1) r0 by simp
  have D0: "0 \<le> D" using D(1) by (auto intro: order_trans [rotated])
  have vd: "3 * v52 * D \<le> D / 2" using D0 by (simp add: v52_def)
  have su: "s \<le> D * (1 + 3 * v52)" and sl: "D / 2 \<le> s" using s(2) vd by (simp_all add: algebra_simps abs_le_iff)
  have "s \<le> 2 * 2 ^ 64" using s(2) vd D(2) by linarith
  then have "s * r \<le> (2 * 2 ^ 64) * 2 ^ 100" using r(2) s(1) r0 by (intro mult_mono) auto
  also have "(2 * 2 ^ 64) * 2 ^ 100 \<le> (2::rat) ^ 190" by simp
  finally show sr190: "s * r \<le> 2 ^ 190" .
  have "s * r = 0 \<or> 1 / 2 ^ 200 \<le> s * r"
  proof (cases "D = 0")
    case True
    then show ?thesis using s(2) by simp
  next
    case False
    then have "1 / 10 ^ 9 / 2 \<le> s" using D(1) sl by simp
    then have "1 / 10 ^ 9 / 2 * (1 / 2 ^ 100) \<le> s * r" using r(1) s(1) by (intro mult_mono) auto
    moreover have "(1::rat) / 2 ^ 200 \<le> 1 / 10 ^ 9 / 2 * (1 / 2 ^ 100)" by simp
    ultimately show ?thesis by (blast intro: order_trans)
  qed
  then have "\<bar>rnd (s * r) - s * r\<bar> \<le> v52 * (s * r)" by (rule rnd_rel [OF sr])
  note B = rel_bounds [OF sr this]
  show "rnd (s * r) \<le> 2 * 2 ^ 190" using B(2) mult_left_mono [OF sr190, of 2] by linarith
  have "rnd (s * r) \<le> s * r * (1 + v52)" by (rule B(3))
  also have "\<dots> \<le> (D * (1 + 3 * v52)) * (Q * (1 + 6 * v52)) * (1 + v52)"
    using su r(3) s(1) r0 D0 by (intro mult_right_mono mult_mono) (auto simp: v52_def)
  also have "\<dots> = D * Q * ((1 + 3 * v52) * (1 + 6 * v52) * (1 + v52))" by (simp only: ac_simps)
  also have "\<dots> \<le> D * Q * (1 + 16 * v52)" using D0 r(4) by (intro mult_left_mono) (auto simp: v52_def)
  finally show "rnd (s * r) \<le> D * Q * (1 + 16 * v52)" .
qed

lemma seconds_range:
  assumes "0 \<le> sint (d :: duration)"
  shows "(of_int (sint d) :: rat) / 10 ^ 9 = 0 \<or> 1 / 10 ^ 9 \<le> (of_int (sint d) :: rat) / 10 ^ 9"
    "(of_int (sint d) :: rat) / 10 ^ 9 \<le> 2 ^ 64" "0 < sint d \<Longrightarrow> 1 / 10 ^ 9 \<le> (of_int (sint d) :: rat) / 10 ^ 9"
proof -
  show p: "1 / 10 ^ 9 \<le> (of_int (sint d) :: rat) / 10 ^ 9" if "0 < sint d"
  proof (rule divide_right_mono)
    have "(of_int 1 :: rat) \<le> of_int (sint d)" using that unfolding of_int_le_iff by simp
    then show "1 \<le> (of_int (sint d) :: rat)" by simp
  qed simp
  then show "(of_int (sint d) :: rat) / 10 ^ 9 = 0 \<or> 1 / 10 ^ 9 \<le> (of_int (sint d) :: rat) / 10 ^ 9"
    using assms by (cases "sint d = 0") auto
  have "sint d \<le> 2 ^ 64 * 10 ^ 9" using sint64_bounds(2) [of d] by simp
  then have "(of_int (sint d) :: rat) \<le> of_int (2 ^ 64 * 10 ^ 9)" unfolding of_int_le_iff .
  then show "(of_int (sint d) :: rat) / 10 ^ 9 \<le> 2 ^ 64" by (simp add: pos_divide_le_eq)
qed

text \<open>The refill of one call: the tokens stay between zero and the limit, and grow by what the elapsed
  time pays for, up to rounding.\<close>

lemma refill_bound:
  assumes l: "0 < sint limit" "sint limit \<le> 2 ^ 53" and w: "0 < sint window" and e: "0 \<le> sint elapsed"
    and t: "0 \<le> t" "t \<le> L" and L: "L = of_int (sint limit)"
  obtains t' where "refill (Fin t) elapsed limit window = Fin t'" "0 \<le> t'" "t' \<le> L"
    "t' \<le> t + of_int (sint elapsed) * (L / of_int (sint window)) * (1 + 16 * v52) + 2 * L * v52"
proof -
  let ?W = "of_int (sint window) / 10 ^ 9 :: rat" and ?E = "of_int (sint elapsed) / 10 ^ 9 :: rat"
  have w': "0 \<le> sint window" using w by simp
  obtain sw where sw: "Seconds window = Fin sw" "0 \<le> sw" "\<bar>sw - ?W\<bar> \<le> 3 * v52 * ?W" by (rule Seconds_close [OF w'])
  obtain se where se: "Seconds elapsed = Fin se" "0 \<le> se" "\<bar>se - ?E\<bar> \<le> 3 * v52 * ?E" by (rule Seconds_close [OF e])
  have "(of_int 1 :: rat) \<le> of_int (sint limit)" "(of_int (sint limit) :: rat) \<le> of_int (2 ^ 53)"
    using l unfolding of_int_le_iff by simp_all
  then have LL: "1 \<le> L" "L \<le> 2 ^ 53" unfolding L by simp_all
  note R = rate_close [OF LL seconds_range(3,2) [OF w'] sw(3), OF w]
  have Q: "0 \<le> L / ?W" using LL w by (intro divide_nonneg_nonneg) auto
  note I = inc_close [OF R(3,4,5) Q se(2,3) seconds_range(1,2) [OF e]]
  let ?inc = "rnd (se * rnd (L / sw))"
  have EQ: "?E * (L / ?W) = of_int (sint elapsed) * (L / of_int (sint window))" by simp
  have inc0: "0 \<le> ?inc" by (rule rnd_nonneg [OF I(1)])
  have rL: "f_of_int64 limit = Fin L" using f_of_int64_small [of limit] l unfolding L by simp
  have "0 \<le> L / sw" using LL R(1) by simp
  moreover have "L / sw \<le> 2 ^ 200" using R(2) by (rule order_trans) simp
  ultimately have rate: "f_div (f_of_int64 limit) (Seconds window) = Fin (rnd (L / sw))"
    using R(1) rL sw(1) fl_Fin [of "L / sw"] by simp
  have add: "f_mul (Seconds elapsed) (Fin (rnd (L / sw))) = Fin ?inc"
    using se(1) fl_Fin [OF I(1) order_trans [OF I(2)]] by simp
  let ?x = "t + ?inc"
  have x0: "0 \<le> ?x" using t(1) inc0 by simp
  have "?x \<le> 2 ^ 53 + 2 * 2 ^ 190" using t(2) LL(2) I(3) by linarith
  also have "(2::rat) ^ 53 + 2 * 2 ^ 190 \<le> 2 ^ 200" by simp
  finally have sum: "f_add (Fin t) (Fin ?inc) = Fin (rnd ?x)" using fl_Fin [OF x0] by simp
  have eq: "refill (Fin t) elapsed limit window = Fin (if L < rnd ?x then L else rnd ?x)"
    unfolding refill_def Let_def rate add sum using rL by simp
  have up: "?x \<le> t + of_int (sint elapsed) * (L / of_int (sint window)) * (1 + 16 * v52)"
    using I(4) EQ by simp
  have v: "0 \<le> 2 * L * v52" using LL by (simp add: v52_def)
  show ?thesis
  proof (rule that [OF eq])
    show "0 \<le> (if L < rnd ?x then L else rnd ?x)" using rnd_nonneg [OF x0] LL by simp
    have "(if L < rnd ?x then L else rnd ?x) \<le> ?x + 2 * L * v52"
    proof (cases "?x \<le> 2 * L")
      case True
      then have "\<bar>rnd ?x - ?x\<bar> \<le> v52 * (2 * L)" using LL by (intro rnd_abs [OF x0]) auto
      then show ?thesis by (auto simp: abs_le_iff algebra_simps)
    next
      case False
      moreover have "(if L < rnd ?x then L else rnd ?x) \<le> L" by simp
      ultimately show ?thesis using v LL(1) by linarith
    qed
    then show "(if L < rnd ?x then L else rnd ?x) \<le>
        t + of_int (sint elapsed) * (L / of_int (sint window)) * (1 + 16 * v52) + 2 * L * v52"
      using up by linarith
  qed auto
qed

text \<open>One call for the key: what it leaves plus what it grants.\<close>

definition holds :: "string \<Rightarrow> instant \<Rightarrow> rat \<Rightarrow> token_bucket \<Rightarrow> bool" where
  "holds k t0 t tb \<longleftrightarrow> (\<exists>b. gm_get tb k = Some b \<and> tokens b = Fin t \<and> lastFill b = t0)"

lemma tb_Allow_other: "key \<noteq> k \<Longrightarrow> gm_get (snd (tb_Allow oor now key limit window tb)) k = gm_get tb k"
  by (simp add: tb_Allow_def Let_def)

lemma tb_Allow_charge:
  assumes l: "0 < sint limit" "sint limit \<le> 2 ^ 53" "0 < sint window" and L: "L = of_int (sint limit)"
    and start: "gm_get tb k = None \<and> t = L \<and> t0 = now \<or> holds k t0 t tb" and t: "0 \<le> t" "t \<le> L" and m: "t0 \<le> now"
  obtains t' where "holds k now t' (snd (tb_Allow oor now k limit window tb))" "0 \<le> t'" "t' \<le> L"
    "t' + (if Allowed (fst (tb_Allow oor now k limit window tb)) then 1 else 0) \<le>
       t + of_int (now - t0) * (L / of_int (sint window)) * (1 + 16 * v52) + 3 * L * v52"
proof -
  have e: "0 \<le> sint (time_sub now t0)" "sint (time_sub now t0) \<le> now - t0"
    using m by (simp_all add: sint_time_sub)
  obtain t1 where t1: "refill (Fin t) (time_sub now t0) limit window = Fin t1" "0 \<le> t1" "t1 \<le> L"
    "t1 \<le> t + of_int (sint (time_sub now t0)) * (L / of_int (sint window)) * (1 + 16 * v52) + 2 * L * v52"
    by (rule refill_bound [OF l(1,2,3) e(1) t L])
  have LL: "1 \<le> L"
  proof -
    have "(of_int 1 :: rat) \<le> of_int (sint limit)" using l(1) unfolding of_int_le_iff by simp
    then show ?thesis unfolding L by simp
  qed
  have "(of_int (sint (time_sub now t0)) :: rat) \<le> of_int (now - t0)" using e(2) unfolding of_int_le_iff .
  then have "of_int (sint (time_sub now t0)) * (L / of_int (sint window)) * (1 + 16 * v52)
      \<le> of_int (now - t0) * (L / of_int (sint window)) * (1 + 16 * v52)"
    using LL l(3) by (intro mult_right_mono) (auto simp: v52_def)
  then have up: "t1 \<le> t + of_int (now - t0) * (L / of_int (sint window)) * (1 + 16 * v52) + 2 * L * v52"
    using t1(4) by linarith
  have v: "0 \<le> L * v52" using LL by (simp add: v52_def)
  obtain b where b: "(case gm_get tb k of Some b \<Rightarrow> b
      | None \<Rightarrow> \<lparr>tokens = f_of_int64 limit, b_limit = limit, lastFill = now, b_window = window\<rparr>) = b"
    "tokens b = Fin t" "lastFill b = t0"
    using start f_of_int64_small [of limit] l(1,2) L by (auto simp: holds_def)
  let ?A = "tb_Allow oor now k limit window tb"
  show ?thesis
  proof (cases "1 \<le> t1")
    case True
    then have le: "f_le (Fin 1) (Fin t1)" by (auto simp: f_le_def)
    have "t1 - 1 \<le> 2 ^ 200"
    proof -
      have "(of_int (sint limit) :: rat) \<le> of_int (2 ^ 53)" using l(2) unfolding of_int_le_iff .
      then show ?thesis using t1(3) L by simp
    qed
    then have s: "f_sub (Fin t1) (Fin 1) = Fin (rnd (t1 - 1))" using True by (simp add: f_sub_def fl_Fin)
    have a: "?A = (fst ?A, snd ?A)" "Allowed (fst ?A)" "holds k now (rnd (t1 - 1)) (snd ?A)"
      using b t1(1) le s by (simp_all add: tb_Allow_def Let_def holds_def)
    have "\<bar>rnd (t1 - 1) - (t1 - 1)\<bar> \<le> v52 * L" using True t1(3) LL by (intro rnd_abs) auto
    then have r: "rnd (t1 - 1) \<le> t1 - 1 + L * v52" by (simp add: abs_le_iff mult.commute)
    have "rnd (t1 - 1) \<le> L"
      using rnd_le [of "t1 - 1" "sint limit"] True t1(3) l(2) unfolding L by simp
    then show ?thesis
      using that [OF a(3)] a(2) r up rnd_nonneg [of "t1 - 1"] True by simp
  next
    case False
    then have le: "\<not> f_le (Fin 1) (Fin t1)" by (auto simp: f_le_def)
    have a: "\<not> Allowed (fst ?A)" "holds k now t1 (snd ?A)"
      using b t1(1) le by (simp_all add: tb_Allow_def Let_def holds_def)
    show ?thesis using that [OF a(2)] a(1) t1(2,3) up v by simp
  qed
qed

lemma tb_grants_bound:
  assumes l: "0 < sint limit" "sint limit \<le> 2 ^ 53" "0 < sint window" and L: "L = of_int (sint limit)"
    and "steady k limit window a b cs" "holds k a t tb" "0 \<le> t" "t \<le> L" "a \<le> b"
  shows "of_nat (tb_grants oor k cs tb) \<le>
    t + of_int (b - a) * (L / of_int (sint window)) * (1 + 16 * v52) + 3 * L * v52 * of_nat (length cs)"
  using assms(5-)
proof (induction cs arbitrary: a t tb)
  case Nil
  have "0 \<le> (of_int (b - a) :: rat) * (L / of_int (sint window)) * (1 + 16 * v52)"
    using Nil(5) l L by (simp add: v52_def zero_le_divide_iff)
  then show ?case using Nil(3) by simp
next
  case (Cons c cs)
  obtain now key lim win where c: "c = (now, key, lim, win)" by (cases c)

  have v: "0 \<le> 3 * L * v52" using l L by (simp add: v52_def)
  show ?case
  proof (cases "key = k")
    case True
    then have st: "lim = limit" "win = window" "a \<le> now" "now \<le> b" "steady k limit window now b cs"
      using Cons.prems(1) c by simp_all
    let ?A = "tb_Allow oor now k limit window tb"
    obtain t' where t': "holds k now t' (snd ?A)" "0 \<le> t'" "t' \<le> L"
      "t' + (if Allowed (fst ?A) then 1 else 0) \<le> t + of_int (now - a) * (L / of_int (sint window)) * (1 + 16 * v52) + 3 * L * v52"
      using tb_Allow_charge [OF l L disjI2 [OF Cons.prems(2)] Cons.prems(3,4) st(3)] by blast
    have IH: "of_nat (tb_grants oor k cs (snd ?A)) \<le>
        t' + of_int (b - now) * (L / of_int (sint window)) * (1 + 16 * v52) + 3 * L * v52 * of_nat (length cs)"
      by (rule Cons.IH [OF st(5) t'(1,2,3) st(4)])
    have "of_int (b - a) = (of_int (b - now) + of_int (now - a) :: rat)" by simp
    then have "(of_int (b - a) :: rat) * (L / of_int (sint window)) * (1 + 16 * v52) =
        of_int (b - now) * (L / of_int (sint window)) * (1 + 16 * v52) +
        of_int (now - a) * (L / of_int (sint window)) * (1 + 16 * v52)"
      by (simp only: distrib_right)
    moreover have "3 * L * v52 * of_nat (length (c # cs)) = 3 * L * v52 + 3 * L * v52 * of_nat (length cs)"
      by (simp add: algebra_simps)
    moreover have "(of_nat (tb_grants oor k (c # cs) tb) :: rat) =
        (if Allowed (fst ?A) then 1 else 0) + of_nat (tb_grants oor k cs (snd ?A))"
      using c True st(1,2) by (simp add: case_prod_unfold Let_def)
    ultimately show ?thesis using IH t'(4) by linarith
  next
    case False
    have h: "holds k a t (snd (tb_Allow oor now key lim win tb))"
      using Cons.prems(2) tb_Allow_other [OF False] by (simp add: holds_def)
    have "of_nat (tb_grants oor k cs (snd (tb_Allow oor now key lim win tb))) \<le>
        t + of_int (b - a) * (L / of_int (sint window)) * (1 + 16 * v52) + 3 * L * v52 * of_nat (length cs)"
      by (rule Cons.IH [OF _ h Cons.prems(3-)]) (use Cons.prems(1) c False in simp)
    then show ?thesis using c False v by (simp add: case_prod_unfold Let_def algebra_simps)
  qed
qed

lemma tb_grants_fresh:
  assumes l: "0 < sint limit" "sint limit \<le> 2 ^ 53" "0 < sint window" and L: "L = of_int (sint limit)"
    and "steady k limit window a b cs" "gm_get tb k = None" "a \<le> b"
  shows "of_nat (tb_grants oor k cs tb) \<le>
    L + of_int (b - a) * (L / of_int (sint window)) * (1 + 16 * v52) + 3 * L * v52 * of_nat (length cs)"
  using assms(5-)
proof (induction cs arbitrary: tb)
  case Nil
  have "0 \<le> (of_int (b - a) :: rat) * (L / of_int (sint window)) * (1 + 16 * v52)" "0 \<le> L"
    using Nil(3) l L by (simp_all add: v52_def zero_le_divide_iff)
  then show ?case by simp
next
  case (Cons c cs)
  obtain now key lim win where c: "c = (now, key, lim, win)" by (cases c)
  have v: "0 \<le> 3 * L * v52" and L0: "0 \<le> L" using l L by (simp_all add: v52_def)
  have len: "3 * L * v52 * of_nat (length (c # cs)) = 3 * L * v52 + 3 * L * v52 * of_nat (length cs)"
    by (simp add: algebra_simps)
  show ?case
  proof (cases "key = k")
    case True
    then have st: "lim = limit" "win = window" "a \<le> now" "now \<le> b" "steady k limit window now b cs"
      using Cons.prems(1) c by simp_all
    let ?A = "tb_Allow oor now k limit window tb"
    have "gm_get tb k = None \<and> L = L \<and> now = now \<or> holds k now L tb" using Cons.prems(2) by simp
    then obtain t' where t': "holds k now t' (snd ?A)" "0 \<le> t'" "t' \<le> L"
      "t' + (if Allowed (fst ?A) then 1 else 0) \<le> L + of_int (now - now) * (L / of_int (sint window)) * (1 + 16 * v52) + 3 * L * v52"
      using tb_Allow_charge [OF l L _ L0 order_refl order_refl] by blast
    have "of_nat (tb_grants oor k cs (snd ?A)) \<le>
        t' + of_int (b - now) * (L / of_int (sint window)) * (1 + 16 * v52) + 3 * L * v52 * of_nat (length cs)"
      by (rule tb_grants_bound [OF l L st(5) t'(1,2,3) st(4)])
    moreover have "of_int (b - now) * (L / of_int (sint window)) * (1 + 16 * v52) \<le>
        of_int (b - a) * (L / of_int (sint window)) * (1 + 16 * v52)"
      using st(3) L0 l(3) by (intro mult_right_mono) (auto simp: v52_def)
    moreover have "(of_nat (tb_grants oor k (c # cs) tb) :: rat) =
        (if Allowed (fst ?A) then 1 else 0) + of_nat (tb_grants oor k cs (snd ?A))"
      using c True st(1,2) by (simp add: case_prod_unfold Let_def)
    moreover have "of_int (now - now) * (L / of_int (sint window)) * (1 + 16 * v52) = 0" by simp
    ultimately show ?thesis using t'(4) len by linarith
  next
    case False
    have h: "gm_get (snd (tb_Allow oor now key lim win tb)) k = None"
      using Cons.prems(2) tb_Allow_other [OF False] by simp
    have "of_nat (tb_grants oor k cs (snd (tb_Allow oor now key lim win tb))) \<le>
        L + of_int (b - a) * (L / of_int (sint window)) * (1 + 16 * v52) + 3 * L * v52 * of_nat (length cs)"
      by (rule Cons.IH [OF _ h Cons.prems(3)]) (use Cons.prems(1) c False in simp)
    moreover have "tb_grants oor k (c # cs) tb = tb_grants oor k cs (snd (tb_Allow oor now key lim win tb))"
      using c False by (simp add: case_prod_unfold Let_def)
    ultimately show ?thesis using len v by linarith
  qed
qed

lemma f_less_NaN: "\<not> f_less x NaN"
  by (cases x) simp_all

text \<open>A bucket whose tokens are \<open>NaN\<close> stays so.\<close>

lemma tb_nan_sticky:
  assumes "gm_get tb k = Some b" "tokens b = NaN"
  shows "tb_grants oor k cs tb = 0"
  using assms
proof (induction cs arbitrary: tb b)
  case (Cons c cs)
  obtain now key lim win where c: "c = (now, key, lim, win)" by (cases c)
  let ?A = "tb_Allow oor now key lim win tb"
  have n: "\<not> f_le (Fin 1) NaN" by (simp add: f_le_def)
  note f_less_NaN [simp]
  have "\<exists>b'. gm_get (snd ?A) k = Some b' \<and> tokens b' = NaN"
    using Cons.prems tb_Allow_other [of key k oor now lim win tb] n
    by (cases "key = k") (auto simp: tb_Allow_def refill_def Let_def)
  moreover have "key = k \<Longrightarrow> \<not> Allowed (fst ?A)"
    using Cons.prems n by (simp add: tb_Allow_def refill_def Let_def)
  ultimately show ?case using Cons.IH [of "snd ?A"] c by (auto simp: case_prod_unfold Let_def)
qed simp

lemma fl_0: "fl 0 = Fin 0"
  using fl_of_int [of 0] by simp

lemma Seconds_0: "Seconds 0 = Fin 0"
  by (simp add: Seconds_def quot_def fl_0)

lemma refill_zero_window: "refill t 0 limit 0 = NaN"
proof -
  have "f_mul (Fin 0) (f_div x (Fin 0)) = NaN" for x by (cases x) (simp_all add: inf_sgn_def)
  moreover have "f_add t NaN = NaN" by (cases t) simp_all
  ultimately show ?thesis by (simp add: refill_def Seconds_0 f_less_NaN)
qed

text \<open>A key that was never used has all its tokens.\<close>

lemma refill_full:
  assumes l: "0 < sint limit" "sint limit \<le> 2 ^ 53" and w: "0 < sint window"
  shows "refill (f_of_int64 limit) 0 limit window = f_of_int64 limit"
proof -
  let ?L = "of_int (sint limit) :: rat" and ?W = "of_int (sint window) / 10 ^ 9 :: rat"
  have w': "0 \<le> sint window" using w by simp
  obtain sw where sw: "Seconds window = Fin sw" "0 \<le> sw" "\<bar>sw - ?W\<bar> \<le> 3 * v52 * ?W" by (rule Seconds_close [OF w'])
  have "(of_int 1 :: rat) \<le> ?L" "?L \<le> of_int (2 ^ 53)" using l unfolding of_int_le_iff by simp_all
  then have LL: "1 \<le> ?L" "?L \<le> 2 ^ 53" by simp_all
  note R = rate_close [OF LL seconds_range(3,2) [OF w'] sw(3), OF w]
  have rL: "f_of_int64 limit = Fin ?L" using f_of_int64_small [of limit] l by simp
  have "0 \<le> ?L / sw" using LL R(1) by simp
  moreover have "?L / sw \<le> 2 ^ 200" using R(2) by (rule order_trans) simp
  ultimately have rate: "f_div (Fin ?L) (Fin sw) = Fin (rnd (?L / sw))" using R(1) fl_Fin [of "?L / sw"] by simp
  have "fl ?L = Fin ?L" using rL by (simp add: f_of_int64_def)
  then show ?thesis unfolding refill_def Let_def rL sw(1) rate Seconds_0 by (simp add: fl_0)
qed

lemma tb_Allow_fresh:
  assumes "0 < sint limit" "sint limit \<le> 2 ^ 53" "0 < sint window" "gm_get tb k = None"
  shows "Allowed (fst (tb_Allow oor now k limit window tb))"
proof -
  have "(of_int 1 :: rat) \<le> of_int (sint limit)" using assms(1) unfolding of_int_le_iff by simp
  then have "f_le (Fin 1) (f_of_int64 limit)" using f_of_int64_small [of limit] assms(1,2) by (auto simp: f_le_def)
  moreover have "time_sub now now = 0" by (simp add: time_sub_def)
  ultimately show ?thesis using assms(4) refill_full [OF assms(1-3)] by (simp add: tb_Allow_def Let_def)
qed

text \<open>The estimate of the sliding window is at least the count of the current window.\<close>

lemma estimate_ge:
  assumes p: "0 \<le> sint (prevCount w)" "sint (prevCount w) \<le> 2 ^ 53"
    and c: "0 \<le> sint (currCount w)" "sint (currCount w) \<le> 2 ^ 53"
    and t: "currStart w \<le> now" and wl: "0 < sint wlen"
  obtains x where "estimate now wlen w = Fin x" "of_int (sint (currCount w)) \<le> x" "x \<le> 2 ^ 60"
proof -
  let ?e = "time_sub now (currStart w)"
  let ?P = "of_int (sint (prevCount w)) :: rat" and ?C = "of_int (sint (currCount w)) :: rat"
  have e: "0 \<le> sint ?e" using t by (simp add: sint_time_sub)
  have wl': "0 \<le> sint wlen" using wl by simp
  let ?W = "of_int (sint wlen) / 10 ^ 9 :: rat" and ?E = "of_int (sint ?e) / 10 ^ 9 :: rat"
  obtain sw where sw: "Seconds wlen = Fin sw" "0 \<le> sw" "\<bar>sw - ?W\<bar> \<le> 3 * v52 * ?W" by (rule Seconds_close [OF wl'])
  obtain se where se: "Seconds ?e = Fin se" "0 \<le> se" "\<bar>se - ?E\<bar> \<le> 3 * v52 * ?E" by (rule Seconds_close [OF e])
  have sw0: "0 < sw" "1 / sw \<le> 2 ^ 100" using rate_close(1,2) [OF _ _ seconds_range(3,2) [OF wl'] sw(3), of 1] wl by simp_all
  have "0 \<le> ?E" using e by simp
  then have "se \<le> 2 * 2 ^ 64" by (rule close_le [OF se(3) _ seconds_range(2) [OF e]])
  then have "se * (1 / sw) \<le> (2 * 2 ^ 64) * 2 ^ 100" using sw0 se(2) by (intro mult_mono) auto
  also have "(2 * 2 ^ 64) * 2 ^ 100 \<le> (2::rat) ^ 200" by simp
  finally have q: "se / sw \<le> 2 ^ 200" by simp
  have q0: "0 \<le> se / sw" using se(2) sw0 by simp
  define g where "g = (if 1 < rnd (se / sw) then 1 else rnd (se / sw))"
  have g: "0 \<le> g" "g \<le> 1" using rnd_nonneg [OF q0] by (auto simp: g_def)
  have h: "0 \<le> rnd (1 - g)" "rnd (1 - g) \<le> 1" using rnd_nonneg [of "1 - g"] rnd_le [of "1 - g" 1] g by simp_all
  have "(0::rat) \<le> of_int (sint (prevCount w))" "?P \<le> of_int (2 ^ 53)" "0 \<le> ?C" "?C \<le> of_int (2 ^ 53)"
    using p c unfolding of_int_le_iff by simp_all
  then have PC: "0 \<le> ?P" "?P \<le> 2 ^ 53" "0 \<le> ?C" "?C \<le> 2 ^ 53" by simp_all
  have m: "0 \<le> ?P * rnd (1 - g)" "?P * rnd (1 - g) \<le> ?P"
    using PC(1) h mult_left_mono [OF h(2) PC(1)] by simp_all
  let ?m = "rnd (?P * rnd (1 - g))"
  have mm: "0 \<le> ?m" "?m \<le> ?P" using rnd_nonneg [OF m(1)] rnd_le [OF m(1) p(2) m(2)] by simp_all
  have s: "0 \<le> ?m + ?C" "?m + ?C \<le> 2 * 2 ^ 53" using mm PC by linarith+
  have f1: "f_div (Seconds ?e) (Seconds wlen) = Fin (rnd (se / sw))"
    using se(1) sw(1) sw0(1) fl_Fin [OF q0 q] by simp
  have f2: "f_sub (Fin 1) (Fin g) = Fin (rnd (1 - g))" using g by (simp add: f_sub_def fl_Fin)
  have f3: "f_mul (Fin ?P) (Fin (rnd (1 - g))) = Fin ?m"
    using fl_Fin [OF m(1)] m(2) PC(2) by simp
  have f4: "f_add (Fin ?m) (Fin ?C) = Fin (rnd (?m + ?C))" using fl_Fin [OF s(1)] s(2) by simp
  have f5: "f_of_int64 (prevCount w) = Fin ?P" "f_of_int64 (currCount w) = Fin ?C"
    using f_of_int64_small p c by simp_all
  have f6: "(if f_less (Fin 1) (Fin (rnd (se / sw))) then Fin 1 else Fin (rnd (se / sw))) = Fin g"
    by (simp add: g_def)
  have est: "estimate now wlen w = Fin (rnd (?m + ?C))"
    unfolding estimate_def Let_def f1 f6 f2 f5 f3 f4 ..
  show ?thesis
  proof (rule that [OF est])
    show "?C \<le> rnd (?m + ?C)" using rnd_ge [OF c, of "?m + ?C"] mm(1) by simp
    have "\<bar>rnd (?m + ?C) - (?m + ?C)\<bar> \<le> v52 * (2 * 2 ^ 53)" by (rule rnd_abs [OF s]) simp
    then have "rnd (?m + ?C) \<le> 2 * 2 ^ 53 + v52 * (2 * 2 ^ 53)" using s(2) by linarith
    also have "\<dots> \<le> 2 ^ 60" by (simp add: v52_def)
    finally show "rnd (?m + ?C) \<le> 2 ^ 60" .
  qed
qed

definition counts_ok :: "int64 \<Rightarrow> window \<Rightarrow> bool" where
  "counts_ok limit w \<longleftrightarrow> 0 \<le> sint (prevCount w) \<and> sint (prevCount w) \<le> sint limit \<and>
     0 \<le> sint (currCount w) \<and> sint (currCount w) \<le> sint limit"

lemma sint_double: "0 < sint wlen \<Longrightarrow> 2 * sint wlen < 2 ^ 63 \<Longrightarrow> sint (2 * wlen :: duration) = 2 * sint wlen"
  using sint_word_of_int_id [of "2 * sint wlen"] by (simp add: of_int_sint)

lemma advance_cases:
  assumes "0 < sint wlen" "2 * sint wlen < 2 ^ 63" "currStart w \<le> now"
  shows "advance now wlen w =
    (if 2 * sint wlen \<le> now - currStart w then w\<lparr>prevCount := 0, currCount := 0, currStart := now\<rparr>
     else if sint wlen \<le> now - currStart w then
       w\<lparr>prevCount := currCount w, currCount := 0, currStart := currStart w + sint wlen\<rparr>
     else w)"
proof -
  have "less64 (time_sub now (currStart w)) (2 * wlen) \<longleftrightarrow> now - currStart w < 2 * sint wlen"
    "less64 (time_sub now (currStart w)) wlen \<longleftrightarrow> now - currStart w < sint wlen"
    using assms sint64_bounds [of wlen] unfolding less64_def sint_time_sub sint_double [OF assms(1,2)] by auto
  then show ?thesis by (simp add: advance_def time_add_def not_less)
qed

text \<open>The window a call works on: the stored one or a new one.\<close>

definition window_for :: "instant \<Rightarrow> string \<Rightarrow> int64 \<Rightarrow> duration \<Rightarrow> sliding_window \<Rightarrow> window" where
  "window_for now k limit wlen sw =
     (case gm_get sw k of
        Some w \<Rightarrow> w
      | None \<Rightarrow> \<lparr>prevCount = 0, currCount = 0, w_limit = limit, windowLen = wlen, currStart = now\<rparr>)"

text \<open>One call for the key: the count of its window grows by the grant and stays within the limit.\<close>

lemma sw_Allow_step:
  assumes l: "0 \<le> sint limit" "sint limit \<le> 2 ^ 53" and wl: "0 < sint wlen" "2 * sint wlen < 2 ^ 63"
    and w: "window_for now k limit wlen sw = w" "counts_ok limit w" "currStart w \<le> now"
  obtains w' where "gm_get (snd (sw_Allow oor now k limit wlen sw)) k = Some w'" "counts_ok limit w'" "currStart w' \<le> now"
    "currStart w' = currStart (advance now wlen w)"
    "sint (currCount w') = sint (currCount (advance now wlen w)) +
       (if Allowed (fst (sw_Allow oor now k limit wlen sw)) then 1 else 0)"
proof -
  define w1 where "w1 = advance now wlen (w\<lparr>w_limit := limit, windowLen := wlen\<rparr>)"
  have w1: "counts_ok limit w1" "currStart w1 = currStart (advance now wlen w)"
    "currCount w1 = currCount (advance now wlen w)" "currStart w1 \<le> now"
    using w(2,3) l(1) wl unfolding w1_def by (auto simp: advance_cases counts_ok_def)
  let ?A = "sw_Allow oor now k limit wlen sw"
  obtain x where x: "estimate now wlen w1 = Fin x" "of_int (sint (currCount w1)) \<le> x" "x \<le> 2 ^ 60"
    by (rule estimate_ge [of w1 now wlen]) (use w1(1,4) l wl in \<open>auto simp: counts_ok_def\<close>)
  let ?est = "f_to_int64 oor (estimate now wlen w1)"
  have "0 \<le> sint (currCount w1)" using w1(1) by (simp add: counts_ok_def)
  then have x0: "0 \<le> x" using x(2) by (meson of_int_0_le_iff order_trans)
  have fx: "sint (currCount w1) \<le> \<lfloor>x\<rfloor>" using x(2) by (simp add: le_floor_iff)
  have "\<lfloor>x\<rfloor> \<le> \<lfloor>(2::rat) ^ 60\<rfloor>" using x(3) by (rule floor_mono)
  then have "\<lfloor>x\<rfloor> < 2 ^ 63" by simp
  then have est: "sint ?est = \<lfloor>x\<rfloor>"
    using x(1) x0 sint_word_of_int_id [of "\<lfloor>x\<rfloor>"] by (simp add: trunc_rat_def Let_def)
  show ?thesis
  proof (cases "less64 ?est limit")
    case True
    then have lt: "sint (currCount w1) < sint limit" using est fx by (simp add: less64_def)
    have inc: "sint (currCount w1 + 1) = sint (currCount w1) + 1"
      using sint_word_of_int_id [of "sint (currCount w1) + 1"] lt \<open>0 \<le> sint (currCount w1)\<close> l(2)
      by (simp add: of_int_sint)
    have "gm_get (snd ?A) k = Some (w1\<lparr>currCount := currCount w1 + 1\<rparr>)" "Allowed (fst ?A)"
      using True w(1) w1_def by (simp_all add: sw_Allow_def Let_def window_for_def)
    then show ?thesis
      using that [of "w1\<lparr>currCount := currCount w1 + 1\<rparr>"] w1 inc lt by (auto simp: counts_ok_def)
  next
    case False
    have "gm_get (snd ?A) k = Some w1" "\<not> Allowed (fst ?A)"
      using False w(1) w1_def by (simp_all add: sw_Allow_def Let_def window_for_def)
    then show ?thesis using that [of w1] w1 by simp
  qed
qed

lemma sw_Allow_other: "key \<noteq> k \<Longrightarrow> gm_get (snd (sw_Allow oor now key limit wlen sw)) k = gm_get sw k"
  by (simp add: sw_Allow_def Let_def)

lemma window_for_fresh:
  assumes "gm_get sw k = None" "0 \<le> sint limit"
  shows "counts_ok limit (window_for now k limit wlen sw)" "currStart (window_for now k limit wlen sw) = now"
    "currCount (window_for now k limit wlen sw) = 0"
  using assms by (simp_all add: window_for_def counts_ok_def)

text \<open>What the windows that meet an interval that ends at \<open>b\<close> can still grant.\<close>

definition room :: "int64 \<Rightarrow> duration \<Rightarrow> instant \<Rightarrow> window \<Rightarrow> int" where
  "room limit wlen b w =
     (if b < currStart w + sint wlen then sint limit - sint (currCount w)
      else if b < currStart w + 2 * sint wlen then 2 * sint limit - sint (currCount w)
      else 2 * sint limit)"

lemma sw_room_step:
  assumes l: "0 \<le> sint limit" "sint limit \<le> 2 ^ 53" and wl: "0 < sint wlen" "2 * sint wlen < 2 ^ 63"
    and w: "window_for now k limit wlen sw = w" "counts_ok limit w" "currStart w \<le> now"
    and t: "t0 \<le> now" "now \<le> b" "b < t0 + sint wlen"
  obtains w' where "gm_get (snd (sw_Allow oor now k limit wlen sw)) k = Some w'" "counts_ok limit w'" "currStart w' \<le> now"
    "room limit wlen b w' + (if Allowed (fst (sw_Allow oor now k limit wlen sw)) then 1 else 0) \<le> room limit wlen b w"
proof -
  obtain w' where w': "gm_get (snd (sw_Allow oor now k limit wlen sw)) k = Some w'" "counts_ok limit w'" "currStart w' \<le> now"
    "currStart w' = currStart (advance now wlen w)"
    "sint (currCount w') = sint (currCount (advance now wlen w)) +
       (if Allowed (fst (sw_Allow oor now k limit wlen sw)) then 1 else 0)"
    by (rule sw_Allow_step [OF l wl w])
  show ?thesis
    by (rule that [OF w'(1,2,3)])
      (use w'(4,5) w(2) t l(1) wl(1) in
        \<open>auto simp: room_def advance_cases [OF wl w(3)] counts_ok_def split: if_splits\<close>)
qed

lemma sw_grants_room:
  assumes l: "0 \<le> sint limit" "sint limit \<le> 2 ^ 53" and wl: "0 < sint wlen" "2 * sint wlen < 2 ^ 63"
    and "gm_get sw k = Some w" "counts_ok limit w" "currStart w \<le> a"
    and "steady k limit wlen a b cs" "t0 \<le> a" "b < t0 + sint wlen"
  shows "int (sw_grants oor k cs sw) \<le> room limit wlen b w"
  using assms(5-)
proof (induction cs arbitrary: a sw w)
  case Nil
  then show ?case using l(1) by (auto simp: room_def counts_ok_def)
next
  case (Cons c cs)
  obtain now key lim win where c: "c = (now, key, lim, win)" by (cases c)
  show ?case
  proof (cases "key = k")
    case True
    then have st: "lim = limit" "win = wlen" "a \<le> now" "now \<le> b" "steady k limit wlen now b cs"
      using Cons.prems(4) c by simp_all
    have s: "currStart w \<le> now" "t0 \<le> now" using Cons.prems(3,5) st(3) by simp_all
    have wf: "window_for now k limit wlen sw = w" using Cons.prems(1) by (simp add: window_for_def)
    let ?A = "sw_Allow oor now k limit wlen sw"
    obtain w' where w': "gm_get (snd ?A) k = Some w'" "counts_ok limit w'" "currStart w' \<le> now"
      "room limit wlen b w' + (if Allowed (fst ?A) then 1 else 0) \<le> room limit wlen b w"
      by (rule sw_room_step [OF l wl wf Cons.prems(2) s(1,2) st(4) Cons.prems(6)])
    have "int (sw_grants oor k cs (snd ?A)) \<le> room limit wlen b w'"
      by (rule Cons.IH [OF w'(1,2,3) st(5) s(2) Cons.prems(6)])
    then show ?thesis using w'(4) c True st(1,2) by (auto simp: case_prod_unfold Let_def split: if_splits)
  next
    case False
    have "int (sw_grants oor k cs (snd (sw_Allow oor now key lim win sw))) \<le> room limit wlen b w"
      by (rule Cons.IH [OF _ Cons.prems(2,3) _ Cons.prems(5,6)])
        (use Cons.prems(1,4) sw_Allow_other [OF False] c False in simp_all)
    then show ?thesis using c False by (simp add: case_prod_unfold Let_def)
  qed
qed


text \<open>The state of the window of a key between calls.\<close>

definition window_ok :: "string \<Rightarrow> int64 \<Rightarrow> instant \<Rightarrow> sliding_window \<Rightarrow> bool" where
  "window_ok k limit a sw \<longleftrightarrow>
     (case gm_get sw k of None \<Rightarrow> True | Some w \<Rightarrow> counts_ok limit w \<and> currStart w \<le> a)"

lemma window_ok_for:
  assumes "window_ok k limit a sw" "0 \<le> sint limit" "a \<le> now"
  shows "counts_ok limit (window_for now k limit wlen sw)" "currStart (window_for now k limit wlen sw) \<le> now"
  using assms window_for_fresh [of sw k limit now wlen]
  by (auto simp: window_ok_def window_for_def split: option.splits)

lemma window_ok_after:
  assumes l: "0 \<le> sint limit" "sint limit \<le> 2 ^ 53" and wl: "0 < sint wlen" "2 * sint wlen < 2 ^ 63"
    and "window_ok k limit a sw" "steady k limit wlen a b cs" "a \<le> b"
  shows "window_ok k limit b (sw_after oor cs sw)"
  using assms(5-)
proof (induction cs arbitrary: a sw)
  case Nil
  then show ?case by (auto simp: window_ok_def split: option.splits)
next
  case (Cons c cs)
  obtain now key lim win where c: "c = (now, key, lim, win)" by (cases c)
  show ?case
  proof (cases "key = k")
    case True
    then have st: "lim = limit" "win = wlen" "a \<le> now" "now \<le> b" "steady k limit wlen now b cs"
      using Cons.prems(2) c by simp_all
    obtain w' where w': "gm_get (snd (sw_Allow oor now k limit wlen sw)) k = Some w'" "counts_ok limit w'" "currStart w' \<le> now"
      by (rule sw_Allow_step [OF l wl refl window_ok_for [OF Cons.prems(1) l(1) st(3)]])
    then have "window_ok k limit now (snd (sw_Allow oor now k limit wlen sw))" by (simp add: window_ok_def)
    from Cons.IH [OF this st(5,4)] show ?thesis using c True st(1,2) by simp
  next
    case False
    then have "window_ok k limit a (snd (sw_Allow oor now key lim win sw))"
      using Cons.prems(1) by (simp add: window_ok_def sw_Allow_other)
    from Cons.IH [OF this _ Cons.prems(3)] show ?thesis using c False Cons.prems(2) by simp
  qed
qed

lemma room_bound: "0 \<le> sint limit \<Longrightarrow> counts_ok limit w \<Longrightarrow> room limit wlen b w \<le> 2 * sint limit"
  by (auto simp: room_def counts_ok_def)

lemma sw_grants_two_limits:
  assumes l: "0 \<le> sint limit" "sint limit \<le> 2 ^ 53" and wl: "0 < sint wlen" "2 * sint wlen < 2 ^ 63"
    and "window_ok k limit t0 sw" "steady k limit wlen t0 b cs" "b < t0 + sint wlen"
  shows "int (sw_grants oor k cs sw) \<le> 2 * sint limit"
  using assms(5,6)
proof (induction cs arbitrary: sw)
  case (Cons c cs)
  obtain now key lim win where c: "c = (now, key, lim, win)" by (cases c)
  show ?case
  proof (cases "key = k")
    case True
    then have st: "lim = limit" "win = wlen" "t0 \<le> now" "now \<le> b" "steady k limit wlen now b cs"
      using Cons.prems(2) c by simp_all
    note W = window_ok_for [OF Cons.prems(1) l(1) st(3), of wlen]
    let ?A = "sw_Allow oor now k limit wlen sw"
    obtain w' where w': "gm_get (snd ?A) k = Some w'" "counts_ok limit w'" "currStart w' \<le> now"
      "room limit wlen b w' + (if Allowed (fst ?A) then 1 else 0) \<le> room limit wlen b (window_for now k limit wlen sw)"
      by (rule sw_room_step [OF l wl refl W st(3,4) assms(7)])
    have "int (sw_grants oor k cs (snd ?A)) \<le> room limit wlen b w'"
      by (rule sw_grants_room [OF l wl w'(1,2,3) st(5) st(3) assms(7)])
    then show ?thesis
      using w'(4) room_bound [OF l(1) W(1), of wlen b] c True st(1,2) by (auto simp: case_prod_unfold Let_def split: if_splits)
  next
    case False
    then have "window_ok k limit t0 (snd (sw_Allow oor now key lim win sw))"
      using Cons.prems(1) by (simp add: window_ok_def sw_Allow_other)
    from Cons.IH [OF this] show ?thesis using c False Cons.prems(2) by (simp add: case_prod_unfold Let_def)
  qed
qed (use l in simp)

section \<open>Properties\<close>

text \<open>C26: The token bucket limits the rate. Over all calls for a key that are made with one limit and one
  window (and clock readings in order between \<open>a\<close> and \<open>b\<close>), however the calls for other keys are
  interleaved, the number of grants is at most the limit (the burst), plus what the time between
  \<open>a\<close> and \<open>b\<close> refills, up to the rounding of \<open>float64\<close>: a relative error of \<open>2^-48\<close> of the refill and
  \<open>3 * limit / 2^52\<close> tokens for every call.\<close>

theorem token_bucket_rate:
  assumes "0 < sint limit" "sint limit \<le> 2 ^ 53" "0 < sint window" "steady k limit window a b cs" "a \<le> b"
  shows "of_nat (tb_grants oor k cs NewTokenBucket) \<le>
    of_int (sint limit) + of_int (b - a) * (of_int (sint limit) / of_int (sint window)) * (1 + 1 / 2 ^ 48)
    + (3 * of_int (sint limit) * of_nat (length cs) / 2 ^ 52 :: rat)"
  using tb_grants_fresh [OF assms(1,2,3) refl assms(4) _ assms(5), of NewTokenBucket oor]
  by (simp add: NewTokenBucket_def v52_def)

theorem token_bucket_rate_witness:
  "tb_grants (\<lambda>_. 0) ''u'' [(0, ''u'', 2, second), (0, ''u'', 2, second), (0, ''v'', 9, second), (0, ''u'', 2, second)] NewTokenBucket \<le> 2"
proof -
  let ?cs = "[(0, ''u'', 2, second), (0, ''u'', 2, second), (0, ''v'', 9, second), (0, ''u'', 2, second)]"
  let ?n = "tb_grants (\<lambda>_. 0) ''u'' ?cs NewTokenBucket"
  have "of_nat ?n \<le> (2 + 1 / 2 ^ 40 :: rat)"
    using token_bucket_rate [of 2 second "''u''" 0 0 ?cs "\<lambda>_. 0"] by simp
  then have "(of_nat ?n :: rat) < of_nat 3" by (rule le_less_trans) simp
  then show ?thesis unfolding of_nat_less_iff by simp
qed

text \<open>A window of zero locks a key out for ever. The first call for a key with \<open>Window\<close> zero computes
  \<open>0 * Inf\<close>, is refused, and leaves \<open>NaN\<close> tokens in the bucket; from then on every call for the key,
  with whatever limit, window and time, is refused (until \<open>Reset\<close>, which the cache never calls).\<close>

lemma token_bucket_zero_window_locks_out:
  assumes "gm_get tb k = None"
  shows "\<not> Allowed (fst (tb_Allow oor now k limit 0 tb)) \<and>
    tb_grants oor k cs (snd (tb_Allow oor now k limit 0 tb)) = 0"
proof -
  have s: "time_sub now now = 0" by (simp add: time_sub_def)
  have n: "\<not> f_le (Fin 1) NaN" by (simp add: f_le_def)
  let ?b = "\<lparr>tokens = NaN, b_limit = limit, lastFill = now, b_window = 0\<rparr>"
  have A: "\<not> Allowed (fst (tb_Allow oor now k limit 0 tb))"
    "gm_get (snd (tb_Allow oor now k limit 0 tb)) k = Some ?b"
    using assms n by (simp_all add: tb_Allow_def Let_def s refill_zero_window)
  then show ?thesis using tb_nan_sticky [OF A(2)] by simp
qed



end
