(* ===== verification/Net_Addr.thy ===== *)
theory Net_Addr
  imports Go_Std
begin

text \<open>
  The parts of \<open>net\<close> and \<open>strconv\<close> that the addresses and ports of the cluster go through:
  \<open>strconv.Itoa\<close>, \<open>strconv.Atoi\<close>, \<open>net.JoinHostPort\<close> and \<open>net.SplitHostPort\<close>. The last section shows
  that splitting inverts joining.
\<close>

section \<open>Definitions\<close>

definition Itoa :: "int \<Rightarrow> string" where
  "Itoa i = (if i < 0 then CHR ''-'' # itoa (nat (- i)) else itoa (nat i))"

text \<open>\<open>strconv.Atoi\<close>: an optional sign and decimal digits. The value comes with the flag \<open>err == nil\<close>: zero
  for a syntax error, the nearest \<open>int64\<close> for a number out of range.\<close>

definition is_digit :: "char \<Rightarrow> bool" where
  "is_digit c \<longleftrightarrow> c \<in> set ''0123456789''"

definition digit_value :: "char \<Rightarrow> nat" where
  "digit_value c = of_char c - 48"

definition decimal :: "string \<Rightarrow> nat" where
  "decimal s = foldl (\<lambda>n c. 10 * n + digit_value c) 0 s"

definition Atoi :: "string \<Rightarrow> int \<times> bool" where
  "Atoi s =
     (let neg = (s \<noteq> [] \<and> hd s = CHR ''-'');
          s' = (if s \<noteq> [] \<and> (hd s = CHR ''-'' \<or> hd s = CHR ''+'') then tl s else s);
          n = (if neg then - int (decimal s') else int (decimal s'))
      in if s' = [] \<or> \<not> list_all is_digit s' then (0, False)
         else if n < - (2 ^ 63) then (- (2 ^ 63), False)
         else if 2 ^ 63 \<le> n then (2 ^ 63 - 1, False)
         else (n, True))"

definition JoinHostPort :: "string \<Rightarrow> string \<Rightarrow> string" where
  "JoinHostPort host port =
     (if CHR '':'' \<in> set host then ''['' @ host @ '']:'' @ port else host @ '':'' @ port)"

text \<open>The index of the first and of the last occurrence of a byte.\<close>

fun IndexByte :: "char \<Rightarrow> string \<Rightarrow> nat option" where
  "IndexByte c [] = None"
| "IndexByte c (x # xs) = (if x = c then Some 0 else map_option Suc (IndexByte c xs))"

fun LastIndexByte :: "char \<Rightarrow> string \<Rightarrow> nat option" where
  "LastIndexByte c [] = None"
| "LastIndexByte c (x # xs) =
     (case LastIndexByte c xs of Some i \<Rightarrow> Some (Suc i) | None \<Rightarrow> if x = c then Some 0 else None)"

text \<open>\<open>SplitHostPort\<close>; \<open>Inl\<close> is the reason of the \<open>AddrError\<close>.\<close>

definition split_tail :: "string \<Rightarrow> string \<Rightarrow> nat \<Rightarrow> nat \<Rightarrow> nat \<Rightarrow> string + (string \<times> string)" where
  "split_tail hostport host i j k =
     (if CHR ''['' \<in> set (drop j hostport) then Inl ''unexpected [ in address''
      else if CHR '']'' \<in> set (drop k hostport) then Inl ''unexpected ] in address''
      else Inr (host, drop (Suc i) hostport))"

definition SplitHostPort :: "string \<Rightarrow> string + (string \<times> string)" where
  "SplitHostPort hostport =
     (case LastIndexByte (CHR '':'') hostport of
        None \<Rightarrow> Inl ''missing port in address''
      | Some i \<Rightarrow>
          if hd hostport = CHR ''['' then
            (case IndexByte (CHR '']'') hostport of
               None \<Rightarrow> Inl ''missing ] in address''
             | Some e \<Rightarrow>
                 if e + 1 = length hostport then Inl ''missing port in address''
                 else if e + 1 = i then split_tail hostport (take (e - 1) (tl hostport)) i 1 (e + 1)
                 else if hostport ! (e + 1) = CHR '':'' then Inl ''too many colons in address''
                 else Inl ''missing port in address'')
          else
            (let host = take i hostport
             in if CHR '':'' \<in> set host then Inl ''too many colons in address''
                else split_tail hostport host i 0 0))"

section \<open>Lemmas\<close>

lemma LastIndexByte_none: "c \<notin> set s \<Longrightarrow> LastIndexByte c s = None"
  by (induction s) auto

lemma LastIndexByte_append: "c \<notin> set p \<Longrightarrow> LastIndexByte c (h @ c # p) = Some (length h)"
  by (induction h) (auto simp: LastIndexByte_none)

lemma IndexByte_append: "c \<notin> set h \<Longrightarrow> IndexByte c (h @ c # p) = Some (length h)"
  by (induction h) auto

lemma SplitHostPort_Join:
  assumes "CHR ''['' \<notin> set host" "CHR '']'' \<notin> set host" "CHR '':'' \<notin> set port" "CHR ''['' \<notin> set port" "CHR '']'' \<notin> set port"
  shows "SplitHostPort (JoinHostPort host port) = Inr (host, port)"
proof (cases "CHR '':'' \<in> set host")
  case True
  have e: "JoinHostPort host port = (CHR ''['' # host @ [CHR '']'']) @ CHR '':'' # port"
    "JoinHostPort host port = (CHR ''['' # host) @ CHR '']'' # CHR '':'' # port"
    using True by (simp_all add: JoinHostPort_def)
  have "LastIndexByte (CHR '':'') (JoinHostPort host port) = Some (length host + 2)"
    using LastIndexByte_append [OF assms(3), of "CHR ''['' # host @ [CHR '']'']"] unfolding e(1) by simp
  moreover have "IndexByte (CHR '']'') (JoinHostPort host port) = Some (length host + 1)"
    using IndexByte_append [of "CHR '']''" "CHR ''['' # host" "CHR '':'' # port"] assms(2) unfolding e(2) by simp
  ultimately show ?thesis
    using assms by (simp add: SplitHostPort_def split_tail_def e(2))
next
  case False
  have e: "JoinHostPort host port = host @ CHR '':'' # port" using False by (simp add: JoinHostPort_def)
  have "hd (host @ CHR '':'' # port) \<noteq> CHR ''[''" using assms(1) by (cases host) auto
  then show ?thesis
    using LastIndexByte_append [OF assms(3), of host] assms False by (simp add: SplitHostPort_def split_tail_def e)
qed

end
