(* ===== verification/Cluster.thy ===== *)
theory Cluster
  imports Ring_Props Net_Addr
begin

text \<open>
  Cluster membership: the table of known nodes (\<open>src/internal/cluster/state.go\<close>) and the gossip
  callbacks that keep the table and the hash ring (\<open>src/internal/cluster/member.go\<close>).

  The gossip library (hashicorp/memberlist) is not part of the repository. It runs the callbacks
  \<open>NotifyJoin\<close>, \<open>NotifyLeave\<close> and \<open>NotifyUpdate\<close>, one at a time; a run is a list of such events. What
  \<open>json.Unmarshal\<close> leaves in a \<open>NodeMeta\<close> is the argument \<open>unmarshal\<close>. The calls to the event handler are
  part of the answer; a panic of the ring is \<open>None\<close>.
\<close>

section \<open>Definitions: the table of nodes\<close>

datatype NodeStatus = NodeAlive | NodeSuspect | NodeDead | NodeLeft

fun status_String :: "NodeStatus \<Rightarrow> string" where
  "status_String NodeAlive = ''alive''"
| "status_String NodeSuspect = ''suspect''"
| "status_String NodeDead = ''dead''"
| "status_String NodeLeft = ''left''"

record NodeMeta =
  mRPCPort :: int
  mHTTPPort :: int
  mVersion :: string

record NodeInfo =
  nName :: string
  nAddr :: string
  nRPCAddr :: string
  nHTTPAddr :: string
  nStatus :: NodeStatus
  nJoinedAt :: instant
  nMeta :: NodeMeta

record cluster_state =
  nodes :: "(string, NodeInfo) gomap"
  selfName :: string

definition NewClusterState :: "string \<Rightarrow> cluster_state" where
  "NewClusterState name = \<lparr>nodes = [], selfName = name\<rparr>"

definition cs_AddNode :: "NodeInfo \<Rightarrow> cluster_state \<Rightarrow> cluster_state" where
  "cs_AddNode info cs = cs\<lparr>nodes := gm_set (nName info) info (nodes cs)\<rparr>"

definition cs_RemoveNode :: "string \<Rightarrow> cluster_state \<Rightarrow> cluster_state" where
  "cs_RemoveNode name cs = cs\<lparr>nodes := gm_del name (nodes cs)\<rparr>"

definition UpdateStatus :: "string \<Rightarrow> NodeStatus \<Rightarrow> cluster_state \<Rightarrow> cluster_state" where
  "UpdateStatus name status cs =
     (case gm_get (nodes cs) name of
        None \<Rightarrow> cs
      | Some node \<Rightarrow> cs\<lparr>nodes := gm_set name (node\<lparr>nStatus := status\<rparr>) (nodes cs)\<rparr>)"

definition cs_GetNode :: "string \<Rightarrow> cluster_state \<Rightarrow> NodeInfo option" where
  "cs_GetNode name cs = gm_get (nodes cs) name"

definition LiveNodes :: "cluster_state \<Rightarrow> NodeInfo list" where
  "LiveNodes cs = filter (\<lambda>node. nStatus node = NodeAlive) (map snd (nodes cs))"

definition AllNodes :: "cluster_state \<Rightarrow> NodeInfo list" where
  "AllNodes cs = map snd (nodes cs)"

definition SelfName :: "cluster_state \<Rightarrow> string" where
  "SelfName cs = selfName cs"

definition NodeCount :: "cluster_state \<Rightarrow> nat" where
  "NodeCount cs = length (nodes cs)"

section \<open>Definitions: gossip callbacks\<close>

record MemberConfig =
  mcNodeName :: string
  mcBindAddr :: string
  mcBindPort :: int
  mcSeeds :: "string list"
  mcRPCPort :: int
  mcHTTPPort :: int

text \<open>\<open>json.Marshal(NodeMeta{...})\<close> without a version: a zero HTTP port is omitted.\<close>

definition meta_json :: "int \<Rightarrow> int \<Rightarrow> string" where
  "meta_json rpc http =
     ''{'' @ [CHR 0x22] @ ''rpc_port'' @ [CHR 0x22] @ '':'' @ Itoa rpc @
     (if http = 0 then '''' else '','' @ [CHR 0x22] @ ''http_port'' @ [CHR 0x22] @ '':'' @ Itoa http) @ ''}''"

record membership =
  mbConfig :: MemberConfig
  mbState :: cluster_state
  mbRing :: ring
  mbMeta :: string

text \<open>\<open>NewMembership\<close>; \<open>created\<close> is what \<open>memberlist.Create\<close> answers.\<close>

definition NewMembership ::
    "instant \<Rightarrow> string + unit \<Rightarrow> MemberConfig \<Rightarrow> cluster_state \<Rightarrow> ring \<Rightarrow> string + membership" where
  "NewMembership now created cfg state r =
     (case created of
        Inl err \<Rightarrow> Inl (''cluster: failed to create memberlist: '' @ err)
      | Inr _ \<Rightarrow>
          (let selfNode =
             \<lparr>nName = mcNodeName cfg,
              nAddr = mcBindAddr cfg @ '':'' @ Itoa (mcBindPort cfg),
              nRPCAddr = mcBindAddr cfg @ '':'' @ Itoa (mcRPCPort cfg),
              nHTTPAddr = mcBindAddr cfg @ '':'' @ Itoa (mcHTTPPort cfg),
              nStatus = NodeAlive, nJoinedAt = now,
              nMeta = \<lparr>mRPCPort = mcRPCPort cfg, mHTTPPort = mcHTTPPort cfg, mVersion = ''''\<rparr>\<rparr>
           in Inr \<lparr>mbConfig = cfg, mbState = cs_AddNode selfNode state,
                   mbRing = AddNode (mcNodeName cfg) r,
                   mbMeta = meta_json (mcRPCPort cfg) (mcHTTPPort cfg)\<rparr>))"

definition LocalNode :: "membership \<Rightarrow> NodeInfo option" where
  "LocalNode m = cs_GetNode (mcNodeName (mbConfig m)) (mbState m)"

text \<open>The delegate's \<open>NodeMeta\<close>: what the other nodes receive as metadata of this one.\<close>

definition delegate_NodeMeta :: "membership \<Rightarrow> string" where
  "delegate_NodeMeta m = mbMeta m"

text \<open>A node as the gossip library describes it.\<close>

record ml_node =
  mlName :: string
  mlAddr :: string
  mlPort :: int
  mlMeta :: string

definition nodeToInfo :: "(string \<Rightarrow> NodeMeta) \<Rightarrow> instant \<Rightarrow> ml_node \<Rightarrow> NodeInfo" where
  "nodeToInfo unmarshal now node =
     (let meta = (if mlMeta node \<noteq> '''' then unmarshal (mlMeta node)
                  else \<lparr>mRPCPort = 0, mHTTPPort = 0, mVersion = ''''\<rparr>);
          addr = mlAddr node
      in \<lparr>nName = mlName node, nAddr = addr @ '':'' @ Itoa (mlPort node),
          nRPCAddr = JoinHostPort addr (Itoa (mRPCPort meta)),
          nHTTPAddr = JoinHostPort addr (Itoa (mHTTPPort meta)),
          nStatus = NodeAlive, nJoinedAt = now, nMeta = meta\<rparr>)"

text \<open>The calls to the event handler.\<close>

datatype handler_call = OnNodeJoin NodeInfo | OnNodeLeave NodeInfo | OnNodeUpdate NodeInfo

definition unless_self :: "membership \<Rightarrow> ml_node \<Rightarrow> handler_call \<Rightarrow> handler_call list" where
  "unless_self m node c = (if mlName node \<noteq> mcNodeName (mbConfig m) then [c] else [])"

definition NotifyJoin ::
    "(string \<Rightarrow> NodeMeta) \<Rightarrow> instant \<Rightarrow> ml_node \<Rightarrow> membership \<Rightarrow> membership \<times> handler_call list" where
  "NotifyJoin unmarshal now node m =
     (let info = nodeToInfo unmarshal now node
      in (m\<lparr>mbState := cs_AddNode info (mbState m), mbRing := AddNode (mlName node) (mbRing m)\<rparr>,
          unless_self m node (OnNodeJoin info)))"

definition NotifyLeave ::
    "(string \<Rightarrow> NodeMeta) \<Rightarrow> instant \<Rightarrow> ml_node \<Rightarrow> membership \<Rightarrow> (membership \<times> handler_call list) option" where
  "NotifyLeave unmarshal now node m =
     (let info = (nodeToInfo unmarshal now node)\<lparr>nStatus := NodeLeft\<rparr>
      in case RemoveNode (mlName node) (mbRing m) of
           None \<Rightarrow> None
         | Some r \<Rightarrow>
             Some (m\<lparr>mbState := UpdateStatus (mlName node) NodeLeft (mbState m), mbRing := r\<rparr>,
                   unless_self m node (OnNodeLeave info)))"

definition NotifyUpdate ::
    "(string \<Rightarrow> NodeMeta) \<Rightarrow> instant \<Rightarrow> ml_node \<Rightarrow> membership \<Rightarrow> membership \<times> handler_call list" where
  "NotifyUpdate unmarshal now node m =
     (let info = nodeToInfo unmarshal now node
      in (m\<lparr>mbState := cs_AddNode info (mbState m)\<rparr>, unless_self m node (OnNodeUpdate info)))"

section \<open>Runs\<close>

datatype ml_event = EvJoin instant ml_node | EvLeave instant ml_node | EvUpdate instant ml_node

fun ml_step :: "(string \<Rightarrow> NodeMeta) \<Rightarrow> ml_event \<Rightarrow> membership \<Rightarrow> membership option" where
  "ml_step unmarshal (EvJoin now node) m = Some (fst (NotifyJoin unmarshal now node m))"
| "ml_step unmarshal (EvLeave now node) m = map_option fst (NotifyLeave unmarshal now node m)"
| "ml_step unmarshal (EvUpdate now node) m = Some (fst (NotifyUpdate unmarshal now node m))"

fun ml_run :: "(string \<Rightarrow> NodeMeta) \<Rightarrow> ml_event list \<Rightarrow> membership \<Rightarrow> membership option" where
  "ml_run unmarshal [] m = Some m"
| "ml_run unmarshal (e # es) m = (case ml_step unmarshal e m of None \<Rightarrow> None | Some m' \<Rightarrow> ml_run unmarshal es m')"

fun ev_name :: "ml_event \<Rightarrow> string" where
  "ev_name (EvJoin now node) = mlName node"
| "ev_name (EvLeave now node) = mlName node"
| "ev_name (EvUpdate now node) = mlName node"

text \<open>
  The members after a run; and the order the gossip library documents for its events: it reports an
  update only of a node that is a member.
\<close>

fun members_after :: "ml_event list \<Rightarrow> string set \<Rightarrow> string set" where
  "members_after [] M = M"
| "members_after (EvJoin now node # es) M = members_after es (insert (mlName node) M)"
| "members_after (EvLeave now node # es) M = members_after es (M - {mlName node})"
| "members_after (EvUpdate now node # es) M = members_after es M"

fun ml_contract :: "ml_event list \<Rightarrow> string set \<Rightarrow> bool" where
  "ml_contract [] M = True"
| "ml_contract (EvJoin now node # es) M = ml_contract es (insert (mlName node) M)"
| "ml_contract (EvLeave now node # es) M = ml_contract es (M - {mlName node})"
| "ml_contract (EvUpdate now node # es) M = (mlName node \<in> M \<and> ml_contract es M)"

text \<open>A table and a ring that agree: the ring holds the nodes that are alive in the table.\<close>

definition alive :: "cluster_state \<Rightarrow> string set" where
  "alive cs = {n. \<exists>info. cs_GetNode n cs = Some info \<and> nStatus info = NodeAlive}"

definition cluster_inv :: "nat \<Rightarrow> string set \<Rightarrow> membership \<Rightarrow> bool" where
  "cluster_inv v M m \<longleftrightarrow> ring_of v M (mbRing m) \<and> alive (mbState m) = M \<and>
     (\<forall>n info. cs_GetNode n (mbState m) = Some info \<longrightarrow> nName info = n)"

section \<open>Lemmas\<close>

lemma nodeToInfo_simps [simp]:
  "nName (nodeToInfo unmarshal now node) = mlName node" "nStatus (nodeToInfo unmarshal now node) = NodeAlive"
  by (simp_all add: nodeToInfo_def Let_def)

lemma cs_GetNode_Add [simp]:
  "cs_GetNode n (cs_AddNode info cs) = (if n = nName info then Some info else cs_GetNode n cs)"
  by (simp add: cs_GetNode_def cs_AddNode_def)

lemma cs_GetNode_Update [simp]:
  "cs_GetNode n (UpdateStatus name st cs) =
     (if n = name then map_option (\<lambda>i. i\<lparr>nStatus := st\<rparr>) (cs_GetNode n cs) else cs_GetNode n cs)"
  by (auto simp: cs_GetNode_def UpdateStatus_def split: option.split)

lemma alive_Add: "nStatus info = NodeAlive \<Longrightarrow> alive (cs_AddNode info cs) = insert (nName info) (alive cs)"
  by (auto simp: alive_def)

lemma alive_Left: "alive (UpdateStatus name NodeLeft cs) = alive cs - {name}"
  by (auto simp: alive_def)

lemma cluster_inv_new:
  assumes "clash_free v U" "mcNodeName cfg \<in> U" "v = vnodes (NewRing n)"
  obtains m where "NewMembership now (Inr ()) cfg (NewClusterState self) (NewRing n) = Inr m"
    "cluster_inv v {mcNodeName cfg} m"
  using that ring_of_Add [OF assms(1), of "mcNodeName cfg" "{}" "NewRing n"] ring_of_New [of n] assms
  by (auto simp: NewMembership_def Let_def cluster_inv_def alive_Add) (auto simp: alive_def cs_GetNode_def NewClusterState_def)

lemma ml_step_inv:
  assumes "clash_free v U" "M \<subseteq> U" "ev_name e \<in> U" "ml_contract [e] M" "cluster_inv v M m"
  obtains m' where "ml_step unmarshal e m = Some m'" "cluster_inv v (members_after [e] M) m'"
proof (cases e)
  case (EvJoin now node)
  then show ?thesis
    using that ring_of_Add [OF assms(1), of "mlName node" M "mbRing m"] assms
    by (simp add: NotifyJoin_def Let_def cluster_inv_def alive_Add)
next
  case (EvLeave now node)
  obtain r where r: "RemoveNode (mlName node) (mbRing m) = Some r" "ring_of v (M - {mlName node}) r"
    using ring_of_Remove [OF assms(1,2), of "mbRing m" "mlName node"] assms(5) by (auto simp: cluster_inv_def)
  let ?m = "m\<lparr>mbState := UpdateStatus (mlName node) NodeLeft (mbState m), mbRing := r\<rparr>"
  have "nName info = n" if "cs_GetNode n (mbState ?m) = Some info" for n info
    using that assms(5) by (auto simp: cluster_inv_def split: if_splits)
  moreover have "ring_of v (M - {mlName node}) (mbRing ?m)" "alive (mbState ?m) = M - {mlName node}"
    using r(2) assms(5) by (simp_all add: cluster_inv_def alive_Left)
  ultimately have "cluster_inv v (M - {mlName node}) ?m" unfolding cluster_inv_def by blast
  then show ?thesis using that [of ?m] r(1) EvLeave by (simp add: NotifyLeave_def Let_def)
next
  case (EvUpdate now node)
  then show ?thesis
    using that assms(4,5) by (auto simp: NotifyUpdate_def Let_def cluster_inv_def alive_Add insert_absorb)
qed

lemma members_after_sub: "members_after es M \<subseteq> M \<union> ev_name ` set es"
proof (induction es arbitrary: M)
  case (Cons e es)
  then show ?case by (cases e) fastforce+
qed simp

lemma members_after_Cons: "members_after (e # es) M = members_after es (members_after [e] M)"
  by (cases e) simp_all

lemma ml_contract_Cons: "ml_contract (e # es) M \<longleftrightarrow> ml_contract [e] M \<and> ml_contract es (members_after [e] M)"
  by (cases e) simp_all

lemma ml_run_inv:
  assumes "clash_free v U" "M \<subseteq> U" "ev_name ` set es \<subseteq> U" "ml_contract es M" "cluster_inv v M m"
  shows "\<exists>m'. ml_run unmarshal es m = Some m' \<and> cluster_inv v (members_after es M) m'"
  using assms(2-)
proof (induction es arbitrary: M m)
  case (Cons e es)
  have e: "ml_contract [e] M" "ml_contract es (members_after [e] M)" using Cons.prems(3) ml_contract_Cons by blast+
  have "ev_name e \<in> U" using Cons.prems(2) by simp
  then obtain m1 where m1: "ml_step unmarshal e m = Some m1" "cluster_inv v (members_after [e] M) m1"
    by (rule ml_step_inv [OF assms(1) Cons.prems(1) _ e(1) Cons.prems(4)])
  have "members_after [e] M \<subseteq> U" using members_after_sub [of "[e]" M] Cons.prems(1,2) by auto
  from Cons.IH [OF this _ e(2) m1(2)] Cons.prems(2) show ?case
    using m1(1) by (simp add: members_after_Cons [of e es])
qed simp

text \<open>The owner of a key is a function of the members.\<close>

lemma ring_of_same_owner:
  assumes "clash_free v U" "M \<subseteq> U" "ring_of v M r" "ring_of v M r'"
  shows "GetNode key r = GetNode key r'"
proof (cases "M = {}")
  case True
  then show ?thesis using assms(3,4) ring_of_empty [of v M r] ring_of_empty [of v M r'] by (simp add: GetNode_def)
next
  case False
  then show ?thesis
    using ring_of_GetNode_unique [OF assms(1,2,3)] ring_of_GetNode [OF assms(4) False, of key] by blast
qed

section \<open>Properties\<close>

text \<open>C8: The ring follows the table of nodes. A node that starts and then receives any sequence of
  gossip events (updates only of current members, which is the order the gossip library keeps) does not
  panic; afterwards the members of its ring are exactly the nodes whose status in its table is alive,
  and the owner it computes for a key is one of them, whenever there is one (no two virtual nodes
  collide).\<close>

theorem cluster_ring_follows_table:
  assumes "v = vnodes (NewRing n)" "clash_free v U" "insert (mcNodeName cfg) (ev_name ` set es) \<subseteq> U"
    and "ml_contract es {mcNodeName cfg}"
    and "NewMembership now (Inr ()) cfg (NewClusterState (mcNodeName cfg)) (NewRing n) = Inr m"
  shows "\<exists>m'. ml_run unmarshal es m = Some m' \<and>
    alive (mbState m') = members_after es {mcNodeName cfg} \<and>
    {k. HasNode k (mbRing m')} = alive (mbState m') \<and>
    (alive (mbState m') \<noteq> {} \<longrightarrow> GetNode key (mbRing m') \<in> alive (mbState m'))"
proof -
  have self: "mcNodeName cfg \<in> U" using assms(3) by simp
  have inv: "cluster_inv v {mcNodeName cfg} m"
    by (rule cluster_inv_new [OF assms(2) self assms(1), of now "mcNodeName cfg"]) (use assms(5) in simp)
  obtain m' where m': "ml_run unmarshal es m = Some m'" "cluster_inv v (members_after es {mcNodeName cfg}) m'"
    using ml_run_inv [OF assms(2) _ _ assms(4) inv, of unmarshal] assms(3) by auto
  let ?M = "members_after es {mcNodeName cfg}"
  have r: "ring_of v ?M (mbRing m')" "alive (mbState m') = ?M" using m'(2) by (simp_all add: cluster_inv_def)
  have "{k. HasNode k (mbRing m')} = ?M"
    using r(1) by (auto simp: HasNode_def gm_index_def ring_of_def split: if_splits)
  then show ?thesis using m'(1) r ring_of_GetNode [OF r(1), of key] by auto
qed

definition demo_config :: "string \<Rightarrow> MemberConfig" where
  "demo_config name = \<lparr>mcNodeName = name, mcBindAddr = ''10.0.0.1'', mcBindPort = 7946, mcSeeds = [], mcRPCPort = 7947, mcHTTPPort = 6380\<rparr>"

definition demo_node :: "string \<Rightarrow> ml_node" where
  "demo_node name = \<lparr>mlName = name, mlAddr = ''10.0.0.2'', mlPort = 7946, mlMeta = ''''\<rparr>"

lemma demo_clash_free: "clash_free 4 {''n1'', ''n2'', ''n3''}"
proof -
  have "distinct (map (\<lambda>(n, i). vhash n i) (List.product [''n1'', ''n2'', ''n3''] [0..<4]))" by code_simp
  then have "clash_free 4 (set [''n1'', ''n2'', ''n3''])" by (rule clash_free_list)
  then show ?thesis by (simp only: list.simps)
qed

theorem cluster_ring_follows_table_witness:
  "\<exists>m m'. NewMembership 0 (Inr ()) (demo_config ''n1'') (NewClusterState ''n1'') (NewRing 4) = Inr m \<and>
     ml_run (\<lambda>_. \<lparr>mRPCPort = 1, mHTTPPort = 0, mVersion = []\<rparr>)
       [EvJoin 1 (demo_node ''n2''), EvUpdate 2 (demo_node ''n2''), EvJoin 3 (demo_node ''n3''), EvLeave 4 (demo_node ''n2'')] m = Some m' \<and>
     {k. HasNode k (mbRing m')} = {''n1'', ''n3''}"
proof -
  let ?es = "[EvJoin 1 (demo_node ''n2''), EvUpdate 2 (demo_node ''n2''), EvJoin 3 (demo_node ''n3''), EvLeave 4 (demo_node ''n2'')]"
  have v: "(4::nat) = vnodes (NewRing 4)" by (simp add: NewRing_def)
  obtain m where m: "NewMembership 0 (Inr ()) (demo_config ''n1'') (NewClusterState (mcNodeName (demo_config ''n1''))) (NewRing 4) = Inr m"
    by (simp add: NewMembership_def Let_def)
  have n: "mcNodeName (demo_config ''n1'') = ''n1''" by (simp add: demo_config_def)
  have c: "ml_contract ?es {mcNodeName (demo_config ''n1'')}"
    and i: "insert (mcNodeName (demo_config ''n1'')) (ev_name ` set ?es) \<subseteq> {''n1'', ''n2'', ''n3''}"
    and M: "members_after ?es {mcNodeName (demo_config ''n1'')} = {''n1'', ''n3''}"
    unfolding n by (auto simp: demo_node_def)
  obtain m' where "ml_run (\<lambda>_. \<lparr>mRPCPort = 1, mHTTPPort = 0, mVersion = []\<rparr>) ?es m = Some m'"
    "alive (mbState m') = {''n1'', ''n3''}" "{k. HasNode k (mbRing m')} = alive (mbState m')"
    using cluster_ring_follows_table [OF v demo_clash_free i c m, of "\<lambda>_. \<lparr>mRPCPort = 1, mHTTPPort = 0, mVersion = []\<rparr>" "''k''", unfolded M]
    by (elim exE conjE) (rule that)
  then show ?thesis using m unfolding n by (intro exI [of _ m] exI [of _ m'] conjI) simp_all
qed

text \<open>C7: Nodes whose tables agree route alike. Two nodes that start on their own and see different
  sequences of gossip events compute the same owner for every key as soon as they consider the same
  nodes alive, in whatever order the events came.\<close>

theorem cluster_same_view_same_owner:
  assumes "v = vnodes (NewRing n)" "clash_free v U"
    and "insert (mcNodeName cfg1) (ev_name ` set es1) \<subseteq> U" "insert (mcNodeName cfg2) (ev_name ` set es2) \<subseteq> U"
    and "ml_contract es1 {mcNodeName cfg1}" "ml_contract es2 {mcNodeName cfg2}"
    and "NewMembership t1 (Inr ()) cfg1 (NewClusterState (mcNodeName cfg1)) (NewRing n) = Inr m1"
    and "NewMembership t2 (Inr ()) cfg2 (NewClusterState (mcNodeName cfg2)) (NewRing n) = Inr m2"
    and "ml_run unmarshal es1 m1 = Some m1'" "ml_run unmarshal es2 m2 = Some m2'"
    and "alive (mbState m1') = alive (mbState m2')"
  shows "GetNode key (mbRing m1') = GetNode key (mbRing m2')"
proof -
  have i1: "cluster_inv v {mcNodeName cfg1} m1"
    by (rule cluster_inv_new [OF assms(2) _ assms(1), of cfg1 t1 "mcNodeName cfg1"]) (use assms(3,7) in simp_all)
  have i2: "cluster_inv v {mcNodeName cfg2} m2"
    by (rule cluster_inv_new [OF assms(2) _ assms(1), of cfg2 t2 "mcNodeName cfg2"]) (use assms(4,8) in simp_all)
  have r1: "cluster_inv v (members_after es1 {mcNodeName cfg1}) m1'"
    using ml_run_inv [OF assms(2) _ _ assms(5) i1, of unmarshal] assms(3,9) by auto
  have r2: "cluster_inv v (members_after es2 {mcNodeName cfg2}) m2'"
    using ml_run_inv [OF assms(2) _ _ assms(6) i2, of unmarshal] assms(4,10) by auto
  have "members_after es1 {mcNodeName cfg1} \<subseteq> U"
    using members_after_sub [of es1 "{mcNodeName cfg1}"] assms(3) by blast
  then show ?thesis using r1 r2 assms(11) ring_of_same_owner [OF assms(2)] by (simp add: cluster_inv_def)
qed

theorem cluster_same_view_same_owner_witness:
  "\<exists>m1 m2 m1' m2'.
     NewMembership 0 (Inr ()) (demo_config ''n1'') (NewClusterState ''n1'') (NewRing 4) = Inr m1 \<and>
     NewMembership 9 (Inr ()) (demo_config ''n2'') (NewClusterState ''n2'') (NewRing 4) = Inr m2 \<and>
     ml_run (\<lambda>_. \<lparr>mRPCPort = 1, mHTTPPort = 0, mVersion = []\<rparr>) [EvJoin 1 (demo_node ''n2'')] m1 = Some m1' \<and>
     ml_run (\<lambda>_. \<lparr>mRPCPort = 1, mHTTPPort = 0, mVersion = []\<rparr>) [EvJoin 1 (demo_node ''n3''), EvJoin 2 (demo_node ''n1''), EvLeave 3 (demo_node ''n3'')] m2 = Some m2' \<and>
     GetNode ''user:1'' (mbRing m1') = GetNode ''user:1'' (mbRing m2')"
proof -
  let ?u = "\<lambda>_. \<lparr>mRPCPort = 1, mHTTPPort = 0, mVersion = []\<rparr> :: NodeMeta"
  let ?e1 = "[EvJoin 1 (demo_node ''n2'')]"
  let ?e2 = "[EvJoin 1 (demo_node ''n3''), EvJoin 2 (demo_node ''n1''), EvLeave 3 (demo_node ''n3'')]"
  let ?U = "{''n1'', ''n2'', ''n3''}"
  have v: "(4::nat) = vnodes (NewRing 4)" by (simp add: NewRing_def)
  have nn: "mcNodeName (demo_config s) = s" for s by (simp add: demo_config_def)
  have c1: "ml_contract ?e1 {''n1''}" "ev_name ` set ?e1 \<subseteq> ?U" by (auto simp: demo_node_def)
  have c2: "ml_contract ?e2 {''n2''}" "ev_name ` set ?e2 \<subseteq> ?U" by (auto simp: demo_node_def)
  obtain m1 where m1: "NewMembership 0 (Inr ()) (demo_config ''n1'') (NewClusterState ''n1'') (NewRing 4) = Inr m1"
    "cluster_inv 4 {''n1''} m1"
    by (rule cluster_inv_new [OF demo_clash_free _ v, of "demo_config ''n1''" 0 "''n1''"]) (simp_all add: demo_config_def)
  obtain m2 where m2: "NewMembership 9 (Inr ()) (demo_config ''n2'') (NewClusterState ''n2'') (NewRing 4) = Inr m2"
    "cluster_inv 4 {''n2''} m2"
    by (rule cluster_inv_new [OF demo_clash_free _ v, of "demo_config ''n2''" 9 "''n2''"]) (simp_all add: demo_config_def)
  obtain m1' where m1': "ml_run ?u ?e1 m1 = Some m1'" "cluster_inv 4 (members_after ?e1 {''n1''}) m1'"
    using ml_run_inv [OF demo_clash_free _ c1(2) c1(1) m1(2), of ?u] by (elim meta_impE exE conjE) (simp, rule that)
  obtain m2' where m2': "ml_run ?u ?e2 m2 = Some m2'" "cluster_inv 4 (members_after ?e2 {''n2''}) m2'"
    using ml_run_inv [OF demo_clash_free _ c2(2) c2(1) m2(2), of ?u] by (elim meta_impE exE conjE) (simp, rule that)
  have "members_after ?e1 {''n1''} = members_after ?e2 {''n2''}" by (auto simp: demo_node_def)
  then have "alive (mbState m1') = alive (mbState m2')" using m1'(2) m2'(2) by (simp only: cluster_inv_def)
  moreover have "insert ''n1'' (ev_name ` set ?e1) \<subseteq> ?U" "insert ''n2'' (ev_name ` set ?e2) \<subseteq> ?U"
    using c1(2) c2(2) by simp_all
  ultimately have "GetNode ''user:1'' (mbRing m1') = GetNode ''user:1'' (mbRing m2')"
    by (intro cluster_same_view_same_owner [OF v demo_clash_free, where ?cfg1.0 = "demo_config ''n1''" and ?cfg2.0 = "demo_config ''n2''", unfolded nn,
          OF _ _ c1(1) c2(1) m1(1) m2(1) m1'(1) m2'(1)])
  then show ?thesis
    using m1(1) m2(1) m1'(1) m2'(1) by (intro exI [of _ m1] exI [of _ m2] exI [of _ m1'] exI [of _ m2'] conjI)
qed

end
