(* ===== verification/Store.thy ===== *)
theory Store
  imports Memory_Store Pebble_Store
begin

text \<open>
  The \<open>Store\<close> interface value of \<open>src/store.go\<close>: a cache holds one of the two backends and calls it
  through the interface. Every operation dispatches on the backend. The Pebble engine \<open>api\<close> is the
  argument the disk backend needs. The interpretation \<open>backend\<close> shows that the interface value
  satisfies the contract whichever backend it holds, so that everything above relies on the contract only.
\<close>

section \<open>Definitions\<close>

datatype 'd any_store = MemStore memory_store | DiskStore "'d pebble_store"

definition st_Get :: "'d pebble_api \<Rightarrow> instant \<Rightarrow> string \<Rightarrow> 'd any_store \<Rightarrow> 'd any_store \<times> bytes option" where
  "st_Get api now key s =
     (case s of
        MemStore m \<Rightarrow> map_prod MemStore (\<lambda>x. x) (ms_Get now key m)
      | DiskStore p \<Rightarrow> map_prod DiskStore (\<lambda>x. x) (ps_Get api now key p))"

text \<open>\<open>Set\<close> answers the callbacks that an eviction starts as goroutines.\<close>

definition st_Set ::
    "'d pebble_api \<Rightarrow> instant \<Rightarrow> string \<Rightarrow> bytes \<Rightarrow> duration \<Rightarrow> 'd any_store \<Rightarrow> 'd any_store \<times> callback list" where
  "st_Set api now key value ttl s =
     (case s of
        MemStore m \<Rightarrow> map_prod MemStore (\<lambda>x. x) (ms_Set now key value ttl m)
      | DiskStore p \<Rightarrow> (DiskStore (ps_Set api now key value ttl p), []))"

definition st_Delete :: "'d pebble_api \<Rightarrow> string \<Rightarrow> 'd any_store \<Rightarrow> 'd any_store \<times> bool" where
  "st_Delete api key s =
     (case s of
        MemStore m \<Rightarrow> map_prod MemStore (\<lambda>x. x) (ms_Delete key m)
      | DiskStore p \<Rightarrow> map_prod DiskStore (\<lambda>x. x) (ps_Delete api key p))"

definition st_Exists :: "'d pebble_api \<Rightarrow> instant \<Rightarrow> instant \<Rightarrow> string \<Rightarrow> 'd any_store \<Rightarrow> 'd any_store \<times> bool" where
  "st_Exists api t1 t2 key s =
     (case s of
        MemStore m \<Rightarrow> map_prod MemStore (\<lambda>x. x) (ms_Exists t1 t2 key m)
      | DiskStore p \<Rightarrow> map_prod DiskStore (\<lambda>x. x) (ps_Exists api t1 key p))"

definition st_TTL :: "'d pebble_api \<Rightarrow> instant \<Rightarrow> instant \<Rightarrow> string \<Rightarrow> 'd any_store \<Rightarrow> 'd any_store \<times> duration" where
  "st_TTL api t1 t2 key s =
     (case s of
        MemStore m \<Rightarrow> map_prod MemStore (\<lambda>x. x) (ms_TTL t1 t2 key m)
      | DiskStore p \<Rightarrow> map_prod DiskStore (\<lambda>x. x) (ps_TTL api t2 key p))"

definition st_Incr ::
    "'d pebble_api \<Rightarrow> ('a) msgpack_scheme \<Rightarrow> instant \<Rightarrow> instant \<Rightarrow> instant \<Rightarrow> string \<Rightarrow> int64 \<Rightarrow> duration \<Rightarrow> 'd any_store \<Rightarrow>
     'd any_store \<times> callback list \<times> (string + int64)" where
  "st_Incr api mp t1 t2 t3 key delta defaultTTL s =
     (case s of
        MemStore m \<Rightarrow> map_prod MemStore (\<lambda>x. x) (ms_Incr mp t1 t2 t3 key delta defaultTTL m)
      | DiskStore p \<Rightarrow> (case ps_Incr api mp t1 t2 t3 key delta defaultTTL p of (p', r) \<Rightarrow> (DiskStore p', [], r)))"

definition st_DeleteExpired ::
    "'d pebble_api \<Rightarrow> (nat \<Rightarrow> instant) \<Rightarrow> 'd any_store \<Rightarrow> 'd any_store \<times> callback list \<times> nat" where
  "st_DeleteExpired api clk s =
     (case s of
        MemStore m \<Rightarrow> map_prod MemStore (\<lambda>x. x) (ms_DeleteExpired clk m)
      | DiskStore p \<Rightarrow> map_prod DiskStore (\<lambda>x. x) (ps_DeleteExpired api (clk 0) p))"

definition st_Len :: "'d any_store \<Rightarrow> int64" where
  "st_Len s = (case s of MemStore m \<Rightarrow> of_nat (ms_Len m) | DiskStore p \<Rightarrow> ps_Len p)"

definition st_SetOnEvict :: "bool \<Rightarrow> 'd any_store \<Rightarrow> 'd any_store" where
  "st_SetOnEvict fn s =
     (case s of MemStore m \<Rightarrow> MemStore (ms_SetOnEvict fn m) | DiskStore p \<Rightarrow> DiskStore (ps_SetOnEvict fn p))"

definition st_SetOnExpire :: "bool \<Rightarrow> 'd any_store \<Rightarrow> 'd any_store" where
  "st_SetOnExpire fn s =
     (case s of MemStore m \<Rightarrow> MemStore (ms_SetOnExpire fn m) | DiskStore p \<Rightarrow> DiskStore (ps_SetOnExpire fn p))"

section \<open>The contract\<close>

definition st_inv :: "'d pebble_api \<Rightarrow> 'd any_store \<Rightarrow> bool" where
  "st_inv api s = (case s of MemStore m \<Rightarrow> ms_inv m | DiskStore p \<Rightarrow> pebble_ok api)"

definition st_look :: "'d pebble_api \<Rightarrow> instant \<Rightarrow> 'd any_store \<Rightarrow> string \<Rightarrow> bytes option" where
  "st_look api t s = (case s of MemStore m \<Rightarrow> ms_look t m | DiskStore p \<Rightarrow> ps_look api t p)"

definition st_keeps :: "'d any_store \<Rightarrow> instant \<Rightarrow> string \<Rightarrow> bytes \<Rightarrow> duration \<Rightarrow> bool" where
  "st_keeps s now k b d = (case s of MemStore m \<Rightarrow> ms_keeps m now k b d | DiskStore p \<Rightarrow> ps_fits now d)"

lemmas st_defs = st_Get_def st_Set_def st_Delete_def st_Exists_def st_TTL_def st_Incr_def st_DeleteExpired_def
  st_inv_def st_look_def st_keeps_def

lemma st_Incr_cases:
  assumes "st_Incr api mp t1 t2 t3 k n d s = (s', cbs, r)"
  obtains (mem) m m' where "s = MemStore m" "s' = MemStore m'" "ms_Incr mp t1 t2 t3 k n d m = (m', cbs, r)"
    | (disk) p p' where "s = DiskStore p" "s' = DiskStore p'"
        "with_callbacks (ps_Incr api mp t1 t2 t3 k n d p) = (p', cbs, r)"
  using assms
  by (cases s) (auto simp: st_Incr_def map_prod_def with_callbacks_def split: prod.splits)

interpretation backend: store nano_clock "st_inv api" "st_look api" st_keeps "st_Get api" "st_Set api" "st_Delete api"
  "st_Exists api" "st_TTL api" "st_Incr api" "st_DeleteExpired api" for api :: "'d pebble_api"
proof
  fix s :: "'d any_store" and now t t1 t2 t3 :: instant and k b d n clk and mp :: msgpack
  assume inv: "st_inv api s"
  show "st_inv api (fst (st_Get api now k s))"
    using inv by (cases s) (simp_all add: st_defs memory.inv_get)
  show "st_inv api (fst (st_Set api now k b d s))"
    using inv by (cases s) (simp_all add: st_defs memory.inv_put)
  show "st_inv api (fst (st_Delete api k s))"
    using inv by (cases s) (simp_all add: st_defs memory.inv_del)
  show "t1 \<le> t2 \<Longrightarrow> st_inv api (fst (st_Exists api t1 t2 k s))"
    using inv by (cases s) (simp_all add: st_defs memory.inv_exi)
  show "t1 \<le> t2 \<Longrightarrow> st_inv api (fst (st_TTL api t1 t2 k s))"
    using inv by (cases s) (simp_all add: st_defs memory.inv_ttl)
  show "t1 \<le> t2 \<Longrightarrow> st_inv api (fst (st_Incr api mp t1 t2 t3 k n d s))"
    using inv by (cases s) (simp_all add: st_defs memory.inv_incr split: prod.split)
  show "st_inv api (fst (st_DeleteExpired api clk s))"
    using inv by (cases s) (simp_all add: st_defs memory.inv_sweep)
  show "snd (st_Get api now k s) = st_look api now s k"
    using inv by (cases s) (simp_all add: st_defs memory.get_look disk.get_look)
  show "st_look api t (fst (st_Get api now k s)) \<subseteq>\<^sub>m st_look api t s"
    using inv by (cases s) (simp_all add: st_defs memory.get_sub disk.get_sub)
  show "nano_clock now \<Longrightarrow> nano_clock t \<Longrightarrow> now \<le> t \<Longrightarrow> st_look api t (fst (st_Get api now k s)) = st_look api t s"
    using inv by (cases s) (simp_all add: st_defs memory.get_keeps disk.get_keeps)
  show "st_look api t (fst (st_Set api now k b d s)) \<subseteq>\<^sub>m (st_look api t s)(k \<mapsto> b)"
    using inv disk.put_sub [where api = api] by (cases s) (simp_all add: st_defs memory.put_sub)
  show "nano_clock t \<Longrightarrow> st_keeps s now k b d \<Longrightarrow>
      st_look api t (fst (st_Set api now k b d s)) k = (if pos64 d \<and> time_add now d < t then None else Some b)"
    using inv disk.put_keeps [where api = api and t = t and now = now and k = k and b = b and d = d]
      memory.put_keeps [where t = t and now = now and k = k and b = b and d = d] by (cases s) (simp_all add: st_defs)
  show "st_look api t (fst (st_Delete api k s)) = (st_look api t s)(k := None)"
    using inv by (cases s) (simp_all add: st_defs memory.del_look disk.del_look)
  show "st_look api t s k \<noteq> None \<Longrightarrow> snd (st_Delete api k s)"
    using inv memory.del_found [where t = t and k = k] disk.del_found [where api = api and t = t and k = k] by (cases s) (simp_all add: st_defs)
  show "snd (st_Exists api t1 t2 k s) \<longleftrightarrow> st_look api t1 s k \<noteq> None"
    using inv by (cases s) (simp_all add: st_defs memory.exi_look disk.exi_look)
  show "st_look api t (fst (st_Exists api t1 t2 k s)) \<subseteq>\<^sub>m st_look api t s"
    using inv by (cases s) (simp_all add: st_defs memory.exi_sub disk.exi_sub)
  show "nano_clock t1 \<Longrightarrow> nano_clock t2 \<Longrightarrow> nano_clock t \<Longrightarrow> t1 \<le> t2 \<Longrightarrow> t2 \<le> t \<Longrightarrow>
      st_look api t (fst (st_Exists api t1 t2 k s)) = st_look api t s"
    using inv memory.exi_keeps [where ?t1.0 = t1 and ?t2.0 = t2 and t = t and k = k]
      disk.exi_keeps [where api = api and ?t1.0 = t1 and ?t2.0 = t2 and t = t and k = k] by (cases s) (simp_all add: st_defs)
  show "st_look api t (fst (st_TTL api t1 t2 k s)) \<subseteq>\<^sub>m st_look api t s"
    using inv by (cases s) (simp_all add: st_defs memory.ttl_sub disk.ttl_sub)
  show "nano_clock t1 \<Longrightarrow> nano_clock t2 \<Longrightarrow> nano_clock t \<Longrightarrow> t1 \<le> t2 \<Longrightarrow> t2 < t \<Longrightarrow>
      st_look api t (fst (st_TTL api t1 t2 k s)) = st_look api t s"
    using inv memory.ttl_keeps [where ?t1.0 = t1 and ?t2.0 = t2 and t = t and k = k]
      disk.ttl_keeps [where api = api and ?t1.0 = t1 and ?t2.0 = t2 and t = t and k = k] by (cases s) (simp_all add: st_defs)
  show "st_look api t (fst (st_DeleteExpired api clk s)) \<subseteq>\<^sub>m st_look api t s"
    using inv by (cases s) (simp_all add: st_defs memory.sweep_sub disk.sweep_sub)
  show "nano_clock t \<Longrightarrow> (\<And>i. nano_clock (clk i) \<and> clk i \<le> t) \<Longrightarrow>
      st_look api t (fst (st_DeleteExpired api clk s)) = st_look api t s"
    using inv memory.sweep_keeps [where t = t and clk = clk] disk.sweep_keeps [where api = api and t = t and clk = clk] by (cases s) (simp_all add: st_defs)
next
  fix s s' :: "'d any_store" and t t1 t2 t3 :: instant and k d n m cbs err and mp :: msgpack
  assume inv: "st_inv api s" and le: "t1 \<le> t2"
  show "st_look api t s' \<subseteq>\<^sub>m st_look api t s" if e: "st_Incr api mp t1 t2 t3 k n d s = (s', cbs, Inl err)"
    by (rule st_Incr_cases [OF e])
      (use inv memory.incr_err [OF _ le] disk.incr_err [OF _ le, where api = api] in \<open>auto simp: st_inv_def st_look_def\<close>)
  show "st_look api t s' \<subseteq>\<^sub>m (st_look api t s)(k \<mapsto> int64_bytes mp m)"
    if e: "st_Incr api mp t1 t2 t3 k n d s = (s', cbs, Inr m)"
    by (rule st_Incr_cases [OF e])
      (use inv memory.incr_ok [OF _ le] disk.incr_ok [OF _ le, where api = api] in \<open>auto simp: st_inv_def st_look_def\<close>)
  show "case st_look api t1 s k of None \<Rightarrow> m = n | Some v \<Rightarrow> unmarshal_int64 mp v = Inr (m - n)"
    if e: "st_Incr api mp t1 t2 t3 k n d s = (s', cbs, Inr m)"
    by (rule st_Incr_cases [OF e])
      (use inv memory.incr_val [OF _ le] disk.incr_val [OF _ le, where api = api] in \<open>simp_all add: st_inv_def st_look_def\<close>)
qed

end
