(* ===== verification/Config.thy ===== *)
theory Config
  imports Net_Addr Float64
begin

text \<open>
  \<open>src/config.go\<close>, the storage modes of \<open>src/store.go\<close>, and the environment variables that
  \<open>src/cmd/cachegrid/main.go\<close> reads into a configuration. \<open>os.Getenv\<close> and \<open>time.ParseDuration\<close> are
  arguments.
\<close>

section \<open>Definitions\<close>

datatype Mode = Partitioned | Replicated | NearCache

datatype StorageMode = Memory | Disk

record Config =
  NumShards :: int64
  MaxMemoryMB :: int64
  DefaultTTL :: duration
  SweeperInterval :: duration
  storageMode :: StorageMode
  DiskPath :: string
  ListenAddr :: string
  Peers :: "string list"
  mode :: Mode
  NodeName :: string
  GRPCPort :: int
  HTTPPort :: int
  VirtualNodes :: int

definition DefaultConfig :: Config where
  "DefaultConfig =
     \<lparr>NumShards = 256, MaxMemoryMB = 0, DefaultTTL = 0, SweeperInterval = second,
      storageMode = Memory, DiskPath = '''', ListenAddr = '''', Peers = [],
      mode = Partitioned, NodeName = '''', GRPCPort = 7947, HTTPPort = 6380, VirtualNodes = 150\<rparr>"

text \<open>\<open>validate\<close> changes the configuration in place: \<open>Inr\<close> is the configuration afterwards.\<close>

definition validate :: "Config \<Rightarrow> string + Config" where
  "validate c =
     (let c1 = (if \<not> pos64 (SweeperInterval c) then c\<lparr>SweeperInterval := second\<rparr> else c)
      in case storageMode c1 of
           Disk \<Rightarrow> if DiskPath c1 = '''' then Inl ''cachegrid: DiskPath is required when StorageMode is Disk'' else Inr c1
         | Memory \<Rightarrow>
             (let c2 = (if \<not> pos64 (NumShards c1) then c1\<lparr>NumShards := 256\<rparr> else c1)
              in if NumShards c2 AND (NumShards c2 - 1) \<noteq> 0 then
                   Inl (''cachegrid: NumShards must be a power of 2, got '' @ Itoa (sint (NumShards c2)))
                 else if less64 (MaxMemoryMB c2) 0 then
                   Inl (''cachegrid: MaxMemoryMB must be >= 0, got '' @ Itoa (sint (MaxMemoryMB c2)))
                 else Inr c2))"

text \<open>\<open>(config.MaxMemoryMB * 1024 * 1024) / int64(config.NumShards)\<close>: the product wraps around.\<close>

definition perShardMax :: "Config \<Rightarrow> int64" where
  "perShardMax c =
     (if pos64 (MaxMemoryMB c)
      then word_of_int (quot (sint (MaxMemoryMB c * 1024 * 1024)) (sint (NumShards c)))
      else 0)"

section \<open>The environment of the server binary\<close>

definition envStr :: "(string \<Rightarrow> string) \<Rightarrow> string \<Rightarrow> string \<Rightarrow> string" where
  "envStr Getenv key fallback = (let v = Getenv key in if v \<noteq> '''' then v else fallback)"

definition envInt :: "(string \<Rightarrow> string) \<Rightarrow> string \<Rightarrow> int \<Rightarrow> int" where
  "envInt Getenv key fallback =
     (let v = Getenv key
      in if v \<noteq> '''' then (let (n, ok) = Atoi v in if ok then n else fallback) else fallback)"

definition envDuration :: "(string \<Rightarrow> duration option) \<Rightarrow> (string \<Rightarrow> string) \<Rightarrow> string \<Rightarrow> duration \<Rightarrow> duration" where
  "envDuration ParseDuration Getenv key fallback =
     (let v = Getenv key
      in if v \<noteq> '''' then (case ParseDuration v of Some d \<Rightarrow> d | None \<Rightarrow> fallback) else fallback)"

text \<open>\<open>strings.Split\<close> at a single byte.\<close>

fun Split :: "char \<Rightarrow> string \<Rightarrow> string list" where
  "Split c [] = ['''']"
| "Split c (x # xs) =
     (if x = c then [] # Split c xs
      else case Split c xs of [] \<Rightarrow> [[x]] | p # ps \<Rightarrow> (x # p) # ps)"

text \<open>The configuration that \<open>main\<close> builds.\<close>

definition main_config :: "(string \<Rightarrow> duration option) \<Rightarrow> (string \<Rightarrow> string) \<Rightarrow> Config" where
  "main_config ParseDuration Getenv =
     (let c = DefaultConfig\<lparr>
            NumShards := word_of_int (envInt Getenv ''CACHEGRID_SHARDS'' 256),
            MaxMemoryMB := word_of_int (envInt Getenv ''CACHEGRID_MAX_MEMORY_MB'' 0),
            DefaultTTL := envDuration ParseDuration Getenv ''CACHEGRID_DEFAULT_TTL'' 0,
            SweeperInterval := envDuration ParseDuration Getenv ''CACHEGRID_SWEEPER_INTERVAL'' second,
            NodeName := envStr Getenv ''CACHEGRID_NODE_NAME'' '''',
            ListenAddr := envStr Getenv ''CACHEGRID_LISTEN_ADDR'' '''',
            GRPCPort := envInt Getenv ''CACHEGRID_RPC_PORT'' 7947,
            HTTPPort := envInt Getenv ''CACHEGRID_HTTP_PORT'' 6380,
            VirtualNodes := envInt Getenv ''CACHEGRID_VIRTUAL_NODES'' 150\<rparr>;
          c1 = (if envStr Getenv ''CACHEGRID_STORAGE_MODE'' ''memory'' = ''disk''
                then c\<lparr>storageMode := Disk, DiskPath := envStr Getenv ''CACHEGRID_DISK_PATH'' ''./cachegrid-data''\<rparr>
                else c\<lparr>storageMode := Memory\<rparr>);
          seeds = envStr Getenv ''CACHEGRID_SEEDS'' '''';
          c2 = (if seeds \<noteq> '''' then c1\<lparr>Peers := Split (CHR '','') seeds\<rparr> else c1);
          m = envStr Getenv ''CACHEGRID_MODE'' ''partitioned''
      in c2\<lparr>mode := (if m = ''replicated'' then Replicated
                     else if m = ''nearcache'' then NearCache else Partitioned)\<rparr>)"

definition modeName :: "Mode \<Rightarrow> string" where
  "modeName m = (case m of Replicated \<Rightarrow> ''replicated'' | NearCache \<Rightarrow> ''nearcache'' | Partitioned \<Rightarrow> ''partitioned'')"

definition storageModeName :: "StorageMode \<Rightarrow> string" where
  "storageModeName m = (case m of Disk \<Rightarrow> ''disk'' | Memory \<Rightarrow> ''memory'')"

section \<open>Lemmas\<close>

lemma power_of_two_nat: "0 < n \<Longrightarrow> n AND (n - 1) = (0::nat) \<Longrightarrow> \<exists>k. n = 2 ^ k"
proof (induction n rule: less_induct)
  case (less n)
  show ?case
  proof (cases "n = 1")
    case True
    then show ?thesis by (intro exI [of _ 0]) simp
  next
    case False
    then have gt: "1 < n" using less.prems(1) by simp
    have u: "n AND (n - 1) = (n mod 2) * ((n - 1) mod 2) + 2 * ((n div 2) AND ((n - 1) div 2))"
      by (subst and_nat_unfold) (use gt in simp)
    show ?thesis
    proof (cases "even n")
      case True
      then have "(n - 1) div 2 = n div 2 - 1" using gt by (auto elim!: evenE)
      then have "n div 2 AND (n div 2 - 1) = 0" using u less.prems(2) by simp
      moreover have "0 < n div 2" "n div 2 < n" using gt by simp_all
      ultimately obtain k where "n div 2 = 2 ^ k" using less.IH [of "n div 2"] by blast
      moreover have "n = 2 * (n div 2)" using True by simp
      ultimately have "n = 2 ^ Suc k" by simp
      then show ?thesis by blast
    next
      case False
      then have "(n - 1) div 2 = n div 2" by (auto elim!: oddE)
      then have "n div 2 AND n div 2 = 0" using u less.prems(2) by simp
      then have "n div 2 = 0" by simp
      then show ?thesis using gt by simp
    qed
  qed
qed

lemma power_of_two_word:
  assumes "pos64 x" "x AND (x - 1) = 0"
  obtains k where "k < 63" "sint x = 2 ^ k" "unat x = 2 ^ k"
proof -
  have p: "0 < sint x" using assms(1) by (simp add: pos64_def)
  then have ne: "x \<noteq> 0" by auto
  have "uint (word_of_int (sint x) :: int64) = sint x mod 2 ^ 64" by (subst uint_word_of_int) simp
  also have "\<dots> = sint x" using p sint64_bounds [of x] by (intro mod_pos_pos_trivial) simp_all
  finally have si: "sint x = int (unat x)" by (simp add: of_int_sint)
  have "unat x AND unat (x - 1) = 0" using assms(2) by (metis unsigned_and_eq unsigned_0)
  then have "unat x AND (unat x - 1) = 0" using ne by (simp add: unat_minus_one)
  moreover have "0 < unat x" using ne by (simp add: unat_gt_0)
  ultimately obtain k where k: "unat x = 2 ^ k" using power_of_two_nat by blast
  then have "int (2 ^ k) < 2 ^ 63" using si sint64_bounds(2) [of x] by simp
  then have "(2::int) ^ k < 2 ^ 63" by simp
  then have "k < 63" by (rule power_less_imp_less_exp [rotated]) simp
  then show ?thesis using that k si by simp
qed

end
