(* ===== verification/Node.thy ===== *)
theory Node
  imports Store Cluster Config Lock_Engine Tag_Index Pubsub Rate_Limit
begin

text \<open>
  One node: the \<open>Cache\<close> object of \<open>src/cache.go\<close> with all its parts, the handlers for requests of other
  nodes (the \<open>transport.LocalHandler\<close> half of \<open>src/distributed.go\<close>), and the server side of the
  transport, \<open>processRequest\<close> of \<open>src/internal/transport/rpc.go\<close>.

  Code outside the repository comes in through the record \<open>env\<close>: the Pebble engine, msgpack for the
  values of the users, and msgpack for the requests and responses on the wire (\<open>codec\<close>, with wire
  messages of any type \<open>'w\<close>). \<open>clk i\<close> is the \<open>i\<close>-th clock reading of an operation. A goroutine that the
  code starts and does not wait for is kept in the node until it runs: \<open>cEvicted\<close> holds the pending
  eviction callbacks (\<open>go s.OnEvict(...)\<close>), \<open>cSpawned\<close> the pending replication calls. \<open>cCalls\<close> is the
  trace of the hooks called, and \<open>cPanicked\<close> is set when a call panics.
\<close>

section \<open>The wire\<close>

record request =
  rOp :: byte
  rKey :: string
  rKeys :: "string list"
  rValue :: bytes
  rTTL :: duration
  rTags :: "string list"
  rDelta :: int64
  rToken :: string

record response =
  pValue :: bytes
  pValues :: "(string, bytes) gomap"
  pFound :: bool
  pOK :: bool
  pIntVal :: int64
  pToken :: string
  pFencingToken :: uint64
  pAcquired :: bool
  pError :: string

definition opGet :: byte where "opGet = 1"
definition opSet :: byte where "opSet = 2"
definition opDelete :: byte where "opDelete = 3"
definition opExists :: byte where "opExists = 4"
definition opMGet :: byte where "opMGet = 5"
definition opIncr :: byte where "opIncr = 6"
definition opLockAcquire :: byte where "opLockAcquire = 7"
definition opLockRelease :: byte where "opLockRelease = 8"
definition opLockExtend :: byte where "opLockExtend = 9"

text \<open>The zero values that a composite literal leaves in the fields it does not name.\<close>

definition zero_request :: request where
  "zero_request = \<lparr>rOp = 0, rKey = '''', rKeys = [], rValue = [], rTTL = 0, rTags = [], rDelta = 0, rToken = ''''\<rparr>"

definition zero_response :: response where
  "zero_response = \<lparr>pValue = [], pValues = [], pFound = False, pOK = False, pIntVal = 0, pToken = '''',
     pFencingToken = 0, pAcquired = False, pError = ''''\<rparr>"

record 'w codec =
  enc_request :: "request \<Rightarrow> string + 'w"
  dec_request :: "'w \<Rightarrow> string + request"
  enc_response :: "response \<Rightarrow> string + 'w"
  dec_response :: "'w \<Rightarrow> string + response"

text \<open>Documented behaviour of msgpack: what it encodes it decodes.\<close>

definition codec_ok :: "'w codec \<Rightarrow> bool" where
  "codec_ok cd \<longleftrightarrow>
     (\<forall>r. \<exists>m. enc_request cd r = Inr m \<and> dec_request cd m = Inr r) \<and>
     (\<forall>r. \<exists>m. enc_response cd r = Inr m \<and> dec_response cd m = Inr r)"

definition plain_codec :: "(request + response) codec" where
  "plain_codec =
     \<lparr>enc_request = (\<lambda>r. Inr (Inl r)),
      dec_request = (\<lambda>m. case m of Inl r \<Rightarrow> Inr r | Inr _ \<Rightarrow> Inl ''not a request''),
      enc_response = (\<lambda>r. Inr (Inr r)),
      dec_response = (\<lambda>m. case m of Inr r \<Rightarrow> Inr r | Inl _ \<Rightarrow> Inl ''not a response'')\<rparr>"

record ('d, 'v, 'x, 'w) env =
  eApi :: "'d pebble_api"
  eMsgpack :: "('v, 'x) msgpack_any"
  eCodec :: "'w codec"
  eConv :: "float64 \<Rightarrow> int64"

section \<open>The node\<close>

record 'd cache =
  cStore :: "'d any_store"
  cConfig :: Config
  cClosed :: bool
  cRing :: "ring option"
  cState :: "cluster_state option"
  cConns :: "string list"
  cStopped :: bool
  cLocks :: engine
  cBuckets :: token_bucket
  cWindows :: sliding_window
  cBroker :: Broker
  cTags :: tag_index
  cEvicted :: "callback list"
  cSpawned :: "(string \<times> request) list"
  cCalls :: "call list"
  cPanicked :: bool

text \<open>\<open>c.broker.Publish(...)\<close>, with the panic of a send on a closed channel.\<close>

definition do_publish :: "instant \<Rightarrow> EventType \<Rightarrow> string \<Rightarrow> bytes \<Rightarrow> 'd cache \<Rightarrow> 'd cache" where
  "do_publish now ty key val c =
     (case Publish now \<lparr>evType = ty, evKey = key, evValue = val, evTimestamp = None, evNodeName = ''''\<rparr> (cBroker c) of
        None \<Rightarrow> c\<lparr>cPanicked := True\<rparr>
      | Some b \<Rightarrow> c\<lparr>cBroker := b\<rparr>)"

definition fire :: "(Broker \<Rightarrow> call list) \<Rightarrow> 'd cache \<Rightarrow> 'd cache" where
  "fire f c = c\<lparr>cCalls := cCalls c @ f (cBroker c)\<rparr>"

text \<open>The two callbacks that \<open>New\<close> wires to the store.\<close>

definition on_evict :: "instant \<Rightarrow> callback \<Rightarrow> 'd cache \<Rightarrow> 'd cache" where
  "on_evict now kv c =
     (let (key, val) = kv;
          c1 = do_publish now EventEvict key val c;
          c2 = fire (FireEvict key val) c1
      in c2\<lparr>cTags := tag_Remove key (cTags c2)\<rparr>)"

definition on_expire :: "instant \<Rightarrow> callback \<Rightarrow> 'd cache \<Rightarrow> 'd cache" where
  "on_expire now kv c =
     (let (key, val) = kv; c1 = do_publish now EventExpire key val c
      in c1\<lparr>cTags := tag_Remove key (cTags c1)\<rparr>)"

text \<open>The goroutine of a pending eviction callback runs.\<close>

definition run_evicted :: "instant \<Rightarrow> nat \<Rightarrow> 'd cache \<Rightarrow> 'd cache" where
  "run_evicted now i c =
     (if i < length (cEvicted c)
      then on_evict now (cEvicted c ! i) (c\<lparr>cEvicted := take i (cEvicted c) @ drop (Suc i) (cEvicted c)\<rparr>)
      else c)"

section \<open>The store of the node\<close>

definition node_Set :: "('d, 'v, 'x, 'w) env \<Rightarrow> instant \<Rightarrow> string \<Rightarrow> bytes \<Rightarrow> duration \<Rightarrow> 'd cache \<Rightarrow> 'd cache" where
  "node_Set env now key val ttl c =
     (let (s, cbs) = st_Set (eApi env) now key val ttl (cStore c)
      in c\<lparr>cStore := s, cEvicted := cEvicted c @ cbs\<rparr>)"

definition node_Get :: "('d, 'v, 'x, 'w) env \<Rightarrow> instant \<Rightarrow> string \<Rightarrow> 'd cache \<Rightarrow> 'd cache \<times> bytes option" where
  "node_Get env now key c = (let (s, r) = st_Get (eApi env) now key (cStore c) in (c\<lparr>cStore := s\<rparr>, r))"

definition node_Delete :: "('d, 'v, 'x, 'w) env \<Rightarrow> string \<Rightarrow> 'd cache \<Rightarrow> 'd cache \<times> bool" where
  "node_Delete env key c = (let (s, r) = st_Delete (eApi env) key (cStore c) in (c\<lparr>cStore := s\<rparr>, r))"

definition node_Exists :: "('d, 'v, 'x, 'w) env \<Rightarrow> (nat \<Rightarrow> instant) \<Rightarrow> string \<Rightarrow> 'd cache \<Rightarrow> 'd cache \<times> bool" where
  "node_Exists env clk key c =
     (let (s, r) = st_Exists (eApi env) (clk 0) (clk 1) key (cStore c) in (c\<lparr>cStore := s\<rparr>, r))"

definition node_TTL :: "('d, 'v, 'x, 'w) env \<Rightarrow> (nat \<Rightarrow> instant) \<Rightarrow> string \<Rightarrow> 'd cache \<Rightarrow> 'd cache \<times> duration" where
  "node_TTL env clk key c =
     (let (s, r) = st_TTL (eApi env) (clk 0) (clk 1) key (cStore c) in (c\<lparr>cStore := s\<rparr>, r))"

definition node_Incr ::
    "('d, 'v, 'x, 'w) env \<Rightarrow> (nat \<Rightarrow> instant) \<Rightarrow> string \<Rightarrow> int64 \<Rightarrow> 'd cache \<Rightarrow> 'd cache \<times> (string + int64)" where
  "node_Incr env clk key delta c =
     (let (s, cbs, r) =
        st_Incr (eApi env) (eMsgpack env) (clk 0) (clk 1) (clk 2) key delta (DefaultTTL (cConfig c)) (cStore c)
      in (c\<lparr>cStore := s, cEvicted := cEvicted c @ cbs\<rparr>, r))"

text \<open>A tick of the sweeper. The expiry callbacks run in the sweeper itself, one after the other.\<close>

fun expire_loop :: "(nat \<Rightarrow> instant) \<Rightarrow> nat \<Rightarrow> callback list \<Rightarrow> 'd cache \<Rightarrow> 'd cache" where
  "expire_loop clk i [] c = c"
| "expire_loop clk i (kv # kvs) c = expire_loop clk (Suc i) kvs (on_expire (clk i) kv c)"

definition sweeper_tick ::
    "('d, 'v, 'x, 'w) env \<Rightarrow> (nat \<Rightarrow> instant) \<Rightarrow> (nat \<Rightarrow> instant) \<Rightarrow> 'd cache \<Rightarrow> 'd cache" where
  "sweeper_tick env clk stamps c =
     (let (s, cbs, n) = st_DeleteExpired (eApi env) clk (cStore c)
      in expire_loop stamps 0 cbs (c\<lparr>cStore := s\<rparr>))"

section \<open>Requests from other nodes\<close>

definition HandleGet :: "('d, 'v, 'x, 'w) env \<Rightarrow> instant \<Rightarrow> string \<Rightarrow> 'd cache \<Rightarrow> 'd cache \<times> bytes option" where
  "HandleGet env now key c = node_Get env now key c"

definition HandleSet ::
    "('d, 'v, 'x, 'w) env \<Rightarrow> instant \<Rightarrow> string \<Rightarrow> bytes \<Rightarrow> duration \<Rightarrow> string list \<Rightarrow> 'd cache \<Rightarrow> 'd cache" where
  "HandleSet env now key val ttl tags c =
     (let c1 = node_Set env now key val ttl c
      in if tags \<noteq> [] then c1\<lparr>cTags := tag_Add key tags (cTags c1)\<rparr> else c1)"

definition HandleDelete :: "('d, 'v, 'x, 'w) env \<Rightarrow> string \<Rightarrow> 'd cache \<Rightarrow> 'd cache \<times> bool" where
  "HandleDelete env key c = node_Delete env key (c\<lparr>cTags := tag_Remove key (cTags c)\<rparr>)"

definition HandleExists :: "('d, 'v, 'x, 'w) env \<Rightarrow> (nat \<Rightarrow> instant) \<Rightarrow> string \<Rightarrow> 'd cache \<Rightarrow> 'd cache \<times> bool" where
  "HandleExists env clk key c = node_Exists env clk key c"

fun HandleMGet_loop ::
    "('d, 'v, 'x, 'w) env \<Rightarrow> (nat \<Rightarrow> instant) \<Rightarrow> nat \<Rightarrow> string list \<Rightarrow> (string, bytes) gomap \<Rightarrow> 'd cache \<Rightarrow>
     'd cache \<times> (string, bytes) gomap" where
  "HandleMGet_loop env clk i [] results c = (c, results)"
| "HandleMGet_loop env clk i (key # keys) results c =
     (let (c1, r) = node_Get env (clk i) key c
      in HandleMGet_loop env clk (Suc i) keys (case r of Some data \<Rightarrow> gm_set key data results | None \<Rightarrow> results) c1)"

definition HandleMGet ::
    "('d, 'v, 'x, 'w) env \<Rightarrow> (nat \<Rightarrow> instant) \<Rightarrow> string list \<Rightarrow> 'd cache \<Rightarrow> 'd cache \<times> (string, bytes) gomap" where
  "HandleMGet env clk keys c = HandleMGet_loop env clk 0 keys [] c"

definition HandleIncr ::
    "('d, 'v, 'x, 'w) env \<Rightarrow> (nat \<Rightarrow> instant) \<Rightarrow> string \<Rightarrow> int64 \<Rightarrow> 'd cache \<Rightarrow> 'd cache \<times> (string + int64)" where
  "HandleIncr env clk key delta c = node_Incr env clk key delta c"

definition lock_owner :: "'d cache \<Rightarrow> string" where
  "lock_owner c = (case cState c of None \<Rightarrow> '''' | Some cs \<Rightarrow> SelfName cs)"

definition HandleLockAcquire ::
    "(nat \<Rightarrow> instant) \<Rightarrow> bytes \<Rightarrow> string \<Rightarrow> duration \<Rightarrow> 'd cache \<Rightarrow> 'd cache \<times> (string \<times> uint64) option" where
  "HandleLockAcquire clk random key ttl c =
     (let (e, r) = Acquire (clk 0) (clk 1) random key ttl (lock_owner c) (cLocks c) in (c\<lparr>cLocks := e\<rparr>, r))"

definition HandleLockRelease :: "string \<Rightarrow> string \<Rightarrow> 'd cache \<Rightarrow> 'd cache \<times> bool" where
  "HandleLockRelease key token c = (let (e, r) = Release key token (cLocks c) in (c\<lparr>cLocks := e\<rparr>, r))"

definition HandleLockExtend ::
    "(nat \<Rightarrow> instant) \<Rightarrow> string \<Rightarrow> string \<Rightarrow> duration \<Rightarrow> 'd cache \<Rightarrow> 'd cache \<times> bool" where
  "HandleLockExtend clk key token ttl c =
     (let (e, r) = Extend (clk 0) (clk 1) key token ttl (cLocks c) in (c\<lparr>cLocks := e\<rparr>, r))"

definition processRequest ::
    "('d, 'v, 'x, 'w) env \<Rightarrow> (nat \<Rightarrow> instant) \<Rightarrow> bytes \<Rightarrow> request \<Rightarrow> 'd cache \<Rightarrow> 'd cache \<times> response" where
  "processRequest env clk random req c =
     (if rOp req = opGet then
        (let (c', r) = HandleGet env (clk 0) (rKey req) c
         in (c', case r of Some v \<Rightarrow> zero_response\<lparr>pValue := v, pFound := True\<rparr> | None \<Rightarrow> zero_response))
      else if rOp req = opSet then
        (HandleSet env (clk 0) (rKey req) (rValue req) (rTTL req) (rTags req) c, zero_response\<lparr>pOK := True\<rparr>)
      else if rOp req = opDelete then
        (let (c', ok) = HandleDelete env (rKey req) c in (c', zero_response\<lparr>pOK := ok\<rparr>))
      else if rOp req = opExists then
        (let (c', ok) = HandleExists env clk (rKey req) c in (c', zero_response\<lparr>pOK := ok\<rparr>))
      else if rOp req = opMGet then
        (let (c', vals) = HandleMGet env clk (rKeys req) c in (c', zero_response\<lparr>pValues := vals\<rparr>))
      else if rOp req = opIncr then
        (let (c', r) = HandleIncr env clk (rKey req) (rDelta req) c
         in (c', case r of Inl err \<Rightarrow> zero_response\<lparr>pError := err\<rparr> | Inr n \<Rightarrow> zero_response\<lparr>pIntVal := n\<rparr>))
      else if rOp req = opLockAcquire then
        (let (c', r) = HandleLockAcquire clk random (rKey req) (rTTL req) c
         in (c', case r of
                   None \<Rightarrow> zero_response
                 | Some (token, fencing) \<Rightarrow> zero_response\<lparr>pToken := token, pFencingToken := fencing, pAcquired := True\<rparr>))
      else if rOp req = opLockRelease then
        (let (c', ok) = HandleLockRelease (rKey req) (rToken req) c in (c', zero_response\<lparr>pOK := ok\<rparr>))
      else if rOp req = opLockExtend then
        (let (c', ok) = HandleLockExtend clk (rKey req) (rToken req) (rTTL req) c in (c', zero_response\<lparr>pOK := ok\<rparr>))
      else (c, zero_response\<lparr>pError := ''unknown operation''\<rparr>))"

end
