(* ===== verification/Transport.thy ===== *)
theory Transport
  imports Node
begin

text \<open>
  The client side of \<open>src/internal/transport/rpc.go\<close> on a network of nodes. A world maps the RPC address
  of every process to its node. A remote call finds or dials the pooled connection, sends the encoded
  request, lets the node at the other end process it, and reads the response. What the network does to a
  call is the argument \<open>fault\<close>: nothing, the dial fails, the write fails, or the reply is lost or late
  (the request has then been processed).

  The last section looks at one pooled connection at a finer grain: \<open>call\<close> holds no lock while it uses the
  connection, so two calls can interleave on it.
\<close>

section \<open>Definitions\<close>

type_synonym 'd world = "(string, 'd cache) gomap"

datatype fault = NoFault | DialFails | WriteFails | ReplyLost

text \<open>\<open>getConn\<close>: a pooled connection, or a new one if a node listens at the address.\<close>

definition getConn :: "fault \<Rightarrow> string \<Rightarrow> 'd world \<Rightarrow> 'd cache \<Rightarrow> 'd cache option" where
  "getConn ft addr w c =
     (if addr \<in> set (cConns c) then Some c
      else if ft = DialFails then None
      else case gm_get w addr of
             None \<Rightarrow> None
           | Some peer \<Rightarrow> if cStopped peer then None else Some (c\<lparr>cConns := addr # cConns c\<rparr>))"

definition closeConn :: "string \<Rightarrow> 'd cache \<Rightarrow> 'd cache" where
  "closeConn addr c = c\<lparr>cConns := filter (\<lambda>a. a \<noteq> addr) (cConns c)\<rparr>"

definition CloseConnection :: "string \<Rightarrow> 'd cache \<Rightarrow> 'd cache" where
  "CloseConnection addr c = closeConn addr c"

definition on_node :: "string \<Rightarrow> ('d cache \<Rightarrow> 'd cache) \<Rightarrow> 'd world \<Rightarrow> 'd world" where
  "on_node a f w = (case gm_get w a of None \<Rightarrow> w | Some c \<Rightarrow> gm_set a (f c) w)"

text \<open>One round of \<open>handleConn\<close> at the node with the address: the reply, if one is written.\<close>

definition serve ::
    "('d, 'v, 'x, 'w) env \<Rightarrow> (nat \<Rightarrow> instant) \<Rightarrow> bytes \<Rightarrow> string \<Rightarrow> 'w \<Rightarrow> 'd world \<Rightarrow> 'd world \<times> 'w option" where
  "serve env clk random addr msg w =
     (case gm_get w addr of
        None \<Rightarrow> (w, None)
      | Some peer \<Rightarrow>
          (case dec_request (eCodec env) msg of
             Inl err \<Rightarrow> (w, None)
           | Inr req \<Rightarrow>
               (let (peer', resp) = processRequest env clk random req peer;
                    w' = gm_set addr peer' w
                in case enc_response (eCodec env) resp of Inl err \<Rightarrow> (w', None) | Inr m \<Rightarrow> (w', Some m))))"

definition call ::
    "('d, 'v, 'x, 'w) env \<Rightarrow> (nat \<Rightarrow> instant) \<Rightarrow> bytes \<Rightarrow> fault \<Rightarrow> string \<Rightarrow> string \<Rightarrow> request \<Rightarrow> 'd world \<Rightarrow>
     'd world \<times> (string + response)" where
  "call env clk random ft self addr req w =
     (case gm_get w self of
        None \<Rightarrow> (w, Inl ''no such process'')
      | Some c \<Rightarrow>
          (case getConn ft addr w c of
             None \<Rightarrow> (w, Inl (''transport: dial '' @ addr))
           | Some c1 \<Rightarrow>
               (let w1 = gm_set self c1 w
                in case enc_request (eCodec env) req of
                     Inl err \<Rightarrow> (on_node self (closeConn addr) w1, Inl (''transport: encode to '' @ addr))
                   | Inr msg \<Rightarrow>
                       if ft = WriteFails then
                         (on_node self (closeConn addr) w1, Inl (''transport: encode to '' @ addr))
                       else
                         (let (w2, reply) = serve env clk random addr msg w1
                          in case (if ft = ReplyLost then None else reply) of
                               None \<Rightarrow> (on_node self (closeConn addr) w2, Inl (''transport: decode from '' @ addr))
                             | Some m \<Rightarrow>
                                 (case dec_response (eCodec env) m of
                                    Inl err \<Rightarrow>
                                      (on_node self (closeConn addr) w2, Inl (''transport: decode from '' @ addr))
                                  | Inr resp \<Rightarrow>
                                      if pError resp \<noteq> '''' then
                                        (w2, Inl (''transport: remote error from '' @ addr @ '': '' @ pError resp))
                                      else (w2, Inr resp))))))"

definition RemoteGet ::
    "('d, 'v, 'x, 'w) env \<Rightarrow> (nat \<Rightarrow> instant) \<Rightarrow> fault \<Rightarrow> string \<Rightarrow> string \<Rightarrow> string \<Rightarrow> 'd world \<Rightarrow>
     'd world \<times> (string + bytes option)" where
  "RemoteGet env clk ft self addr key w =
     (case call env clk [] ft self addr (zero_request\<lparr>rOp := opGet, rKey := key\<rparr>) w of
        (w', Inl err) \<Rightarrow> (w', Inl err)
      | (w', Inr resp) \<Rightarrow> (w', Inr (if pFound resp then Some (pValue resp) else None)))"

definition set_request :: "string \<Rightarrow> bytes \<Rightarrow> duration \<Rightarrow> string list \<Rightarrow> request" where
  "set_request key val ttl tags = zero_request\<lparr>rOp := opSet, rKey := key, rValue := val, rTTL := ttl, rTags := tags\<rparr>"

definition RemoteSet ::
    "('d, 'v, 'x, 'w) env \<Rightarrow> (nat \<Rightarrow> instant) \<Rightarrow> fault \<Rightarrow> string \<Rightarrow> string \<Rightarrow> string \<Rightarrow> bytes \<Rightarrow> duration \<Rightarrow> string list \<Rightarrow>
     'd world \<Rightarrow> 'd world \<times> string option" where
  "RemoteSet env clk ft self addr key val ttl tags w =
     (case call env clk [] ft self addr (set_request key val ttl tags) w of
        (w', Inl err) \<Rightarrow> (w', Some err)
      | (w', Inr resp) \<Rightarrow> (w', None))"

definition delete_request :: "string \<Rightarrow> request" where
  "delete_request key = zero_request\<lparr>rOp := opDelete, rKey := key\<rparr>"

definition RemoteDelete ::
    "('d, 'v, 'x, 'w) env \<Rightarrow> (nat \<Rightarrow> instant) \<Rightarrow> fault \<Rightarrow> string \<Rightarrow> string \<Rightarrow> string \<Rightarrow> 'd world \<Rightarrow>
     'd world \<times> string option" where
  "RemoteDelete env clk ft self addr key w =
     (case call env clk [] ft self addr (delete_request key) w of
        (w', Inl err) \<Rightarrow> (w', Some err)
      | (w', Inr resp) \<Rightarrow> (w', None))"

definition RemoteExists ::
    "('d, 'v, 'x, 'w) env \<Rightarrow> (nat \<Rightarrow> instant) \<Rightarrow> fault \<Rightarrow> string \<Rightarrow> string \<Rightarrow> string \<Rightarrow> 'd world \<Rightarrow>
     'd world \<times> (string + bool)" where
  "RemoteExists env clk ft self addr key w =
     (case call env clk [] ft self addr (zero_request\<lparr>rOp := opExists, rKey := key\<rparr>) w of
        (w', Inl err) \<Rightarrow> (w', Inl err)
      | (w', Inr resp) \<Rightarrow> (w', Inr (pOK resp)))"

definition RemoteMGet ::
    "('d, 'v, 'x, 'w) env \<Rightarrow> (nat \<Rightarrow> instant) \<Rightarrow> fault \<Rightarrow> string \<Rightarrow> string \<Rightarrow> string list \<Rightarrow> 'd world \<Rightarrow>
     'd world \<times> (string + (string, bytes) gomap)" where
  "RemoteMGet env clk ft self addr keys w =
     (case call env clk [] ft self addr (zero_request\<lparr>rOp := opMGet, rKeys := keys\<rparr>) w of
        (w', Inl err) \<Rightarrow> (w', Inl err)
      | (w', Inr resp) \<Rightarrow> (w', Inr (pValues resp)))"

definition RemoteIncr ::
    "('d, 'v, 'x, 'w) env \<Rightarrow> (nat \<Rightarrow> instant) \<Rightarrow> fault \<Rightarrow> string \<Rightarrow> string \<Rightarrow> string \<Rightarrow> int64 \<Rightarrow> 'd world \<Rightarrow>
     'd world \<times> (string + int64)" where
  "RemoteIncr env clk ft self addr key delta w =
     (case call env clk [] ft self addr (zero_request\<lparr>rOp := opIncr, rKey := key, rDelta := delta\<rparr>) w of
        (w', Inl err) \<Rightarrow> (w', Inl err)
      | (w', Inr resp) \<Rightarrow> (w', Inr (pIntVal resp)))"

definition RemoteLockAcquire ::
    "('d, 'v, 'x, 'w) env \<Rightarrow> (nat \<Rightarrow> instant) \<Rightarrow> bytes \<Rightarrow> fault \<Rightarrow> string \<Rightarrow> string \<Rightarrow> string \<Rightarrow> duration \<Rightarrow> 'd world \<Rightarrow>
     'd world \<times> (string + (string \<times> uint64) option)" where
  "RemoteLockAcquire env clk random ft self addr key ttl w =
     (case call env clk random ft self addr (zero_request\<lparr>rOp := opLockAcquire, rKey := key, rTTL := ttl\<rparr>) w of
        (w', Inl err) \<Rightarrow> (w', Inl err)
      | (w', Inr resp) \<Rightarrow> (w', Inr (if pAcquired resp then Some (pToken resp, pFencingToken resp) else None)))"

definition RemoteLockRelease ::
    "('d, 'v, 'x, 'w) env \<Rightarrow> (nat \<Rightarrow> instant) \<Rightarrow> fault \<Rightarrow> string \<Rightarrow> string \<Rightarrow> string \<Rightarrow> string \<Rightarrow> 'd world \<Rightarrow>
     'd world \<times> (string + bool)" where
  "RemoteLockRelease env clk ft self addr key token w =
     (case call env clk [] ft self addr (zero_request\<lparr>rOp := opLockRelease, rKey := key, rToken := token\<rparr>) w of
        (w', Inl err) \<Rightarrow> (w', Inl err)
      | (w', Inr resp) \<Rightarrow> (w', Inr (pOK resp)))"

definition RemoteLockExtend ::
    "('d, 'v, 'x, 'w) env \<Rightarrow> (nat \<Rightarrow> instant) \<Rightarrow> fault \<Rightarrow> string \<Rightarrow> string \<Rightarrow> string \<Rightarrow> string \<Rightarrow> duration \<Rightarrow> 'd world \<Rightarrow>
     'd world \<times> (string + bool)" where
  "RemoteLockExtend env clk ft self addr key token ttl w =
     (case call env clk [] ft self addr
        (zero_request\<lparr>rOp := opLockExtend, rKey := key, rToken := token, rTTL := ttl\<rparr>) w of
        (w', Inl err) \<Rightarrow> (w', Inl err)
      | (w', Inr resp) \<Rightarrow> (w', Inr (pOK resp)))"

definition transport_Stop :: "'d cache \<Rightarrow> 'd cache" where
  "transport_Stop c = c\<lparr>cStopped := True, cConns := []\<rparr>"

section \<open>Lemmas\<close>

lemma plain_codec_ok: "codec_ok plain_codec"
  by (simp add: codec_ok_def plain_codec_def)

text \<open>A world in which a call from \<open>self\<close> to \<open>addr\<close> gets through.\<close>

definition reachable :: "string \<Rightarrow> string \<Rightarrow> 'd world \<Rightarrow> bool" where
  "reachable self addr w \<longleftrightarrow> self \<noteq> addr \<and> gm_get w self \<noteq> None \<and>
     (\<exists>peer. gm_get w addr = Some peer \<and> \<not> cStopped peer)"

definition pooled :: "string \<Rightarrow> 'd cache \<Rightarrow> 'd cache" where
  "pooled addr c = (if addr \<in> set (cConns c) then c else c\<lparr>cConns := addr # cConns c\<rparr>)"

text \<open>Without faults a call is the remote processing of the request.\<close>

lemma call_ok:
  assumes "codec_ok (eCodec env)" "gm_get w self = Some c" "gm_get w addr = Some peer" "\<not> cStopped peer" "self \<noteq> addr"
    and p: "processRequest env clk random req peer = (peer', resp)"
  shows "call env clk random NoFault self addr req w =
    (gm_set addr peer' (gm_set self (pooled addr c) w),
     if pError resp = '''' then Inr resp
     else Inl (''transport: remote error from '' @ addr @ '': '' @ pError resp))"
proof -
  obtain m where m: "enc_request (eCodec env) req = Inr m" "dec_request (eCodec env) m = Inr req"
    using assms(1) unfolding codec_ok_def by blast
  obtain m' where m': "enc_response (eCodec env) resp = Inr m'" "dec_response (eCodec env) m' = Inr resp"
    using assms(1) unfolding codec_ok_def by blast
  have g: "getConn NoFault addr w c = Some (pooled addr c)"
    using assms(3,4) by (simp add: getConn_def pooled_def)
  have s: "serve env clk random addr m (gm_set self (pooled addr c) w) =
      (gm_set addr peer' (gm_set self (pooled addr c) w), Some m')"
    using assms(3,5) m m' p by (simp add: serve_def)
  show ?thesis by (simp add: call_def assms(2) g m(1) s m'(2) Let_def)
qed

end
