(* ===== verification/Cache.thy ===== *)
theory Cache
  imports Transport
begin

text \<open>
  The public API of the cache on a network of nodes: \<open>src/cache.go\<close>, the routing of
  \<open>src/distributed.go\<close> and the operations of \<open>src/tags.go\<close> (\<open>SetWithTags\<close>, \<open>InvalidateTag\<close>). An operation is called on the node \<open>self\<close> of a world and answers
  the new world and its result; \<open>ft\<close> is the fault of the remote call it makes, if it makes one.
\<close>

section \<open>Routing\<close>

datatype cache_error =
    ErrKeyEmpty
  | ErrShutdown
  | ErrSerializationFailed string
  | ErrRemote string
  | ErrLockNotAcquired
  | ErrLockNotHeld
  | ErrValue string

text \<open>\<open>ownerAddr\<close>: the RPC address of the owner of a key, empty for a local key.\<close>

definition ownerAddr :: "string \<Rightarrow> 'd cache \<Rightarrow> string" where
  "ownerAddr key c =
     (case cRing c of
        None \<Rightarrow> ''''
      | Some r \<Rightarrow>
          (case cState c of
             None \<Rightarrow> ''''
           | Some cs \<Rightarrow>
               (let owner = GetNode key r
                in if owner = '''' \<or> owner = SelfName cs then ''''
                   else case cs_GetNode owner cs of None \<Rightarrow> '''' | Some node \<Rightarrow> nRPCAddr node)))"

text \<open>The other live nodes that a replicated write is sent to.\<close>

definition replicas :: "'d cache \<Rightarrow> string list" where
  "replicas c =
     (case cState c of
        None \<Rightarrow> []
      | Some cs \<Rightarrow> map nRPCAddr (filter (\<lambda>node. nName node \<noteq> SelfName cs) (LiveNodes cs)))"

definition spawn :: "string list \<Rightarrow> request \<Rightarrow> 'd cache \<Rightarrow> 'd cache" where
  "spawn addrs req c = c\<lparr>cSpawned := cSpawned c @ map (\<lambda>a. (a, req)) addrs\<rparr>"

definition distributedSet ::
    "('d, 'v, 'x, 'w) env \<Rightarrow> (nat \<Rightarrow> instant) \<Rightarrow> fault \<Rightarrow> string \<Rightarrow> string \<Rightarrow> bytes \<Rightarrow> duration \<Rightarrow> string list \<Rightarrow>
     'd world \<Rightarrow> 'd world \<times> string option" where
  "distributedSet env clk ft self key data ttl tags w =
     (case gm_get w self of
        None \<Rightarrow> (w, Some ''no such process'')
      | Some c \<Rightarrow>
          (case mode (cConfig c) of
             Replicated \<Rightarrow>
               (gm_set self (spawn (replicas c) (set_request key data ttl tags) (node_Set env (clk 0) key data ttl c)) w, None)
           | NearCache \<Rightarrow>
               (let w1 = gm_set self (node_Set env (clk 0) key data ttl c) w; addr = ownerAddr key c
                in if addr \<noteq> '''' then RemoteSet env (\<lambda>i. clk (Suc i)) ft self addr key data ttl tags w1 else (w1, None))
           | Partitioned \<Rightarrow>
               (let addr = ownerAddr key c
                in if addr \<noteq> '''' then RemoteSet env clk ft self addr key data ttl tags w
                   else (gm_set self (node_Set env (clk 0) key data ttl c) w, None))))"

definition distributedGet ::
    "('d, 'v, 'x, 'w) env \<Rightarrow> (nat \<Rightarrow> instant) \<Rightarrow> fault \<Rightarrow> string \<Rightarrow> string \<Rightarrow> 'd world \<Rightarrow> 'd world \<times> bytes option" where
  "distributedGet env clk ft self key w =
     (case gm_get w self of
        None \<Rightarrow> (w, None)
      | Some c \<Rightarrow>
          (case mode (cConfig c) of
             Replicated \<Rightarrow> (let (c', r) = node_Get env (clk 0) key c in (gm_set self c' w, r))
           | NearCache \<Rightarrow>
               (let (c', r) = node_Get env (clk 0) key c; w1 = gm_set self c' w
                in case r of
                     Some data \<Rightarrow> (w1, Some data)
                   | None \<Rightarrow>
                       (let addr = ownerAddr key c'
                        in if addr \<noteq> '''' then
                             (case RemoteGet env (\<lambda>i. clk (Suc i)) ft self addr key w1 of
                                (w2, Inr (Some data)) \<Rightarrow>
                                  (on_node self (node_Set env (clk 2) key data (DefaultTTL (cConfig c))) w2, Some data)
                              | (w2, _) \<Rightarrow> (w2, None))
                           else (w1, None)))
           | Partitioned \<Rightarrow>
               (let addr = ownerAddr key c
                in if addr \<noteq> '''' then
                     (case RemoteGet env clk ft self addr key w of
                        (w1, Inl err) \<Rightarrow> (w1, None)
                      | (w1, Inr r) \<Rightarrow> (w1, r))
                   else (let (c', r) = node_Get env (clk 0) key c in (gm_set self c' w, r)))))"

definition distributedDelete ::
    "('d, 'v, 'x, 'w) env \<Rightarrow> (nat \<Rightarrow> instant) \<Rightarrow> fault \<Rightarrow> string \<Rightarrow> string \<Rightarrow> 'd world \<Rightarrow> 'd world" where
  "distributedDelete env clk ft self key w =
     (case gm_get w self of
        None \<Rightarrow> w
      | Some c \<Rightarrow>
          (case mode (cConfig c) of
             Replicated \<Rightarrow> gm_set self (spawn (replicas c) (delete_request key) (fst (node_Delete env key c))) w
           | NearCache \<Rightarrow>
               (let w1 = gm_set self (fst (node_Delete env key c)) w; addr = ownerAddr key c
                in if addr \<noteq> '''' then fst (RemoteDelete env clk ft self addr key w1) else w1)
           | Partitioned \<Rightarrow>
               (let addr = ownerAddr key c
                in if addr \<noteq> '''' then fst (RemoteDelete env clk ft self addr key w)
                   else gm_set self (fst (node_Delete env key c)) w)))"

text \<open>A pending replication goroutine of a node runs; its error is ignored.\<close>

definition run_spawned ::
    "('d, 'v, 'x, 'w) env \<Rightarrow> (nat \<Rightarrow> instant) \<Rightarrow> fault \<Rightarrow> string \<Rightarrow> nat \<Rightarrow> 'd world \<Rightarrow> 'd world" where
  "run_spawned env clk ft self i w =
     (case gm_get w self of
        None \<Rightarrow> w
      | Some c \<Rightarrow>
          if i < length (cSpawned c) then
            (let (addr, req) = cSpawned c ! i;
                 c' = c\<lparr>cSpawned := take i (cSpawned c) @ drop (Suc i) (cSpawned c)\<rparr>
             in fst (call env clk [] ft self addr req (gm_set self c' w)))
          else w)"

section \<open>The cache API\<close>

text \<open>\<open>c.closed.Load()\<close>; a process that is not there serves nothing.\<close>

definition is_closed :: "string \<Rightarrow> 'd world \<Rightarrow> bool" where
  "is_closed self w = (case gm_get w self of None \<Rightarrow> True | Some c \<Rightarrow> cClosed c)"

definition node_at :: "string \<Rightarrow> 'd world \<Rightarrow> ('d cache \<Rightarrow> 'a) \<Rightarrow> 'a \<Rightarrow> 'a" where
  "node_at self w f z = (case gm_get w self of None \<Rightarrow> z | Some c \<Rightarrow> f c)"

definition cache_Set ::
    "('d, 'v, 'x, 'w) env \<Rightarrow> (nat \<Rightarrow> instant) \<Rightarrow> instant \<Rightarrow> fault \<Rightarrow> string \<Rightarrow> string \<Rightarrow> 'v gvalue \<Rightarrow> duration \<Rightarrow>
     'd world \<Rightarrow> 'd world \<times> cache_error option" where
  "cache_Set env clk ts ft self key val ttl w =
     (if key = '''' then (w, Some ErrKeyEmpty)
      else if is_closed self w then (w, Some ErrShutdown)
      else case Serialize (marshal_any (eMsgpack env)) val of
             Inl err \<Rightarrow> (w, Some (ErrSerializationFailed err))
           | Inr data \<Rightarrow>
               (let ttl' = (if ttl = 0 then node_at self w (\<lambda>c. DefaultTTL (cConfig c)) 0 else ttl)
                in case distributedSet env clk ft self key data ttl' [] w of
                     (w1, Some err) \<Rightarrow> (w1, Some (ErrRemote err))
                   | (w1, None) \<Rightarrow>
                       (on_node self (\<lambda>c. fire (FireSet key data) (do_publish ts EventSet key data c)) w1, None)))"

definition cache_Get ::
    "('d, 'v, 'x, 'w) env \<Rightarrow> (nat \<Rightarrow> instant) \<Rightarrow> fault \<Rightarrow> string \<Rightarrow> string \<Rightarrow> 'x dest \<Rightarrow> 'd world \<Rightarrow>
     'd world \<times> 'v gvalue option" where
  "cache_Get env clk ft self key dest w =
     (if key = '''' \<or> is_closed self w then (w, None)
      else case distributedGet env clk ft self key w of
             (w1, None) \<Rightarrow> (on_node self (fire (FireMiss key)) w1, None)
           | (w1, Some data) \<Rightarrow>
               (case Deserialize (unmarshal_any (eMsgpack env)) data dest of
                  Inl err \<Rightarrow> (w1, None)
                | Inr v \<Rightarrow> (on_node self (fire (FireHit key)) w1, Some v)))"

definition cache_Delete ::
    "('d, 'v, 'x, 'w) env \<Rightarrow> (nat \<Rightarrow> instant) \<Rightarrow> instant \<Rightarrow> fault \<Rightarrow> string \<Rightarrow> string \<Rightarrow> 'd world \<Rightarrow> 'd world" where
  "cache_Delete env clk ts ft self key w =
     (if key = '''' \<or> is_closed self w then w
      else on_node self
             (\<lambda>c. let c1 = fire (FireDelete key) (do_publish ts EventDelete key [] c)
                  in c1\<lparr>cTags := tag_Remove key (cTags c1)\<rparr>)
             (distributedDelete env clk ft self key w))"

definition cache_Exists ::
    "('d, 'v, 'x, 'w) env \<Rightarrow> (nat \<Rightarrow> instant) \<Rightarrow> fault \<Rightarrow> string \<Rightarrow> string \<Rightarrow> 'd world \<Rightarrow> 'd world \<times> bool" where
  "cache_Exists env clk ft self key w =
     (if key = '''' then (w, False)
      else case gm_get w self of
             None \<Rightarrow> (w, False)
           | Some c \<Rightarrow>
               if cClosed c then (w, False)
               else if ownerAddr key c \<noteq> '''' then
                 (case RemoteExists env clk ft self (ownerAddr key c) key w of
                    (w1, Inl err) \<Rightarrow> (w1, False)
                  | (w1, Inr ok) \<Rightarrow> (w1, ok))
               else (let (c', ok) = node_Exists env clk key c in (gm_set self c' w, ok)))"

definition cache_TTL ::
    "('d, 'v, 'x, 'w) env \<Rightarrow> (nat \<Rightarrow> instant) \<Rightarrow> string \<Rightarrow> string \<Rightarrow> 'd world \<Rightarrow> 'd world \<times> duration" where
  "cache_TTL env clk self key w =
     (if key = '''' then (w, 0)
      else case gm_get w self of
             None \<Rightarrow> (w, 0)
           | Some c \<Rightarrow>
               if cClosed c then (w, 0)
               else (let (c', d) = node_TTL env clk key c in (gm_set self c' w, d)))"

text \<open>\<open>GetOrSet\<close>; \<open>fn\<close> is what the function of the caller answers. The last two arguments are the faults of
  the two remote calls.\<close>

definition cache_GetOrSet ::
    "('d, 'v, 'x, 'w) env \<Rightarrow> (nat \<Rightarrow> instant) \<Rightarrow> (nat \<Rightarrow> instant) \<Rightarrow> instant \<Rightarrow> fault \<Rightarrow> fault \<Rightarrow> string \<Rightarrow> string \<Rightarrow>
     'x dest \<Rightarrow> duration \<Rightarrow> string + 'v gvalue \<Rightarrow> 'd world \<Rightarrow> 'd world \<times> (cache_error + 'v gvalue)" where
  "cache_GetOrSet env clk1 clk2 ts ft1 ft2 self key dest ttl fn w =
     (if key = '''' then (w, Inl ErrKeyEmpty)
      else if is_closed self w then (w, Inl ErrShutdown)
      else case cache_Get env clk1 ft1 self key dest w of
             (w1, Some v) \<Rightarrow> (w1, Inr v)
           | (w1, None) \<Rightarrow>
               (case fn of
                  Inl err \<Rightarrow> (w1, Inl (ErrValue err))
                | Inr val \<Rightarrow>
                    (case cache_Set env clk2 ts ft2 self key val ttl w1 of
                       (w2, Some err) \<Rightarrow> (w2, Inl err)
                     | (w2, None) \<Rightarrow>
                         (case Serialize (marshal_any (eMsgpack env)) val of
                            Inl err \<Rightarrow> (w2, Inl (ErrSerializationFailed err))
                          | Inr data \<Rightarrow>
                              (case Deserialize (unmarshal_any (eMsgpack env)) data dest of
                                 Inl err \<Rightarrow> (w2, Inl (ErrValue err))
                               | Inr v \<Rightarrow> (w2, Inr v))))))"

fun mget_loop ::
    "('d, 'v, 'x, 'w) env \<Rightarrow> (nat \<Rightarrow> nat \<Rightarrow> instant) \<Rightarrow> (nat \<Rightarrow> fault) \<Rightarrow> string \<Rightarrow> nat \<Rightarrow> string list \<Rightarrow>
     (string, bytes) gomap \<Rightarrow> 'd world \<Rightarrow> 'd world \<times> (string, bytes) gomap" where
  "mget_loop env clk ft self i [] results w = (w, results)"
| "mget_loop env clk ft self i (key # keys) results w =
     (if key = '''' then mget_loop env clk ft self (Suc i) keys results w
      else case distributedGet env (clk i) (ft i) self key w of
             (w1, Some data) \<Rightarrow> mget_loop env clk ft self (Suc i) keys (gm_set key data results) w1
           | (w1, None) \<Rightarrow> mget_loop env clk ft self (Suc i) keys results w1)"

definition cache_MGet ::
    "('d, 'v, 'x, 'w) env \<Rightarrow> (nat \<Rightarrow> nat \<Rightarrow> instant) \<Rightarrow> (nat \<Rightarrow> fault) \<Rightarrow> string \<Rightarrow> string list \<Rightarrow> 'd world \<Rightarrow>
     'd world \<times> (string, bytes) gomap" where
  "cache_MGet env clk ft self keys w =
     (if is_closed self w then (w, []) else mget_loop env clk ft self 0 keys [] w)"

text \<open>\<open>MSet\<close>: the items in the order in which the range over the map visits them.\<close>

fun mset_loop ::
    "('d, 'v, 'x, 'w) env \<Rightarrow> (nat \<Rightarrow> nat \<Rightarrow> instant) \<Rightarrow> (nat \<Rightarrow> instant) \<Rightarrow> (nat \<Rightarrow> fault) \<Rightarrow> string \<Rightarrow> nat \<Rightarrow>
     (string \<times> 'v gvalue \<times> duration) list \<Rightarrow> 'd world \<Rightarrow> 'd world \<times> cache_error option" where
  "mset_loop env clk ts ft self i [] w = (w, None)"
| "mset_loop env clk ts ft self i ((key, val, ttl) # its) w =
     (case cache_Set env (clk i) (ts i) (ft i) self key val ttl w of
        (w1, Some err) \<Rightarrow> (w1, Some err)
      | (w1, None) \<Rightarrow> mset_loop env clk ts ft self (Suc i) its w1)"

definition cache_MSet ::
    "('d, 'v, 'x, 'w) env \<Rightarrow> (nat \<Rightarrow> nat \<Rightarrow> instant) \<Rightarrow> (nat \<Rightarrow> instant) \<Rightarrow> (nat \<Rightarrow> fault) \<Rightarrow> string \<Rightarrow>
     (string \<times> 'v gvalue \<times> duration) list \<Rightarrow> 'd world \<Rightarrow> 'd world \<times> cache_error option" where
  "cache_MSet env clk ts ft self its w =
     (if is_closed self w then (w, Some ErrShutdown) else mset_loop env clk ts ft self 0 its w)"

definition cache_Incr ::
    "('d, 'v, 'x, 'w) env \<Rightarrow> (nat \<Rightarrow> instant) \<Rightarrow> fault \<Rightarrow> string \<Rightarrow> string \<Rightarrow> int64 \<Rightarrow> 'd world \<Rightarrow>
     'd world \<times> (cache_error + int64)" where
  "cache_Incr env clk ft self key delta w =
     (if key = '''' then (w, Inl ErrKeyEmpty)
      else case gm_get w self of
             None \<Rightarrow> (w, Inl ErrShutdown)
           | Some c \<Rightarrow>
               if cClosed c then (w, Inl ErrShutdown)
               else if ownerAddr key c \<noteq> '''' then
                 (case RemoteIncr env clk ft self (ownerAddr key c) key delta w of
                    (w1, Inl err) \<Rightarrow> (w1, Inl (ErrRemote err))
                  | (w1, Inr n) \<Rightarrow> (w1, Inr n))
               else (case node_Incr env clk key delta c of
                       (c', Inl err) \<Rightarrow> (gm_set self c' w, Inl (ErrValue err))
                     | (c', Inr n) \<Rightarrow> (gm_set self c' w, Inr n)))"

definition cache_Decr ::
    "('d, 'v, 'x, 'w) env \<Rightarrow> (nat \<Rightarrow> instant) \<Rightarrow> fault \<Rightarrow> string \<Rightarrow> string \<Rightarrow> int64 \<Rightarrow> 'd world \<Rightarrow>
     'd world \<times> (cache_error + int64)" where
  "cache_Decr env clk ft self key delta w =
     (if key = '''' then (w, Inl ErrKeyEmpty)
      else case gm_get w self of
             None \<Rightarrow> (w, Inl ErrShutdown)
           | Some c \<Rightarrow>
               if cClosed c then (w, Inl ErrShutdown)
               else if ownerAddr key c \<noteq> '''' then
                 (case RemoteIncr env clk ft self (ownerAddr key c) key (- delta) w of
                    (w1, Inl err) \<Rightarrow> (w1, Inl (ErrRemote err))
                  | (w1, Inr n) \<Rightarrow> (w1, Inr n))
               else (case node_Incr env clk key (- delta) c of
                       (c', Inl err) \<Rightarrow> (gm_set self c' w, Inl (ErrValue err))
                     | (c', Inr n) \<Rightarrow> (gm_set self c' w, Inr n)))"

definition cache_Len :: "string \<Rightarrow> 'd world \<Rightarrow> int64" where
  "cache_Len self w = node_at self w (\<lambda>c. st_Len (cStore c)) 0"

text \<open>\<open>Shutdown\<close>: the first call closes everything, the others do nothing. Leaving the gossip and stopping
  the ticker of the lock engine have no effect on the modelled state.\<close>

definition cache_Shutdown :: "string \<Rightarrow> 'd world \<Rightarrow> 'd world" where
  "cache_Shutdown self w =
     on_node self
       (\<lambda>c. if cClosed c then c
            else let c1 = c\<lparr>cClosed := True\<rparr>;
                     c2 = (if cRing c = None then c1 else transport_Stop c1)
                 in case broker_Shutdown (cBroker c2) of
                      None \<Rightarrow> c2\<lparr>cPanicked := True\<rparr>
                    | Some b \<Rightarrow> c2\<lparr>cBroker := b\<rparr>) w"

section \<open>Construction and membership\<close>

text \<open>
  \<open>New\<close>. What the world answers are arguments: the host name (empty if it has none), the database that
  \<open>pebble.Open\<close> opens, the error of listening at the RPC address, and what \<open>memberlist.Create\<close> answers. The
  membership object shares its table and its ring with the cache; the best-effort \<open>Join\<close> arrives later as
  events.
\<close>

definition New ::
    "'d pebble_api \<Rightarrow> string \<Rightarrow> string + 'd \<Rightarrow> string option \<Rightarrow> string + unit \<Rightarrow> instant \<Rightarrow> Config \<Rightarrow>
     string + 'd cache \<times> membership option" where
  "New api hostname opened listenErr created t config0 =
     (case validate config0 of
        Inl err \<Rightarrow> Inl err
      | Inr config1 \<Rightarrow>
          (let config = (if NodeName config1 = ''''
                         then config1\<lparr>NodeName := (if hostname = '''' then ''node-1'' else hostname)\<rparr> else config1)
           in case (case storageMode config of
                      Disk \<Rightarrow> map_sum (\<lambda>err. ''cachegrid: failed to open disk store: '' @ err) DiskStore
                                (NewPebbleStore api opened)
                    | Memory \<Rightarrow> Inr (MemStore (NewMemoryStore (unat (NumShards config)) (perShardMax config)))) of
                Inl err \<Rightarrow> Inl err
              | Inr store0 \<Rightarrow>
                  (let c = \<lparr>cStore = st_SetOnExpire True (st_SetOnEvict True store0), cConfig = config,
                            cClosed = False, cRing = None, cState = None, cConns = [], cStopped = False,
                            cLocks = NewEngine, cBuckets = NewTokenBucket, cWindows = NewSlidingWindow,
                            cBroker = NewBroker, cTags = newTagIndex, cEvicted = [], cSpawned = [],
                            cCalls = [], cPanicked = False\<rparr>
                   in if ListenAddr config = '''' then Inr (c, None)
                      else case SplitHostPort (ListenAddr config) of
                             Inl err \<Rightarrow> Inl (''cachegrid: invalid ListenAddr: '' @ err)
                           | Inr (host0, portStr) \<Rightarrow>
                               (let host = (if host0 = '''' then ''0.0.0.0'' else host0);
                                    port = fst (Atoi portStr)
                                in case listenErr of
                                     Some err \<Rightarrow> Inl (''cachegrid: failed to start RPC transport: '' @ err)
                                   | None \<Rightarrow>
                                       (case NewMembership t created
                                          \<lparr>mcNodeName = NodeName config, mcBindAddr = host, mcBindPort = port,
                                           mcSeeds = Peers config, mcRPCPort = GRPCPort config,
                                           mcHTTPPort = HTTPPort config\<rparr>
                                          (NewClusterState (NodeName config)) (NewRing (VirtualNodes config)) of
                                          Inl err \<Rightarrow> Inl (''cachegrid: failed to create cluster: '' @ err)
                                        | Inr m \<Rightarrow>
                                            Inr (c\<lparr>cRing := Some (mbRing m), cState := Some (mbState m)\<rparr>, Some m))))))"

definition NewMemory ::
    "'d pebble_api \<Rightarrow> string \<Rightarrow> string + 'd \<Rightarrow> string option \<Rightarrow> string + unit \<Rightarrow> instant \<Rightarrow>
     string + 'd cache \<times> membership option" where
  "NewMemory api hostname opened listenErr created t = New api hostname opened listenErr created t DefaultConfig"

definition NewDisk ::
    "'d pebble_api \<Rightarrow> string \<Rightarrow> string + 'd \<Rightarrow> string option \<Rightarrow> string + unit \<Rightarrow> instant \<Rightarrow> string \<Rightarrow>
     string + 'd cache \<times> membership option" where
  "NewDisk api hostname opened listenErr created t path =
     New api hostname opened listenErr created t (DefaultConfig\<lparr>storageMode := Disk, DiskPath := path\<rparr>)"

text \<open>\<open>OnNodeJoin\<close> and \<open>OnNodeUpdate\<close> do nothing; \<open>OnNodeLeave\<close> closes the pooled connection.\<close>

fun handle_event :: "handler_call \<Rightarrow> 'd cache \<Rightarrow> 'd cache" where
  "handle_event (OnNodeJoin node) c = c"
| "handle_event (OnNodeLeave node) c = CloseConnection (nRPCAddr node) c"
| "handle_event (OnNodeUpdate node) c = c"

text \<open>An event of the gossip library at a node.\<close>

fun ml_notify ::
    "(string \<Rightarrow> NodeMeta) \<Rightarrow> ml_event \<Rightarrow> membership \<Rightarrow> (membership \<times> handler_call list) option" where
  "ml_notify unmarshal (EvJoin t node) m = Some (NotifyJoin unmarshal t node m)"
| "ml_notify unmarshal (EvLeave t node) m = NotifyLeave unmarshal t node m"
| "ml_notify unmarshal (EvUpdate t node) m = Some (NotifyUpdate unmarshal t node m)"

definition gossip :: "(string \<Rightarrow> NodeMeta) \<Rightarrow> ml_event \<Rightarrow> membership \<times> 'd cache \<Rightarrow> (membership \<times> 'd cache) option" where
  "gossip unmarshal e mc =
     (case ml_notify unmarshal e (fst mc) of
        None \<Rightarrow> None
      | Some (m, calls) \<Rightarrow>
          Some (m, fold handle_event calls ((snd mc)\<lparr>cRing := Some (mbRing m), cState := Some (mbState m)\<rparr>)))"

section \<open>Tags\<close>

definition SetWithTags ::
    "('d, 'v, 'x, 'w) env \<Rightarrow> (nat \<Rightarrow> instant) \<Rightarrow> instant \<Rightarrow> fault \<Rightarrow> string \<Rightarrow> string \<Rightarrow> 'v gvalue \<Rightarrow> duration \<Rightarrow>
     string list \<Rightarrow> 'd world \<Rightarrow> 'd world \<times> cache_error option" where
  "SetWithTags env clk ts ft self key val ttl tags w =
     (case cache_Set env clk ts ft self key val ttl w of
        (w1, Some err) \<Rightarrow> (w1, Some err)
      | (w1, None) \<Rightarrow>
          (if tags \<noteq> [] then on_node self (\<lambda>c. c\<lparr>cTags := tag_Add key tags (cTags c)\<rparr>) w1 else w1, None))"

fun invalidate_loop ::
    "('d, 'v, 'x, 'w) env \<Rightarrow> (nat \<Rightarrow> nat \<Rightarrow> instant) \<Rightarrow> (nat \<Rightarrow> instant) \<Rightarrow> (nat \<Rightarrow> fault) \<Rightarrow> string \<Rightarrow> nat \<Rightarrow>
     string list \<Rightarrow> 'd world \<Rightarrow> 'd world" where
  "invalidate_loop env clk ts ft self i [] w = w"
| "invalidate_loop env clk ts ft self i (key # keys) w =
     invalidate_loop env clk ts ft self (Suc i) keys (cache_Delete env (clk i) (ts i) (ft i) self key w)"

definition InvalidateTag ::
    "('d, 'v, 'x, 'w) env \<Rightarrow> (nat \<Rightarrow> nat \<Rightarrow> instant) \<Rightarrow> (nat \<Rightarrow> instant) \<Rightarrow> (nat \<Rightarrow> fault) \<Rightarrow> string \<Rightarrow> string \<Rightarrow>
     'd world \<Rightarrow> 'd world" where
  "InvalidateTag env clk ts ft self tag w =
     invalidate_loop env clk ts ft self 0 (node_at self w (\<lambda>c. GetKeysByTag tag (cTags c)) []) w"

end
