(* ===== verification/Api.thy ===== *)
theory Api
  imports Cache
begin

text \<open>
  The rest of the public API: distributed locks (\<open>src/lock.go\<close>), namespaces (\<open>src/namespace.go\<close>), the
  rate limiters (\<open>src/ratelimit.go\<close>) and subscriptions (\<open>src/pubsub.go\<close>). The retry loop of \<open>Lock\<close> counts
  with an \<open>int\<close>; a loop that never returns is \<open>None\<close>. Between two attempts the other processes run:
  \<open>others i\<close> is what they do to the world after attempt \<open>i\<close>.
\<close>

section \<open>Locks\<close>

record LockOptions =
  loTTL :: duration
  loRetryCount :: int64
  loRetryDelay :: duration

record LockHandle =
  hCache :: string
  hKey :: string
  hToken :: string
  hFencing :: uint64
  hOwnerAddr :: string

definition handle_Release ::
    "('d, 'v, 'x, 'w) env \<Rightarrow> (nat \<Rightarrow> instant) \<Rightarrow> fault \<Rightarrow> LockHandle \<Rightarrow> 'd world \<Rightarrow> 'd world \<times> cache_error option" where
  "handle_Release env clk ft h w =
     (if hOwnerAddr h \<noteq> '''' then
        (case RemoteLockRelease env clk ft (hCache h) (hOwnerAddr h) (hKey h) (hToken h) w of
           (w1, Inl err) \<Rightarrow> (w1, Some (ErrRemote err))
         | (w1, Inr ok) \<Rightarrow> (w1, if ok then None else Some ErrLockNotHeld))
      else case gm_get w (hCache h) of
             None \<Rightarrow> (w, Some ErrShutdown)
           | Some c \<Rightarrow>
               (let (e, ok) = Release (hKey h) (hToken h) (cLocks c)
                in (gm_set (hCache h) (c\<lparr>cLocks := e\<rparr>) w, if ok then None else Some ErrLockNotHeld)))"

definition handle_Extend ::
    "('d, 'v, 'x, 'w) env \<Rightarrow> (nat \<Rightarrow> instant) \<Rightarrow> fault \<Rightarrow> duration \<Rightarrow> LockHandle \<Rightarrow> 'd world \<Rightarrow>
     'd world \<times> cache_error option" where
  "handle_Extend env clk ft ttl h w =
     (if hOwnerAddr h \<noteq> '''' then
        (case RemoteLockExtend env clk ft (hCache h) (hOwnerAddr h) (hKey h) (hToken h) ttl w of
           (w1, Inl err) \<Rightarrow> (w1, Some (ErrRemote err))
         | (w1, Inr ok) \<Rightarrow> (w1, if ok then None else Some ErrLockNotHeld))
      else case gm_get w (hCache h) of
             None \<Rightarrow> (w, Some ErrShutdown)
           | Some c \<Rightarrow>
               (let (e, ok) = Extend (clk 0) (clk 1) (hKey h) (hToken h) ttl (cLocks c)
                in (gm_set (hCache h) (c\<lparr>cLocks := e\<rparr>) w, if ok then None else Some ErrLockNotHeld)))"

definition handle_Token :: "LockHandle \<Rightarrow> uint64" where
  "handle_Token h = hFencing h"

text \<open>One iteration of the loop of \<open>Lock\<close>: \<open>None\<close> goes on to the next one.\<close>

definition lock_attempt ::
    "('d, 'v, 'x, 'w) env \<Rightarrow> (nat \<Rightarrow> instant) \<Rightarrow> bytes \<Rightarrow> fault \<Rightarrow> string \<Rightarrow> string \<Rightarrow> duration \<Rightarrow> 'd world \<Rightarrow>
     'd world \<times> (cache_error + LockHandle) option" where
  "lock_attempt env clk random ft self lockKey ttl w =
     (case gm_get w self of
        None \<Rightarrow> (w, Some (Inl ErrShutdown))
      | Some c \<Rightarrow>
          (let addr = ownerAddr lockKey c
           in if addr \<noteq> '''' then
                (case RemoteLockAcquire env clk random ft self addr lockKey ttl w of
                   (w1, Inl err) \<Rightarrow> (w1, Some (Inl (ErrRemote err)))
                 | (w1, Inr (Some (token, fencing))) \<Rightarrow>
                     (w1, Some (Inr \<lparr>hCache = self, hKey = lockKey, hToken = token, hFencing = fencing, hOwnerAddr = addr\<rparr>))
                 | (w1, Inr None) \<Rightarrow> (w1, None))
              else
                (case Acquire (clk 0) (clk 1) random lockKey ttl (lock_owner c) (cLocks c) of
                   (e, Some (token, fencing)) \<Rightarrow>
                     (gm_set self (c\<lparr>cLocks := e\<rparr>) w,
                      Some (Inr \<lparr>hCache = self, hKey = lockKey, hToken = token, hFencing = fencing, hOwnerAddr = ''''\<rparr>))
                 | (e, None) \<Rightarrow> (gm_set self (c\<lparr>cLocks := e\<rparr>) w, None))))"

partial_function (option) lock_loop ::
    "('d, 'v, 'x, 'w) env \<Rightarrow> (nat \<Rightarrow> nat \<Rightarrow> instant) \<Rightarrow> (nat \<Rightarrow> bytes) \<Rightarrow> (nat \<Rightarrow> fault) \<Rightarrow> (nat \<Rightarrow> 'd world \<Rightarrow> 'd world) \<Rightarrow>
     string \<Rightarrow> string \<Rightarrow> LockOptions \<Rightarrow> int64 \<Rightarrow> nat \<Rightarrow> 'd world \<Rightarrow> ('d world \<times> (cache_error + LockHandle)) option" where
  "lock_loop env clk random ft others self lockKey opts attempt i w =
     (if \<not> less64 (loRetryCount opts) attempt then
        (case lock_attempt env (clk i) (random i) (ft i) self lockKey (loTTL opts) w of
           (w1, Some r) \<Rightarrow> Some (w1, r)
         | (w1, None) \<Rightarrow> lock_loop env clk random ft others self lockKey opts (attempt + 1) (Suc i)
             (if less64 attempt (loRetryCount opts) then others i w1 else w1))
      else Some (w, Inl ErrLockNotAcquired))"

definition Lock ::
    "('d, 'v, 'x, 'w) env \<Rightarrow> (nat \<Rightarrow> nat \<Rightarrow> instant) \<Rightarrow> (nat \<Rightarrow> bytes) \<Rightarrow> (nat \<Rightarrow> fault) \<Rightarrow> (nat \<Rightarrow> 'd world \<Rightarrow> 'd world) \<Rightarrow>
     string \<Rightarrow> string \<Rightarrow> LockOptions \<Rightarrow> 'd world \<Rightarrow> ('d world \<times> (cache_error + LockHandle)) option" where
  "Lock env clk random ft others self key opts w =
     (if key = '''' then Some (w, Inl ErrKeyEmpty)
      else if is_closed self w then Some (w, Inl ErrShutdown)
      else lock_loop env clk random ft others self (''__lock:'' @ key) opts 0 0 w)"

definition TryLock ::
    "('d, 'v, 'x, 'w) env \<Rightarrow> (nat \<Rightarrow> nat \<Rightarrow> instant) \<Rightarrow> (nat \<Rightarrow> bytes) \<Rightarrow> (nat \<Rightarrow> fault) \<Rightarrow> (nat \<Rightarrow> 'd world \<Rightarrow> 'd world) \<Rightarrow>
     string \<Rightarrow> string \<Rightarrow> duration \<Rightarrow> 'd world \<Rightarrow> ('d world \<times> LockHandle option) option" where
  "TryLock env clk random ft others self key ttl w =
     (case Lock env clk random ft others self key \<lparr>loTTL = ttl, loRetryCount = 0, loRetryDelay = 0\<rparr> w of
        None \<Rightarrow> None
      | Some (w1, Inl err) \<Rightarrow> Some (w1, None)
      | Some (w1, Inr h) \<Rightarrow> Some (w1, Some h))"

section \<open>Namespaces\<close>

record NamespacedCache =
  ncCache :: string
  ncNamespace :: string

definition WithNamespace :: "string \<Rightarrow> string \<Rightarrow> NamespacedCache" where
  "WithNamespace self namespace = \<lparr>ncCache = self, ncNamespace = namespace\<rparr>"

definition prefixKey :: "NamespacedCache \<Rightarrow> string \<Rightarrow> string" where
  "prefixKey nc key = ncNamespace nc @ '':'' @ key"

definition prefixTag :: "NamespacedCache \<Rightarrow> string \<Rightarrow> string" where
  "prefixTag nc tag = ncNamespace nc @ '':'' @ tag"

definition nc_Set ::
    "('d, 'v, 'x, 'w) env \<Rightarrow> (nat \<Rightarrow> instant) \<Rightarrow> instant \<Rightarrow> fault \<Rightarrow> NamespacedCache \<Rightarrow> string \<Rightarrow> 'v gvalue \<Rightarrow> duration \<Rightarrow>
     'd world \<Rightarrow> 'd world \<times> cache_error option" where
  "nc_Set env clk ts ft nc key val ttl w = cache_Set env clk ts ft (ncCache nc) (prefixKey nc key) val ttl w"

definition nc_Get ::
    "('d, 'v, 'x, 'w) env \<Rightarrow> (nat \<Rightarrow> instant) \<Rightarrow> fault \<Rightarrow> NamespacedCache \<Rightarrow> string \<Rightarrow> 'x dest \<Rightarrow> 'd world \<Rightarrow>
     'd world \<times> 'v gvalue option" where
  "nc_Get env clk ft nc key dest w = cache_Get env clk ft (ncCache nc) (prefixKey nc key) dest w"

definition nc_Delete ::
    "('d, 'v, 'x, 'w) env \<Rightarrow> (nat \<Rightarrow> instant) \<Rightarrow> instant \<Rightarrow> fault \<Rightarrow> NamespacedCache \<Rightarrow> string \<Rightarrow> 'd world \<Rightarrow> 'd world" where
  "nc_Delete env clk ts ft nc key w = cache_Delete env clk ts ft (ncCache nc) (prefixKey nc key) w"

definition nc_Exists ::
    "('d, 'v, 'x, 'w) env \<Rightarrow> (nat \<Rightarrow> instant) \<Rightarrow> fault \<Rightarrow> NamespacedCache \<Rightarrow> string \<Rightarrow> 'd world \<Rightarrow> 'd world \<times> bool" where
  "nc_Exists env clk ft nc key w = cache_Exists env clk ft (ncCache nc) (prefixKey nc key) w"

definition nc_TTL ::
    "('d, 'v, 'x, 'w) env \<Rightarrow> (nat \<Rightarrow> instant) \<Rightarrow> NamespacedCache \<Rightarrow> string \<Rightarrow> 'd world \<Rightarrow> 'd world \<times> duration" where
  "nc_TTL env clk nc key w = cache_TTL env clk (ncCache nc) (prefixKey nc key) w"

definition nc_GetOrSet ::
    "('d, 'v, 'x, 'w) env \<Rightarrow> (nat \<Rightarrow> instant) \<Rightarrow> (nat \<Rightarrow> instant) \<Rightarrow> instant \<Rightarrow> fault \<Rightarrow> fault \<Rightarrow> NamespacedCache \<Rightarrow> string \<Rightarrow>
     'x dest \<Rightarrow> duration \<Rightarrow> string + 'v gvalue \<Rightarrow> 'd world \<Rightarrow> 'd world \<times> (cache_error + 'v gvalue)" where
  "nc_GetOrSet env clk1 clk2 ts ft1 ft2 nc key dest ttl fn w =
     cache_GetOrSet env clk1 clk2 ts ft1 ft2 (ncCache nc) (prefixKey nc key) dest ttl fn w"

definition nc_Incr ::
    "('d, 'v, 'x, 'w) env \<Rightarrow> (nat \<Rightarrow> instant) \<Rightarrow> fault \<Rightarrow> NamespacedCache \<Rightarrow> string \<Rightarrow> int64 \<Rightarrow> 'd world \<Rightarrow>
     'd world \<times> (cache_error + int64)" where
  "nc_Incr env clk ft nc key delta w = cache_Incr env clk ft (ncCache nc) (prefixKey nc key) delta w"

definition nc_Decr ::
    "('d, 'v, 'x, 'w) env \<Rightarrow> (nat \<Rightarrow> instant) \<Rightarrow> fault \<Rightarrow> NamespacedCache \<Rightarrow> string \<Rightarrow> int64 \<Rightarrow> 'd world \<Rightarrow>
     'd world \<times> (cache_error + int64)" where
  "nc_Decr env clk ft nc key delta w = cache_Decr env clk ft (ncCache nc) (prefixKey nc key) delta w"

definition nc_SetWithTags ::
    "('d, 'v, 'x, 'w) env \<Rightarrow> (nat \<Rightarrow> instant) \<Rightarrow> instant \<Rightarrow> fault \<Rightarrow> NamespacedCache \<Rightarrow> string \<Rightarrow> 'v gvalue \<Rightarrow> duration \<Rightarrow>
     string list \<Rightarrow> 'd world \<Rightarrow> 'd world \<times> cache_error option" where
  "nc_SetWithTags env clk ts ft nc key val ttl tags w =
     SetWithTags env clk ts ft (ncCache nc) (prefixKey nc key) val ttl (map (prefixTag nc) tags) w"

definition nc_InvalidateTag ::
    "('d, 'v, 'x, 'w) env \<Rightarrow> (nat \<Rightarrow> nat \<Rightarrow> instant) \<Rightarrow> (nat \<Rightarrow> instant) \<Rightarrow> (nat \<Rightarrow> fault) \<Rightarrow> NamespacedCache \<Rightarrow> string \<Rightarrow>
     'd world \<Rightarrow> 'd world" where
  "nc_InvalidateTag env clk ts ft nc tag w = InvalidateTag env clk ts ft (ncCache nc) (prefixTag nc tag) w"

section \<open>Rate limits\<close>

record RateLimitOptions =
  rlLimit :: int64
  rlWindow :: duration

record SlidingWindowOptions =
  slLimit :: int64
  slWindow :: duration

record RateLimitState =
  rsAllowed :: bool
  rsRemaining :: int64
  rsLimit :: int64
  rsResetsAt :: instant

definition stateFromInternal :: "rl_state \<Rightarrow> RateLimitState" where
  "stateFromInternal s = \<lparr>rsAllowed = Allowed s, rsRemaining = Remaining s, rsLimit = Limit s, rsResetsAt = ResetsAt s\<rparr>"

definition RateLimit ::
    "('d, 'v, 'x, 'w) env \<Rightarrow> instant \<Rightarrow> string \<Rightarrow> RateLimitOptions \<Rightarrow> 'd cache \<Rightarrow> 'd cache \<times> bool \<times> RateLimitState" where
  "RateLimit env t key opts c =
     (let (s, tb) = tb_Allow (eConv env) t key (rlLimit opts) (rlWindow opts) (cBuckets c);
          state = stateFromInternal s
      in (c\<lparr>cBuckets := tb\<rparr>, rsAllowed state, state))"

definition RateLimitSliding ::
    "('d, 'v, 'x, 'w) env \<Rightarrow> instant \<Rightarrow> string \<Rightarrow> SlidingWindowOptions \<Rightarrow> 'd cache \<Rightarrow> 'd cache \<times> bool \<times> RateLimitState" where
  "RateLimitSliding env t key opts c =
     (let (s, sw) = sw_Allow (eConv env) t key (slLimit opts) (slWindow opts) (cWindows c);
          state = stateFromInternal s
      in (c\<lparr>cWindows := sw\<rparr>, rsAllowed state, state))"

section \<open>Subscriptions and hooks\<close>

text \<open>The adapters of \<open>OnEvict\<close> and \<open>OnSet\<close> only change the static type of the value.\<close>

definition cache_Subscribe :: "string \<Rightarrow> 'd cache \<Rightarrow> 'd cache \<times> nat" where
  "cache_Subscribe pattern c = (let (r, b) = Subscribe pattern (cBroker c) in (c\<lparr>cBroker := b\<rparr>, r))"

definition subscription_Close :: "nat \<Rightarrow> 'd cache \<Rightarrow> 'd cache" where
  "subscription_Close r c =
     (case client_Close r (cBroker c) of None \<Rightarrow> c\<lparr>cPanicked := True\<rparr> | Some b \<Rightarrow> c\<lparr>cBroker := b\<rparr>)"

definition subscription_recv :: "nat \<Rightarrow> 'd cache \<Rightarrow> 'd cache \<times> Event received" where
  "subscription_recv r c = (let (got, b) = client_recv r (cBroker c) in (c\<lparr>cBroker := b\<rparr>, got))"

definition cache_OnHit :: "hook \<Rightarrow> 'd cache \<Rightarrow> 'd cache" where
  "cache_OnHit fn c = c\<lparr>cBroker := OnHit fn (cBroker c)\<rparr>"

definition cache_OnMiss :: "hook \<Rightarrow> 'd cache \<Rightarrow> 'd cache" where
  "cache_OnMiss fn c = c\<lparr>cBroker := OnMiss fn (cBroker c)\<rparr>"

definition cache_OnEvict :: "hook \<Rightarrow> 'd cache \<Rightarrow> 'd cache" where
  "cache_OnEvict fn c = c\<lparr>cBroker := OnEvict fn (cBroker c)\<rparr>"

definition cache_OnSet :: "hook \<Rightarrow> 'd cache \<Rightarrow> 'd cache" where
  "cache_OnSet fn c = c\<lparr>cBroker := OnSet fn (cBroker c)\<rparr>"

definition cache_OnDelete :: "hook \<Rightarrow> 'd cache \<Rightarrow> 'd cache" where
  "cache_OnDelete fn c = c\<lparr>cBroker := OnDelete fn (cBroker c)\<rparr>"

end
