(* ===== verification/Server.thy ===== *)
theory Server
  imports Api
begin

text \<open>
  The HTTP server: \<open>src/internal/server\<close>. A request is its method, the segments of its path, its headers and
  its body; a response its status, its headers and its body. Headers and JSON fields hold the value before
  it is formatted as text. What \<open>json.Decoder\<close> makes of a body and what \<open>time.ParseDuration\<close> makes of a
  string are arguments. A handler runs on the node \<open>self\<close> of a world.
\<close>

section \<open>Strings\<close>

text \<open>\<open>strings.TrimSpace\<close>: the UTF-8 encodings of the characters that \<open>unicode.IsSpace\<close> accepts.\<close>

definition space_codes :: "string list" where
  "space_codes =
     [[CHR 0x09], [CHR 0x0A], [CHR 0x0B], [CHR 0x0C], [CHR 0x0D], [CHR 0x20],
      [CHR 0xC2, CHR 0x85], [CHR 0xC2, CHR 0xA0], [CHR 0xE1, CHR 0x9A, CHR 0x80]] @
     map (\<lambda>b. [CHR 0xE2, CHR 0x80, b])
       [CHR 0x80, CHR 0x81, CHR 0x82, CHR 0x83, CHR 0x84, CHR 0x85, CHR 0x86, CHR 0x87, CHR 0x88, CHR 0x89,
        CHR 0x8A, CHR 0xA8, CHR 0xA9, CHR 0xAF] @
     [[CHR 0xE2, CHR 0x81, CHR 0x9F], [CHR 0xE3, CHR 0x80, CHR 0x80]]"

function trim_prefixes :: "string list \<Rightarrow> string \<Rightarrow> string" where
  "trim_prefixes ps s =
     (case find (\<lambda>p. p \<noteq> [] \<and> take (length p) s = p) ps of
        None \<Rightarrow> s
      | Some p \<Rightarrow> trim_prefixes ps (drop (length p) s))"
  by pat_completeness auto
termination
proof (relation "measure (\<lambda>(ps, s). length s)")
  fix ps s p
  assume "find (\<lambda>p. p \<noteq> [] \<and> take (length p) s = p) ps = Some p"
  then have "p \<noteq> []" "take (length p) s = p" by (auto simp: find_Some_iff)
  then show "((ps, drop (length p) s), ps, s) \<in> measure (\<lambda>(ps, s). length s)"
    by (cases s) auto
qed simp

definition TrimSpace :: "string \<Rightarrow> string" where
  "TrimSpace s = rev (trim_prefixes (map rev space_codes) (rev (trim_prefixes space_codes s)))"

text \<open>\<open>base64.StdEncoding.EncodeToString\<close>\<close>

definition base64_char :: "nat \<Rightarrow> char" where
  "base64_char d = ''ABCDEFGHIJKLMNOPQRSTUVWXYZabcdefghijklmnopqrstuvwxyz0123456789+/'' ! d"

fun base64 :: "bytes \<Rightarrow> string" where
  "base64 [] = []"
| "base64 [a] =
     [base64_char (unat a div 4), base64_char (unat a mod 4 * 16), CHR ''='', CHR ''='']"
| "base64 [a, b] =
     [base64_char (unat a div 4), base64_char (unat a mod 4 * 16 + unat b div 16),
      base64_char (unat b mod 16 * 4), CHR ''='']"
| "base64 (a # b # c # rest) =
     base64_char (unat a div 4) # base64_char (unat a mod 4 * 16 + unat b div 16) #
     base64_char (unat b mod 16 * 4 + unat c div 64) # base64_char (unat c mod 64) # base64 rest"

section \<open>Requests and responses\<close>

record http_request =
  hMethod :: string
  hPath :: "string list"
  hHeader :: "string \<Rightarrow> string"
  hBody :: bytes
  hReadFails :: bool
  hRemoteAddr :: string
  hURL :: string

datatype field = FStr string | FInt int | FDuration duration

datatype json =
    JBool bool
  | JNum int
  | JFloat float64
  | JStr string
  | JTime instant
  | JDuration duration
  | JList "json list"
  | JObj "(string \<times> json) list"

datatype body =
    NoBody
  | Raw bytes
  | Json json
  | Text string
  | Metrics "(string \<times> field) list"
  | Events "json list"

record http_response =
  sStatus :: nat
  sHeaders :: "(string, field) gomap"
  sBody :: body

definition only_status :: "nat \<Rightarrow> http_response" where
  "only_status st = \<lparr>sStatus = st, sHeaders = [], sBody = NoBody\<rparr>"

text \<open>Headers that are already set when a handler sets its own.\<close>

definition add_headers :: "(string, field) gomap \<Rightarrow> http_response \<Rightarrow> http_response" where
  "add_headers hs resp = resp\<lparr>sHeaders := fold (\<lambda>(k, v). gm_set k v) (sHeaders resp) hs\<rparr>"

definition writeJSON :: "nat \<Rightarrow> json \<Rightarrow> http_response" where
  "writeJSON st v = \<lparr>sStatus = st, sHeaders = [(''Content-Type'', FStr ''application/json'')], sBody = Json v\<rparr>"

definition writeError :: "nat \<Rightarrow> string \<Rightarrow> http_response" where
  "writeError st msg = writeJSON st (JObj [(''error'', JStr msg)])"

text \<open>\<open>http.Error\<close> of \<open>net/http\<close>: the headers it sets, and its text.\<close>

definition http_Error :: "nat \<Rightarrow> body \<Rightarrow> http_response" where
  "http_Error st text_body =
     \<lparr>sStatus = st,
      sHeaders = [(''Content-Type'', FStr ''text/plain; charset=utf-8''), (''X-Content-Type-Options'', FStr ''nosniff'')],
      sBody = text_body\<rparr>"

text \<open>The answers of \<open>http.ServeMux\<close> to a request that matches no pattern; the header \<open>Allow\<close> is left out.\<close>

definition not_found :: http_response where
  "not_found = http_Error 404 (Text ''404 page not found'')"

definition wrong_method :: http_response where
  "wrong_method = http_Error 405 (Text ''Method Not Allowed'')"

text \<open>\<open>err.Error()\<close> of the errors of \<open>src/errors.go\<close>.\<close>

fun error_text :: "cache_error \<Rightarrow> string" where
  "error_text ErrKeyEmpty = ''cachegrid: key must not be empty''"
| "error_text ErrShutdown = ''cachegrid: cache is shut down''"
| "error_text (ErrSerializationFailed err) = ''cachegrid: serialization failed: '' @ err"
| "error_text (ErrRemote err) = err"
| "error_text ErrLockNotAcquired = ''cachegrid: lock could not be acquired''"
| "error_text ErrLockNotHeld = ''cachegrid: lock not held or expired''"
| "error_text (ErrValue err) = err"

definition parseTTL :: "(string \<Rightarrow> duration option) \<Rightarrow> string \<Rightarrow> duration" where
  "parseTTL ParseDuration s =
     (if s = '''' then 0
      else case ParseDuration s of
             Some d \<Rightarrow> d
           | None \<Rightarrow> (let (sec, ok) = Atoi s in if ok then word_of_int sec * second else 0))"

definition parseTags :: "string \<Rightarrow> string list" where
  "parseTags s = (if s = '''' then [] else filter (\<lambda>p. p \<noteq> '''') (map TrimSpace (Split (CHR '','') s)))"

section \<open>Cache handlers\<close>

definition key_required :: http_response where
  "key_required = writeError 400 ''key is required''"

definition handleCacheGet ::
    "('d, 'v, 'x, 'w) env \<Rightarrow> (nat \<Rightarrow> instant) \<Rightarrow> (nat \<Rightarrow> instant) \<Rightarrow> fault \<Rightarrow> string \<Rightarrow> string \<Rightarrow> 'd world \<Rightarrow>
     'd world \<times> http_response" where
  "handleCacheGet env clk clk' ft self key w =
     (if key = '''' then (w, key_required)
      else case cache_Get env clk ft self key DestBytes w of
             (w1, Some val) \<Rightarrow>
               (let (w2, ttl) = cache_TTL env clk' self key w1
                in (w2, \<lparr>sStatus = 200,
                         sHeaders = (''Content-Type'', FStr ''application/octet-stream'') #
                           (if pos64 ttl then [(''X-TTL'', FDuration ttl)] else []),
                         sBody = (case val of GBytes raw \<Rightarrow> Raw raw | GVal v \<Rightarrow> NoBody)\<rparr>))
           | (w1, None) \<Rightarrow> (w1, writeError 404 ''key not found''))"

text \<open>The body is cut off after 10 MB (\<open>io.LimitReader\<close>).\<close>

definition handleCacheSet ::
    "('d, 'v, 'x, 'w) env \<Rightarrow> (string \<Rightarrow> duration option) \<Rightarrow> (nat \<Rightarrow> instant) \<Rightarrow> instant \<Rightarrow> fault \<Rightarrow> string \<Rightarrow> string \<Rightarrow>
     http_request \<Rightarrow> 'd world \<Rightarrow> 'd world \<times> http_response" where
  "handleCacheSet env ParseDuration clk ts ft self key r w =
     (if key = '''' then (w, key_required)
      else if hReadFails r then (w, writeError 400 ''failed to read body'')
      else
        (let body = take (10 * 2 ^ 20) (hBody r);
             ttl = parseTTL ParseDuration (hHeader r ''X-TTL'');
             tags = parseTags (hHeader r ''X-Tags'');
             (w1, res) = (if tags \<noteq> [] then SetWithTags env clk ts ft self key (GBytes body) ttl tags w
                          else cache_Set env clk ts ft self key (GBytes body) ttl w)
         in (w1, case res of Some err \<Rightarrow> writeError 500 (error_text err) | None \<Rightarrow> only_status 204)))"

definition handleCacheDelete ::
    "('d, 'v, 'x, 'w) env \<Rightarrow> (nat \<Rightarrow> instant) \<Rightarrow> instant \<Rightarrow> fault \<Rightarrow> string \<Rightarrow> string \<Rightarrow> 'd world \<Rightarrow>
     'd world \<times> http_response" where
  "handleCacheDelete env clk ts ft self key w =
     (if key = '''' then (w, key_required)
      else (cache_Delete env clk ts ft self key w, only_status 204))"

definition handleCacheExists ::
    "('d, 'v, 'x, 'w) env \<Rightarrow> (nat \<Rightarrow> instant) \<Rightarrow> fault \<Rightarrow> string \<Rightarrow> string \<Rightarrow> 'd world \<Rightarrow> 'd world \<times> http_response" where
  "handleCacheExists env clk ft self key w =
     (if key = '''' then (w, only_status 400)
      else (let (w1, ok) = cache_Exists env clk ft self key w in (w1, only_status (if ok then 200 else 404))))"

text \<open>\<open>keys\<close> is the decoded body.\<close>

definition handleCacheMGet ::
    "('d, 'v, 'x, 'w) env \<Rightarrow> (nat \<Rightarrow> nat \<Rightarrow> instant) \<Rightarrow> (nat \<Rightarrow> fault) \<Rightarrow> string \<Rightarrow> string list option \<Rightarrow> 'd world \<Rightarrow>
     'd world \<times> http_response" where
  "handleCacheMGet env clk ft self keys w =
     (case keys of
        None \<Rightarrow> (w, writeError 400 ''invalid JSON body'')
      | Some ks \<Rightarrow>
          (let (w1, results) = cache_MGet env clk ft self ks w
           in (w1, writeJSON 200 (JObj (map (\<lambda>(k, v). (k, JStr (base64 v))) results)))))"

section \<open>Lock handlers\<close>

record lock_body =
  lbTTL :: string
  lbRetryCount :: int64
  lbRetryDelay :: string

text \<open>\<open>ParseDuration\<close> answers 0 with its error; the handlers then use 30 seconds.\<close>

definition lock_ttl :: "(string \<Rightarrow> duration option) \<Rightarrow> string \<Rightarrow> duration" where
  "lock_ttl ParseDuration s =
     (let ttl = (case ParseDuration s of Some d \<Rightarrow> d | None \<Rightarrow> 0) in if \<not> pos64 ttl then 30 * second else ttl)"

definition handleLockAcquire ::
    "('d, 'v, 'x, 'w) env \<Rightarrow> (string \<Rightarrow> duration option) \<Rightarrow> (nat \<Rightarrow> nat \<Rightarrow> instant) \<Rightarrow> (nat \<Rightarrow> bytes) \<Rightarrow> (nat \<Rightarrow> fault) \<Rightarrow>
     (nat \<Rightarrow> 'd world \<Rightarrow> 'd world) \<Rightarrow> string \<Rightarrow> string \<Rightarrow> lock_body option \<Rightarrow> 'd world \<Rightarrow>
     ('d world \<times> http_response) option" where
  "handleLockAcquire env ParseDuration clk random ft others self key req w =
     (if key = '''' then Some (w, key_required)
      else case req of
             None \<Rightarrow> Some (w, writeError 400 ''invalid JSON body'')
           | Some b \<Rightarrow>
               (case Lock env clk random ft others self key
                  \<lparr>loTTL = lock_ttl ParseDuration (lbTTL b), loRetryCount = lbRetryCount b,
                   loRetryDelay = (case ParseDuration (lbRetryDelay b) of Some d \<Rightarrow> d | None \<Rightarrow> 0)\<rparr> w of
                  None \<Rightarrow> None
                | Some (w1, Inl err) \<Rightarrow>
                    Some (w1, if err = ErrLockNotAcquired
                              then writeJSON 409 (JObj [(''acquired'', JBool False), (''error'', JStr (error_text err))])
                              else writeError 500 (error_text err))
                | Some (w1, Inr h) \<Rightarrow>
                    Some (w1, writeJSON 200 (JObj [(''acquired'', JBool True),
                      (''token'', JNum (uint (handle_Token h))), (''fencing_token'', JNum (uint (handle_Token h)))]))))"

definition handleLockRelease :: "string \<Rightarrow> http_request \<Rightarrow> 'd cache \<Rightarrow> 'd cache \<times> http_response" where
  "handleLockRelease key r c =
     (if key = '''' then (c, key_required)
      else let token = hHeader r ''X-Lock-Token''
           in if token = '''' then (c, writeError 400 ''X-Lock-Token header is required'')
              else (let (e, released) = Release (''__lock:'' @ key) token (cLocks c); c' = c\<lparr>cLocks := e\<rparr>
                    in if \<not> released
                       then (c', writeJSON 409 (JObj [(''released'', JBool False), (''error'', JStr ''lock not held or expired'')]))
                       else (c', writeJSON 200 (JObj [(''released'', JBool True)]))))"

text \<open>\<open>ttl\<close> is the decoded body.\<close>

definition handleLockExtend ::
    "(string \<Rightarrow> duration option) \<Rightarrow> (nat \<Rightarrow> instant) \<Rightarrow> string \<Rightarrow> http_request \<Rightarrow> string option \<Rightarrow> 'd cache \<Rightarrow>
     'd cache \<times> http_response" where
  "handleLockExtend ParseDuration clk key r ttl c =
     (if key = '''' then (c, key_required)
      else let token = hHeader r ''X-Lock-Token''
           in if token = '''' then (c, writeError 400 ''X-Lock-Token header is required'')
              else case ttl of
                     None \<Rightarrow> (c, writeError 400 ''invalid JSON body'')
                   | Some s \<Rightarrow>
                       (let (e, extended) =
                              Extend (clk 0) (clk 1) (''__lock:'' @ key) token (lock_ttl ParseDuration s) (cLocks c);
                            c' = c\<lparr>cLocks := e\<rparr>
                        in if \<not> extended
                           then (c', writeJSON 409 (JObj [(''extended'', JBool False), (''error'', JStr ''lock not held or expired'')]))
                           else (c', writeJSON 200 (JObj [(''extended'', JBool True)]))))"

section \<open>Rate limit, cluster and health handlers\<close>

record limit_body =
  rbLimit :: int64
  rbWindow :: string
  rbAlgorithm :: string

text \<open>\<open>time.Minute\<close> and \<open>Time.Unix\<close>.\<close>

definition minute :: duration where
  "minute = 60 * second"

definition unix :: "instant \<Rightarrow> int" where
  "unix t = t div 1000000000"

definition limit_headers :: "RateLimitState \<Rightarrow> (string, field) gomap" where
  "limit_headers state =
     [(''X-RateLimit-Limit'', FInt (sint (rsLimit state))),
      (''X-RateLimit-Remaining'', FInt (sint (rsRemaining state))),
      (''X-RateLimit-Reset'', FInt (unix (rsResetsAt state)))]"

definition handleRateLimit ::
    "('d, 'v, 'x, 'w) env \<Rightarrow> (string \<Rightarrow> duration option) \<Rightarrow> instant \<Rightarrow> string \<Rightarrow> limit_body option \<Rightarrow> 'd cache \<Rightarrow>
     'd cache \<times> http_response" where
  "handleRateLimit env ParseDuration t key req c =
     (if key = '''' then (c, key_required)
      else case req of
             None \<Rightarrow> (c, writeError 400 ''invalid JSON body'')
           | Some b \<Rightarrow>
               if \<not> pos64 (rbLimit b) then (c, writeError 400 ''limit must be > 0'')
               else
                 (let win0 = (case ParseDuration (rbWindow b) of Some d \<Rightarrow> d | None \<Rightarrow> 0);
                      win = (if \<not> pos64 win0 then minute else win0);
                      (c', allowed, state) =
                        (if rbAlgorithm b = ''sliding_window''
                         then RateLimitSliding env t key \<lparr>slLimit = rbLimit b, slWindow = win\<rparr> c
                         else RateLimit env t key \<lparr>rlLimit = rbLimit b, rlWindow = win\<rparr> c);
                      resp = writeJSON (if allowed then 200 else 429)
                        (JObj [(''allowed'', JBool allowed), (''remaining'', JNum (sint (rsRemaining state))),
                               (''limit'', JNum (sint (rsLimit state))), (''resets_at'', JNum (unix (rsResetsAt state)))])
                  in (c', add_headers (limit_headers state) resp)))"

definition node_json :: "NodeInfo \<Rightarrow> json" where
  "node_json n =
     JObj [(''name'', JStr (nName n)), (''addr'', JStr (nAddr n)), (''rpc_addr'', JStr (nRPCAddr n)),
           (''http_addr'', JStr (nHTTPAddr n)), (''status'', JStr (status_String (nStatus n))),
           (''joined_at'', JTime (nJoinedAt n))]"

definition handleClusterNodes :: "'d cache \<Rightarrow> http_response" where
  "handleClusterNodes c =
     (case cState c of
        None \<Rightarrow> writeJSON 200 (JObj [(''mode'', JStr ''local''), (''nodes'', JList [])])
      | Some cs \<Rightarrow>
          writeJSON 200 (JObj [(''self'', JStr (SelfName cs)), (''node_count'', JNum (int (NodeCount cs))),
            (''nodes'', JList (map node_json (AllNodes cs)))]))"

definition handleHealth :: "instant \<Rightarrow> instant \<Rightarrow> 'd cache \<Rightarrow> http_response" where
  "handleHealth startTime t c =
     writeJSON 200 (JObj
       ([(''status'', JStr ''ok''), (''uptime'', JDuration (time_sub t startTime)), (''keys'', JNum (sint (st_Len (cStore c))))] @
        (case cState c of None \<Rightarrow> [] | Some cs \<Rightarrow> [(''cluster_nodes'', JNum (int (NodeCount cs)))])))"

text \<open>\<open>handleMetrics\<close>; the numbers of the Go runtime are arguments.\<close>

definition handleMetrics :: "instant \<Rightarrow> instant \<Rightarrow> int \<Rightarrow> int \<Rightarrow> int \<Rightarrow> 'd cache \<Rightarrow> http_response" where
  "handleMetrics startTime t goroutines alloc sys c =
     \<lparr>sStatus = 200, sHeaders = [(''Content-Type'', FStr ''text/plain; version=0.0.4; charset=utf-8'')],
      sBody = Metrics
        ([(''cachegrid_keys_total'', FInt (sint (st_Len (cStore c)))),
          (''cachegrid_uptime_seconds'', FDuration (time_sub t startTime)),
          (''cachegrid_go_goroutines'', FInt goroutines),
          (''cachegrid_go_memstats_alloc_bytes'', FInt alloc),
          (''cachegrid_go_memstats_sys_bytes'', FInt sys)] @
         (case cState c of None \<Rightarrow> [] | Some cs \<Rightarrow> [(''cachegrid_cluster_nodes'', FInt (int (NodeCount cs)))]))\<rparr>"

section \<open>Server-sent events\<close>

text \<open>
  The loop of \<open>handleSubscribeSSE\<close>: each \<open>select\<close> sees that the client has gone or receives from the
  subscription. The deferred \<open>Close\<close> runs at the end; \<open>None\<close> is a stream that has not ended yet.
\<close>

datatype sse_choice = CtxDone | Receive

fun sse_loop :: "sse_choice list \<Rightarrow> nat \<Rightarrow> json list \<Rightarrow> 'd cache \<Rightarrow> ('d cache \<times> json list) option" where
  "sse_loop [] sub sent c = None"
| "sse_loop (CtxDone # sched) sub sent c = Some (subscription_Close sub c, sent)"
| "sse_loop (Receive # sched) sub sent c =
     (case subscription_recv sub c of
        (c', Got evt) \<Rightarrow>
          sse_loop sched sub (sent @ [JObj [(''type'', JStr (evType evt)), (''key'', JStr (evKey evt))]]) c'
      | (c', Drained) \<Rightarrow> Some (subscription_Close sub c', sent)
      | (c', Empty) \<Rightarrow> sse_loop sched sub sent c')"

definition handleSubscribeSSE :: "sse_choice list \<Rightarrow> bool \<Rightarrow> string \<Rightarrow> 'd cache \<Rightarrow> ('d cache \<times> http_response) option" where
  "handleSubscribeSSE sched flusher pattern0 c =
     (let pattern = (if pattern0 = '''' then ''*'' else pattern0)
      in if \<not> flusher then Some (c, writeError 500 ''streaming not supported'')
         else
           (let (c1, sub) = cache_Subscribe pattern c
            in case sse_loop sched sub [] c1 of
                 None \<Rightarrow> None
               | Some (c2, sent) \<Rightarrow>
                   Some (c2, \<lparr>sStatus = 200,
                     sHeaders = [(''Content-Type'', FStr ''text/event-stream''), (''Cache-Control'', FStr ''no-cache''),
                                 (''Connection'', FStr ''keep-alive'')],
                     sBody = Events sent\<rparr>)))"

section \<open>Routes and middleware\<close>

datatype route =
    CacheGet string
  | CacheSet string
  | CacheDelete string
  | CacheExists string
  | CacheMGet
  | LockAcquire string
  | LockRelease string
  | LockExtend string
  | RateLimitOf string
  | SubscribeTo string
  | ClusterNodes
  | Health
  | MetricsPage
  | Redirect
  | NotFound
  | MethodNotAllowed

text \<open>
  \<open>registerRoutes\<close> with the rules of \<open>http.ServeMux\<close>: a wildcard matches one non-empty segment, \<open>GET\<close>
  covers \<open>HEAD\<close> where \<open>HEAD\<close> has no pattern of its own, and a path that matches with another method only
  is refused with 405.
\<close>

definition by_method :: "string \<Rightarrow> (string \<times> route) list \<Rightarrow> route" where
  "by_method m table =
     (case map_of table m of
        Some rt \<Rightarrow> rt
      | None \<Rightarrow>
          (case (if m = ''HEAD'' then map_of table ''GET'' else None) of
             Some rt \<Rightarrow> rt
           | None \<Rightarrow> MethodNotAllowed))"

definition cache_routes :: "string \<Rightarrow> (string \<times> route) list" where
  "cache_routes key =
     [(''GET'', CacheGet key), (''PUT'', CacheSet key), (''DELETE'', CacheDelete key), (''HEAD'', CacheExists key)] @
     (if key = ''_mget'' then [(''POST'', CacheMGet)] else [])"

fun join_path :: "string list \<Rightarrow> string" where
  "join_path [] = ''''"
| "join_path [s] = s"
| "join_path (s # rest) = s @ ''/'' @ join_path rest"

definition registerRoutes :: "string \<Rightarrow> string list \<Rightarrow> route" where
  "registerRoutes m path =
     (case path of
        [] \<Rightarrow> NotFound
      | [a] \<Rightarrow>
          if a = ''health'' then by_method m [(''GET'', Health)]
          else if a = ''metrics'' then by_method m [(''GET'', MetricsPage)]
          else if a = ''subscribe'' then Redirect
          else NotFound
      | a # b # rest \<Rightarrow>
          if a = ''subscribe'' then by_method m [(''GET'', SubscribeTo (join_path (b # rest)))]
          else if rest \<noteq> [] \<or> b = '''' then NotFound
          else if a = ''cache'' then by_method m (cache_routes b)
          else if a = ''locks'' then
            by_method m [(''POST'', LockAcquire b), (''DELETE'', LockRelease b), (''PUT'', LockExtend b)]
          else if a = ''ratelimit'' then by_method m [(''POST'', RateLimitOf b)]
          else if a = ''cluster'' \<and> b = ''nodes'' then by_method m [(''GET'', ClusterNodes)]
          else NotFound)"

text \<open>Everything outside the server that one request meets: clocks, faults, decoders, the runtime.\<close>

record 'd http_env =
  xClk :: "nat \<Rightarrow> nat \<Rightarrow> instant"
  xTs :: instant
  xFault :: "nat \<Rightarrow> fault"
  xRandom :: "nat \<Rightarrow> bytes"
  xOthers :: "nat \<Rightarrow> 'd world \<Rightarrow> 'd world"
  xParse :: "string \<Rightarrow> duration option"
  xKeys :: "bytes \<Rightarrow> string list option"
  xLock :: "bytes \<Rightarrow> lock_body option"
  xTTL :: "bytes \<Rightarrow> string option"
  xLimit :: "bytes \<Rightarrow> limit_body option"
  xStart :: instant
  xRuntime :: "int \<times> int \<times> int"
  xSched :: "sse_choice list"

text \<open>A handler that only touches the node itself.\<close>

definition local_handler ::
    "string \<Rightarrow> ('d cache \<Rightarrow> ('d cache \<times> http_response) option) \<Rightarrow> 'd world \<Rightarrow> ('d world \<times> http_response) option" where
  "local_handler self f w =
     (case gm_get w self of
        None \<Rightarrow> None
      | Some c \<Rightarrow> map_option (\<lambda>(c', resp). (gm_set self c' w, resp)) (f c))"

definition mux_ServeHTTP ::
    "('d, 'v, 'x, 'w) env \<Rightarrow> 'd http_env \<Rightarrow> string \<Rightarrow> bool \<Rightarrow> http_request \<Rightarrow> 'd world \<Rightarrow> ('d world \<times> http_response) option" where
  "mux_ServeHTTP env x self flusher r w =
     (case registerRoutes (hMethod r) (hPath r) of
        CacheGet key \<Rightarrow> Some (handleCacheGet env (xClk x 0) (xClk x 1) (xFault x 0) self key w)
      | CacheSet key \<Rightarrow> Some (handleCacheSet env (xParse x) (xClk x 0) (xTs x) (xFault x 0) self key r w)
      | CacheDelete key \<Rightarrow> Some (handleCacheDelete env (xClk x 0) (xTs x) (xFault x 0) self key w)
      | CacheExists key \<Rightarrow> Some (handleCacheExists env (xClk x 0) (xFault x 0) self key w)
      | CacheMGet \<Rightarrow> Some (handleCacheMGet env (xClk x) (xFault x) self (xKeys x (hBody r)) w)
      | LockAcquire key \<Rightarrow>
          handleLockAcquire env (xParse x) (xClk x) (xRandom x) (xFault x) (xOthers x) self key (xLock x (hBody r)) w
      | LockRelease key \<Rightarrow> local_handler self (\<lambda>c. Some (handleLockRelease key r c)) w
      | LockExtend key \<Rightarrow>
          local_handler self (\<lambda>c. Some (handleLockExtend (xParse x) (xClk x 0) key r (xTTL x (hBody r)) c)) w
      | RateLimitOf key \<Rightarrow>
          local_handler self (\<lambda>c. Some (handleRateLimit env (xParse x) (xClk x 0 0) key (xLimit x (hBody r)) c)) w
      | SubscribeTo pattern \<Rightarrow> local_handler self (handleSubscribeSSE (xSched x) flusher pattern) w
      | ClusterNodes \<Rightarrow> local_handler self (\<lambda>c. Some (c, handleClusterNodes c)) w
      | Health \<Rightarrow> local_handler self (\<lambda>c. Some (c, handleHealth (xStart x) (xClk x 0 0) c)) w
      | MetricsPage \<Rightarrow>
          local_handler self
            (\<lambda>c. let (g, a, s) = xRuntime x in Some (c, handleMetrics (xStart x) (xClk x 0 0) g a s c)) w
      | Redirect \<Rightarrow> Some (w, \<lparr>sStatus = 301, sHeaders = [(''Location'', FStr ''/subscribe/'')], sBody = NoBody\<rparr>)
      | NotFound \<Rightarrow> Some (w, not_found)
      | MethodNotAllowed \<Rightarrow> Some (w, wrong_method))"

text \<open>
  The middleware takes a handler, which gets the writer (represented by whether it is an \<open>http.Flusher\<close>),
  the request and the world. The wrapper \<open>statusWriter\<close> of \<open>loggingMiddleware\<close> embeds the interface
  \<open>http.ResponseWriter\<close> and declares only \<open>WriteHeader\<close>, so it has no method \<open>Flush\<close>.
\<close>

type_synonym 'd http_handler = "bool \<Rightarrow> http_request \<Rightarrow> 'd world \<Rightarrow> ('d world \<times> http_response) option"

definition loggingMiddleware :: "'d http_handler \<Rightarrow> 'd http_handler" where
  "loggingMiddleware next_h flusher r w = next_h False r w"

definition cors_headers :: "(string, field) gomap" where
  "cors_headers =
     [(''Access-Control-Allow-Origin'', FStr ''*''),
      (''Access-Control-Allow-Methods'', FStr ''GET, POST, PUT, DELETE, HEAD, OPTIONS''),
      (''Access-Control-Allow-Headers'', FStr ''Content-Type, Authorization'')]"

definition corsMiddleware :: "'d http_handler \<Rightarrow> 'd http_handler" where
  "corsMiddleware next_h flusher r w =
     (if hMethod r = ''OPTIONS'' then Some (w, \<lparr>sStatus = 204, sHeaders = cors_headers, sBody = NoBody\<rparr>)
      else map_option (\<lambda>(w', resp). (w', add_headers cors_headers resp)) (next_h flusher r w))"

text \<open>A panic of the handler shows in the flag of the node.\<close>

definition recoveryMiddleware :: "string \<Rightarrow> 'd http_handler \<Rightarrow> 'd http_handler" where
  "recoveryMiddleware self next_h flusher r w =
     (case next_h flusher r w of
        None \<Rightarrow> None
      | Some (w', resp) \<Rightarrow>
          if node_at self w' cPanicked False
          then Some (on_node self (\<lambda>c. c\<lparr>cPanicked := False\<rparr>) w', writeError 500 ''internal server error'')
          else Some (w', resp))"

definition withMiddleware :: "string \<Rightarrow> 'd http_handler \<Rightarrow> 'd http_handler" where
  "withMiddleware self next_h = recoveryMiddleware self (corsMiddleware (loggingMiddleware next_h))"

text \<open>The handler of \<open>server.New\<close>; the writer of \<open>net/http\<close> is a flusher.\<close>

definition server_ServeHTTP ::
    "('d, 'v, 'x, 'w) env \<Rightarrow> 'd http_env \<Rightarrow> string \<Rightarrow> http_request \<Rightarrow> 'd world \<Rightarrow> ('d world \<times> http_response) option" where
  "server_ServeHTTP env x self = withMiddleware self (mux_ServeHTTP env x self) True"

end
