(* ===== verification/Middleware.thy ===== *)
theory Middleware
  imports Server
begin

text \<open>
  The HTTP middleware of \<open>src/middleware.go\<close>: rate limiting by client address and caching of responses. The
  wrapped handler belongs to the user of the library and is an argument, with a state \<open>'s\<close> of its own; so are
  the headers \<open>outer\<close> that outer middleware has set on the writer before. SHA-256 in hexadecimal is an argument.
\<close>

section \<open>Definitions\<close>

type_synonym ('s, 'd) app_handler =
  "bool \<Rightarrow> http_request \<Rightarrow> 's \<Rightarrow> 'd world \<Rightarrow> ('s \<times> 'd world \<times> http_response) option"

text \<open>\<open>strings.SplitN(s, ",", 2)[0]\<close> and the first result of \<open>strings.Cut(s, ":")\<close> are the part before the
  first separator.\<close>

definition until_char :: "char \<Rightarrow> string \<Rightarrow> string" where
  "until_char c s = takeWhile (\<lambda>x. x \<noteq> c) s"

definition clientIP :: "http_request \<Rightarrow> string" where
  "clientIP r =
     (let forwarded = hHeader r ''X-Forwarded-For'';
          realIP = hHeader r ''X-Real-IP''
      in if forwarded \<noteq> '''' then TrimSpace (until_char (CHR '','') forwarded)
         else if realIP \<noteq> '''' then realIP
         else until_char (CHR '':'') (hRemoteAddr r))"

definition hashRequest :: "(string \<Rightarrow> string) \<Rightarrow> http_request \<Rightarrow> string" where
  "hashRequest sha256_hex r = take 16 (sha256_hex (hMethod r @ hURL r))"

definition HTTPRateLimit ::
    "('d, 'v, 'x, 'w) env \<Rightarrow> instant \<Rightarrow> string \<Rightarrow> int64 \<Rightarrow> duration \<Rightarrow>
     ('s, 'd) app_handler \<Rightarrow> ('s, 'd) app_handler" where
  "HTTPRateLimit env t self limit win next_h flusher r st w =
     (case gm_get w self of
        None \<Rightarrow> None
      | Some c \<Rightarrow>
          (let key = ''ratelimit:'' @ clientIP r;
               (c', allowed, state) = RateLimit env t key \<lparr>rlLimit = limit, rlWindow = win\<rparr> c;
               w1 = gm_set self c' w
           in if \<not> allowed
              then Some (st, w1, add_headers (limit_headers state) (http_Error 429 (Text ''rate limit exceeded'')))
              else map_option (\<lambda>(st2, w2, resp). (st2, w2, add_headers (limit_headers state) resp))
                     (next_h flusher r st w1)))"

record cachedResponse =
  crStatusCode :: nat
  crBody :: body
  crHeaders :: "(string, field) gomap"

text \<open>
  \<open>HTTPCache\<close>. The recorder passes the response of the inner handler on to the client as it is written; the
  header \<open>X-Cache: MISS\<close> is set after that and is not sent. The recorder is no \<open>http.Flusher\<close>.
\<close>

definition HTTPCache ::
    "('d, cachedResponse, unit, 'w) env \<Rightarrow> (string \<Rightarrow> string) \<Rightarrow> (nat \<Rightarrow> nat \<Rightarrow> instant) \<Rightarrow> instant \<Rightarrow> (nat \<Rightarrow> fault) \<Rightarrow>
     string \<Rightarrow> duration \<Rightarrow> (string, field) gomap \<Rightarrow> ('s, 'd) app_handler \<Rightarrow> ('s, 'd) app_handler" where
  "HTTPCache env sha256_hex clk ts ft self ttl outer next_h flusher r st w =
     (if hMethod r \<noteq> ''GET'' then next_h flusher r st w
      else
        (let cacheKey = ''httpcache:'' @ hashRequest sha256_hex r
         in case cache_Get env (clk 0) (ft 0) self cacheKey (DestVal ()) w of
              (w1, Some (GVal cached)) \<Rightarrow>
                Some (st, w1, \<lparr>sStatus = crStatusCode cached, sHeaders = gm_set ''X-Cache'' (FStr ''HIT'') (crHeaders cached),
                               sBody = crBody cached\<rparr>)
            | (w1, _) \<Rightarrow>
                (case next_h False r st w1 of
                   None \<Rightarrow> None
                 | Some (st2, w2, resp) \<Rightarrow>
                     if 200 \<le> sStatus resp \<and> sStatus resp < 400
                     then Some (st2, fst (cache_Set env (clk 1) ts (ft 1) self cacheKey
                                  (GVal \<lparr>crStatusCode = sStatus resp, crBody = sBody resp,
                                         crHeaders = sHeaders (add_headers outer resp)\<rparr>) ttl w2), resp)
                     else Some (st2, w2, resp))))"

end
