(* ===== verification/Fleet.thy ===== *)
theory Fleet
  imports Cache
begin

text \<open>
  A world of nodes seen through its stores. \<open>stores\<close> maps the address of every node to its store and
  \<open>roles\<close> to what routing and admission depend on: configuration, ring, membership table and the flags that
  \<open>Shutdown\<close> sets. The lemmas below give the
  effect of every remote call and of every distributed operation on the two views, whatever the network
  does: a request is either not processed, and nothing changes, or processed once by the owner, and then the
  caller may still not hear of it.
\<close>

section \<open>Definitions\<close>

definition stores :: "'d world \<Rightarrow> string \<rightharpoonup> 'd any_store" where
  "stores w a = map_option cStore (gm_get w a)"

type_synonym node_role = "Config \<times> ring option \<times> cluster_state option \<times> bool \<times> bool"

definition role :: "'d cache \<Rightarrow> node_role" where
  "role c = (cConfig c, cRing c, cState c, cClosed c, cStopped c)"

definition roles :: "'d world \<Rightarrow> string \<rightharpoonup> node_role" where
  "roles w a = map_option role (gm_get w a)"

text \<open>
  Partitioned routing: every node sends the requests for a key to the address \<open>own key\<close>, except the node at
  that address, which keeps the key itself.
\<close>

definition routed :: "(string \<Rightarrow> string) \<Rightarrow> 'd world \<Rightarrow> bool" where
  "routed own w \<longleftrightarrow> (\<forall>k. own k \<noteq> '''') \<and>
     (\<forall>a c. gm_get w a = Some c \<longrightarrow>
        mode (cConfig c) = Partitioned \<and> (\<forall>k. ownerAddr k c = (if a = own k then '''' else own k)))"

section \<open>The two views under updates\<close>

lemma stores_set [simp]: "stores (gm_set a c w) = (stores w)(a \<mapsto> cStore c)"
  by (simp add: stores_def fun_eq_iff)

lemma roles_set [simp]: "roles (gm_set a c w) = (roles w)(a \<mapsto> role c)"
  by (simp add: roles_def fun_eq_iff)

lemma views_at:
  "gm_get w a = Some c \<Longrightarrow> stores w a = Some (cStore c)"
  "gm_get w a = Some c \<Longrightarrow> roles w a = Some (role c)"
  by (simp_all add: stores_def roles_def)

lemma same_node:
  "gm_get w a = Some c \<Longrightarrow> (stores w)(a \<mapsto> cStore c) = stores w"
  "gm_get w a = Some c \<Longrightarrow> (roles w)(a \<mapsto> role c) = roles w"
  by (simp_all add: fun_upd_idem views_at)

lemma stores_on_node: "(\<And>c. cStore (f c) = cStore c) \<Longrightarrow> stores (on_node a f w) = stores w"
  by (auto simp: on_node_def stores_def fun_eq_iff split: option.splits)

lemma roles_on_node: "(\<And>c. role (f c) = role c) \<Longrightarrow> roles (on_node a f w) = roles w"
  by (auto simp: on_node_def roles_def fun_eq_iff split: option.splits)

lemma ownerAddr_role: "role c' = role c \<Longrightarrow> ownerAddr k c' = ownerAddr k c"
  by (simp add: ownerAddr_def role_def cong: option.case_cong)

lemma routed_roles:
  assumes "routed own w" "roles w' = roles w" shows "routed own w'"
proof -
  have "mode (cConfig c') = Partitioned \<and> (\<forall>k. ownerAddr k c' = (if a = own k then '''' else own k))"
    if g: "gm_get w' a = Some c'" for a c'
  proof -
    have "roles w a = Some (role c')" using assms(2) views_at(2) [OF g] by simp
    then obtain c where c: "gm_get w a = Some c" "role c = role c'" by (auto simp: roles_def)
    then have "mode (cConfig c) = Partitioned" "ownerAddr k c = (if a = own k then '''' else own k)" for k
      using assms(1) unfolding routed_def by blast+
    then show ?thesis using ownerAddr_role [OF c(2)] c(2) by (simp add: role_def)
  qed
  then show ?thesis using assms(1) unfolding routed_def by blast
qed

lemma routedD:
  assumes "routed own w" "gm_get w a = Some c"
  shows "mode (cConfig c) = Partitioned" "ownerAddr k c = (if a = own k then '''' else own k)" "own k \<noteq> ''''"
  using assms unfolding routed_def by blast+

section \<open>Steps of one node\<close>

lemma role_node_ops [simp]:
  "role (node_Set env t k b d c) = role c"
  "role (fst (node_Get env t k c)) = role c"
  "role (fst (node_Delete env k c)) = role c"
  "role (fst (node_Exists env clk k c)) = role c"
  "role (fst (node_TTL env clk k c)) = role c"
  "role (fst (node_Incr env clk k n c)) = role c"
  by (simp_all add: role_def node_Set_def node_Get_def node_Delete_def node_Exists_def node_TTL_def node_Incr_def
      split: prod.split)

lemma store_node_ops [simp]:
  "cStore (node_Set env t k b d c) = fst (st_Set (eApi env) t k b d (cStore c))"
  "cStore (fst (node_Get env t k c)) = fst (st_Get (eApi env) t k (cStore c))"
  "snd (node_Get env t k c) = snd (st_Get (eApi env) t k (cStore c))"
  "cStore (fst (node_Delete env k c)) = fst (st_Delete (eApi env) k (cStore c))"
  "cStore (fst (node_Exists env clk k c)) = fst (st_Exists (eApi env) (clk 0) (clk 1) k (cStore c))"
  "snd (node_Exists env clk k c) = snd (st_Exists (eApi env) (clk 0) (clk 1) k (cStore c))"
  "cStore (fst (node_TTL env clk k c)) = fst (st_TTL (eApi env) (clk 0) (clk 1) k (cStore c))"
  by (simp_all add: node_Set_def node_Get_def node_Delete_def node_Exists_def node_TTL_def split: prod.split)

lemma views_side_effects [simp]:
  "role (do_publish t ty k v c) = role c" "cStore (do_publish t ty k v c) = cStore c"
  "role (fire f c) = role c" "cStore (fire f c) = cStore c"
  "role (closeConn a c) = role c" "cStore (closeConn a c) = cStore c"
  "role (c\<lparr>cTags := ti\<rparr>) = role c" "role (c\<lparr>cConns := cs\<rparr>) = role c" "role (c\<lparr>cLocks := e\<rparr>) = role c"
  "role (c\<lparr>cEvicted := ev\<rparr>) = role c" "role (c\<lparr>cStore := s\<rparr>) = role c" "role (c\<lparr>cSpawned := sp\<rparr>) = role c"
  by (simp_all add: role_def do_publish_def fire_def closeConn_def split: option.split)

lemma views_on_evict [simp]: "role (on_evict t kv c) = role c" "cStore (on_evict t kv c) = cStore c"
  by (simp_all add: on_evict_def Let_def split: prod.split)

lemma views_on_expire [simp]: "role (on_expire t kv c) = role c" "cStore (on_expire t kv c) = cStore c"
  by (simp_all add: on_expire_def Let_def split: prod.split)

lemma views_expire_loop [simp]: "role (expire_loop clk i kvs c) = role c" "cStore (expire_loop clk i kvs c) = cStore c"
  by (induction kvs arbitrary: i c) simp_all

lemma views_sweeper [simp]:
  "role (sweeper_tick env clk ts c) = role c"
  "cStore (sweeper_tick env clk ts c) = fst (st_DeleteExpired (eApi env) clk (cStore c))"
  by (simp_all add: sweeper_tick_def split: prod.split)

lemma views_run_evicted [simp]: "role (run_evicted t i c) = role c" "cStore (run_evicted t i c) = cStore c"
  by (simp_all add: run_evicted_def)

lemma role_HandleMGet_loop [simp]: "role (fst (HandleMGet_loop env clk i ks m c)) = role c"
proof (induction ks arbitrary: i m c)
  case (Cons k ks)
  obtain c1 r where g: "node_Get env (clk i) k c = (c1, r)" by (cases "node_Get env (clk i) k c")
  then have "role c1 = role c" using role_node_ops(2) [of env "clk i" k c] by simp
  then show ?case using Cons.IH g by simp
qed simp

lemma role_handlers [simp]:
  "role (HandleSet env t k v d tags c) = role c"
  "role (fst (HandleDelete env k c)) = role c"
  "role (fst (HandleLockAcquire clk random k d c)) = role c"
  "role (fst (HandleLockRelease k tok c)) = role c"
  "role (fst (HandleLockExtend clk k tok d c)) = role c"
  by (simp_all add: HandleSet_def HandleDelete_def HandleLockAcquire_def HandleLockRelease_def HandleLockExtend_def
      Let_def case_prod_unfold)

lemma role_processRequest [simp]: "role (fst (processRequest env clk random req c)) = role c"
  by (simp add: processRequest_def HandleGet_def HandleExists_def HandleMGet_def HandleIncr_def Let_def case_prod_unfold
      if_distrib [of fst] if_distrib [of role])

section \<open>Remote calls\<close>

text \<open>
  A call, whatever happens to it, through any view of the nodes that does not depend on the connection pool:
  either nothing changes and the call fails, or the node at the address has processed the request, and an
  answer is its answer.
\<close>

definition views :: "('d cache \<Rightarrow> 'a) \<Rightarrow> 'd world \<Rightarrow> string \<rightharpoonup> 'a" where
  "views V w a = map_option V (gm_get w a)"

definition answers ::
    "('d, 'v, 'x, 'w) env \<Rightarrow> (nat \<Rightarrow> instant) \<Rightarrow> bytes \<Rightarrow> request \<Rightarrow> 'd cache \<Rightarrow> string + response \<Rightarrow> bool" where
  "answers env clk random req c r \<longleftrightarrow> (\<forall>resp. r = Inr resp \<longrightarrow> resp = snd (processRequest env clk random req c))"

lemma views_set [simp]: "views V (gm_set a c w) = (views V w)(a \<mapsto> V c)"
  by (simp add: views_def fun_eq_iff)

lemma views_get: "gm_get w a = Some c \<Longrightarrow> views V w a = Some (V c)"
  by (simp add: views_def)

lemma views_same: "gm_get w a = Some c \<Longrightarrow> (views V w)(a \<mapsto> V c) = views V w"
  by (simp add: fun_upd_idem views_get)

lemma views_on_node: "(\<And>c. V (f c) = V c) \<Longrightarrow> views V (on_node a f w) = views V w"
  by (auto simp: on_node_def views_def fun_eq_iff split: option.splits)

lemma getConn_view:
  assumes "\<And>c cs. V (c\<lparr>cConns := cs\<rparr>) = V c" "getConn ft addr w c = Some c1" shows "V c1 = V c"
  using assms by (auto simp: getConn_def split: if_splits option.splits)

lemma views_pooled [simp]: "role (pooled a c) = role c" "cStore (pooled a c) = cStore c"
  by (simp_all add: pooled_def role_def)

lemma call_view:
  fixes w :: "'d world" and V :: "'d cache \<Rightarrow> 'a"
  assumes V: "\<And>c cs. V (c\<lparr>cConns := cs\<rparr>) = V c" and ok: "codec_ok (eCodec env)" and ne: "self \<noteq> addr"
    and e: "call env clk random ft self addr req w = (w', r)"
  shows "views V w' = views V w \<and> (\<exists>err. r = Inl err) \<or>
    (\<exists>p. gm_get w addr = Some p \<and> views V w' = (views V w)(addr \<mapsto> V (fst (processRequest env clk random req p))) \<and>
       answers env clk random req p r)"
proof (cases "\<exists>c c1. gm_get w self = Some c \<and> getConn ft addr w c = Some c1")
  case False
  then have "w' = w \<and> (\<exists>err. r = Inl err)"
    using e by (auto simp: call_def split: option.splits)
  then show ?thesis by simp
next
  case True
  then obtain c c1 where c: "gm_get w self = Some c" and c1: "getConn ft addr w c = Some c1" by blast
  define w1 where "w1 = gm_set self c1 w"
  have v1: "views V w1 = views V w"
    using getConn_view [OF V c1] views_same [OF c, of V] by (simp add: w1_def)
  obtain m where m: "enc_request (eCodec env) req = Inr m" "dec_request (eCodec env) m = Inr req"
    using ok unfolding codec_ok_def by blast
  define wf where "wf v = on_node self (closeConn addr) v" for v :: "'d world"
  have vf: "views V (wf v) = views V v" for v
    by (simp add: wf_def views_on_node closeConn_def V)
  show ?thesis
  proof (cases "ft = WriteFails \<or> gm_get w addr = None")
    case True
    then have "serve env clk random addr m w1 = (w1, None)" if "ft \<noteq> WriteFails"
      using ne that by (simp add: serve_def w1_def)
    then have "w' = wf w1 \<and> (\<exists>err. r = Inl err)"
      using e c c1 m by (cases "ft = WriteFails") (auto simp: call_def Let_def w1_def [symmetric] wf_def)
    then show ?thesis using v1 vf by simp
  next
    case False
    then obtain p where p: "gm_get w addr = Some p" and ft: "ft \<noteq> WriteFails" by auto
    obtain p' resp where pr: "processRequest env clk random req p = (p', resp)"
      by (cases "processRequest env clk random req p")
    obtain m' where m': "enc_response (eCodec env) resp = Inr m'" "dec_response (eCodec env) m' = Inr resp"
      using ok unfolding codec_ok_def by blast
    define w2 where "w2 = gm_set addr p' w1"
    have s: "serve env clk random addr m w1 = (w2, Some m')"
      using p ne m pr m' by (simp add: serve_def w1_def w2_def)
    have v2: "views V w2 = (views V w)(addr \<mapsto> V p')" by (simp add: w2_def v1)
    have "(w' = w2 \<or> w' = wf w2) \<and> (\<forall>q. r = Inr q \<longrightarrow> q = resp)"
      using e c c1 m s m' ft
      by (cases "ft = ReplyLost") (auto simp: call_def Let_def w1_def [symmetric] wf_def split: if_splits)
    then show ?thesis using v2 vf p pr by (auto simp: answers_def)
  qed
qed

text \<open>The same for stores and roles; no request changes a role.\<close>

definition processed ::
    "('d, 'v, 'x, 'w) env \<Rightarrow> (nat \<Rightarrow> instant) \<Rightarrow> bytes \<Rightarrow> string \<Rightarrow> request \<Rightarrow> 'd world \<Rightarrow> 'd world \<Rightarrow> string + response \<Rightarrow> bool"
  where
  "processed env clk random addr req w w' r \<longleftrightarrow>
     (\<exists>c. gm_get w addr = Some c \<and>
        stores w' = (stores w)(addr \<mapsto> cStore (fst (processRequest env clk random req c))) \<and>
        (\<forall>resp. r = Inr resp \<longrightarrow> resp = snd (processRequest env clk random req c)))"

lemma stores_views: "stores w = map_option fst \<circ> views (\<lambda>c. (cStore c, role c)) w"
  "roles w = map_option snd \<circ> views (\<lambda>c. (cStore c, role c)) w"
  by (simp_all add: stores_def roles_def views_def fun_eq_iff option.map_comp comp_def)

lemma call_effect:
  assumes ok: "codec_ok (eCodec env)" and ne: "self \<noteq> addr"
    and e: "call env clk random ft self addr req w = (w', r)"
  shows "roles w' = roles w \<and>
    (stores w' = stores w \<and> (\<exists>err. r = Inl err) \<or> processed env clk random addr req w w' r)"
proof -
  let ?V = "\<lambda>c. (cStore c, role c)"
  consider "views ?V w' = views ?V w" "\<exists>err. r = Inl err"
    | p where "gm_get w addr = Some p" "views ?V w' = (views ?V w)(addr \<mapsto> ?V (fst (processRequest env clk random req p)))"
        "answers env clk random req p r"
    using call_view [OF _ ok ne e, of ?V] by auto
  then show ?thesis
  proof cases
    case 1
    then show ?thesis by (simp add: stores_views)
  next
    case (2 p)
    have "roles w' = roles w" "stores w' = (stores w)(addr \<mapsto> cStore (fst (processRequest env clk random req p)))"
      using 2(2) views_at(2) [OF 2(1)] by (auto simp: stores_views fun_eq_iff)
    then show ?thesis using 2(1,3) by (auto simp: processed_def answers_def)
  qed
qed

text \<open>A call without faults to a node that listens is always answered.\<close>

lemma call_answered:
  assumes ok: "codec_ok (eCodec env)" and ne: "self \<noteq> addr" and self: "gm_get w self \<noteq> None"
    and p: "gm_get w addr = Some p" "\<not> cStopped p"
    and err: "pError (snd (processRequest env clk random req p)) = ''''"
  shows "\<exists>w'. call env clk random NoFault self addr req w = (w', Inr (snd (processRequest env clk random req p)))"
proof -
  obtain c where c: "gm_get w self = Some c" using self by blast
  obtain p' resp where pr: "processRequest env clk random req p = (p', resp)"
    by (cases "processRequest env clk random req p")
  show ?thesis using call_ok [OF ok c p ne pr] err pr by simp
qed

section \<open>Requests at the owner\<close>

lemmas op_codes = opGet_def opSet_def opDelete_def opExists_def opMGet_def opIncr_def opLockAcquire_def
  opLockRelease_def opLockExtend_def

lemma process_set:
  "processRequest env clk random (set_request k v d tags) c =
     (HandleSet env (clk 0) k v d tags c, zero_response\<lparr>pOK := True\<rparr>)"
  by (simp add: processRequest_def set_request_def zero_request_def op_codes)

lemma process_get:
  "fst (processRequest env clk random (zero_request\<lparr>rOp := opGet, rKey := k\<rparr>) c) = fst (node_Get env (clk 0) k c)"
  "snd (processRequest env clk random (zero_request\<lparr>rOp := opGet, rKey := k\<rparr>) c) =
     (case snd (node_Get env (clk 0) k c) of
        Some v \<Rightarrow> zero_response\<lparr>pValue := v, pFound := True\<rparr> | None \<Rightarrow> zero_response)"
  by (simp_all add: processRequest_def HandleGet_def zero_request_def Let_def case_prod_unfold)

lemma process_delete:
  "cStore (fst (processRequest env clk random (delete_request k) c)) = fst (st_Delete (eApi env) k (cStore c))"
  "pError (snd (processRequest env clk random (delete_request k) c)) = ''''"
  by (simp_all add: processRequest_def HandleDelete_def delete_request_def zero_request_def zero_response_def op_codes
      Let_def case_prod_unfold)

lemma process_exists:
  "fst (processRequest env clk random (zero_request\<lparr>rOp := opExists, rKey := k\<rparr>) c) = fst (node_Exists env clk k c)"
  "snd (processRequest env clk random (zero_request\<lparr>rOp := opExists, rKey := k\<rparr>) c) =
     zero_response\<lparr>pOK := snd (node_Exists env clk k c)\<rparr>"
  by (simp_all add: processRequest_def HandleExists_def zero_request_def op_codes Let_def case_prod_unfold)

lemma process_incr:
  "fst (processRequest env clk random (zero_request\<lparr>rOp := opIncr, rKey := k, rDelta := n\<rparr>) c) =
     fst (node_Incr env clk k n c)"
  "snd (processRequest env clk random (zero_request\<lparr>rOp := opIncr, rKey := k, rDelta := n\<rparr>) c) =
     (case snd (node_Incr env clk k n c) of
        Inl err \<Rightarrow> zero_response\<lparr>pError := err\<rparr> | Inr m \<Rightarrow> zero_response\<lparr>pIntVal := m\<rparr>)"
  by (simp_all add: processRequest_def HandleIncr_def zero_request_def op_codes Let_def case_prod_unfold)

lemma zero_response_simps [simp]:
  "pError zero_response = ''''" "pFound zero_response = False" "pOK zero_response = False"
  by (simp_all add: zero_response_def)

lemma store_HandleSet [simp]:
  "cStore (HandleSet env t k v d tags c) = fst (st_Set (eApi env) t k v d (cStore c))"
  by (simp add: HandleSet_def Let_def)

section \<open>Distributed operations\<close>

text \<open>The stores after an operation that the owner of a key has performed.\<close>

definition at_owner ::
    "(string \<Rightarrow> string) \<Rightarrow> string \<Rightarrow> ('d any_store \<Rightarrow> 'd any_store) \<Rightarrow> (string \<rightharpoonup> 'd any_store) \<Rightarrow> (string \<rightharpoonup> 'd any_store) \<Rightarrow>
     bool" where
  "at_owner own k f ss ss' \<longleftrightarrow> (\<exists>s. ss (own k) = Some s \<and> ss' = ss(own k \<mapsto> f s))"

lemma processed_at_owner:
  assumes "processed env clk random (own k) req w w' r"
    and "\<And>c. cStore (fst (processRequest env clk random req c)) = f (cStore c)"
  shows "at_owner own k f (stores w) (stores w')"
  using assms by (auto simp: processed_def at_owner_def views_at)

lemma distributedSet_effect:
  assumes r: "routed own w" and ok: "codec_ok (eCodec env)" and c: "gm_get w self = Some c"
    and e: "distributedSet env clk ft self k b d tags w = (w', res)"
  shows "roles w' = roles w \<and>
    (stores w' = stores w \<and> res \<noteq> None \<or> at_owner own k (\<lambda>s. fst (st_Set (eApi env) (clk 0) k b d s)) (stores w) (stores w'))"
proof (cases "self = own k")
  case True
  then have w': "w' = gm_set self (node_Set env (clk 0) k b d c) w"
    using e c routedD [OF r c] by (simp add: distributedSet_def)
  then show ?thesis
    using True c same_node(2) [OF c] by (simp add: at_owner_def views_at)
next
  case False
  then have "RemoteSet env clk ft self (own k) k b d tags w = (w', res)"
    using e c routedD [OF r c] by (simp add: distributedSet_def)
  then obtain q where q: "call env clk [] ft self (own k) (set_request k b d tags) w = (w', q)"
    and res: "res = (case q of Inl err \<Rightarrow> Some err | Inr resp \<Rightarrow> None)"
    by (auto simp: RemoteSet_def split: prod.splits sum.splits)
  show ?thesis
    using call_effect [OF ok False q] res
      processed_at_owner [of env clk "[]" own k "set_request k b d tags" w w' q
        "\<lambda>s. fst (st_Set (eApi env) (clk 0) k b d s)"]
    by (auto simp: process_set)
qed

lemma distributedGet_effect:
  assumes r: "routed own w" and ok: "codec_ok (eCodec env)" and c: "gm_get w self = Some c"
    and e: "distributedGet env clk ft self k w = (w', res)"
  shows "roles w' = roles w \<and>
    (stores w' = stores w \<or> at_owner own k (\<lambda>s. fst (st_Get (eApi env) (clk 0) k s)) (stores w) (stores w')) \<and>
    (\<forall>v. res = Some v \<longrightarrow> (\<exists>s. stores w (own k) = Some s \<and> snd (st_Get (eApi env) (clk 0) k s) = Some v))"
proof (cases "self = own k")
  case True
  then have w': "w' = gm_set self (fst (node_Get env (clk 0) k c)) w" "res = snd (node_Get env (clk 0) k c)"
    using e c routedD [OF r c] by (auto simp: distributedGet_def Let_def case_prod_unfold)
  then show ?thesis
    using True c same_node(2) [OF c] by (simp add: at_owner_def views_at)
next
  case False
  let ?req = "zero_request\<lparr>rOp := opGet, rKey := k\<rparr>"
  have g: "(case RemoteGet env clk ft self (own k) k w of (w1, Inl err) \<Rightarrow> (w1, None) | (w1, Inr x) \<Rightarrow> (w1, x)) = (w', res)"
    using False e c routedD [OF r c] by (simp add: distributedGet_def)
  obtain q where q: "call env clk [] ft self (own k) ?req w = (w', q)"
    and res: "res = (case q of Inl err \<Rightarrow> None | Inr p \<Rightarrow> if pFound p then Some (pValue p) else None)"
    using g by (auto simp: RemoteGet_def split: prod.splits sum.splits)
  have eff: "roles w' = roles w" "stores w' = stores w \<and> (\<exists>err. q = Inl err) \<or> processed env clk [] (own k) ?req w w' q"
    using call_effect [OF ok False q] by blast+
  have "stores w' = stores w \<or> at_owner own k (\<lambda>s. fst (st_Get (eApi env) (clk 0) k s)) (stores w) (stores w')"
    using eff(2) processed_at_owner [of env clk "[]" own k ?req w w' q "\<lambda>s. fst (st_Get (eApi env) (clk 0) k s)"]
    by (auto simp: process_get)
  moreover have "\<exists>s. stores w (own k) = Some s \<and> snd (st_Get (eApi env) (clk 0) k s) = Some v" if "res = Some v" for v
  proof -
    obtain p where p: "q = Inr p" "pFound p" "pValue p = v" using \<open>res = Some v\<close> res by (auto split: sum.splits if_splits)
    then obtain c' where c': "gm_get w (own k) = Some c'" "p = snd (processRequest env clk [] ?req c')"
      using eff(2) by (auto simp: processed_def)
    then show ?thesis using p by (auto simp: process_get views_at split: option.splits)
  qed
  ultimately show ?thesis using eff(1) by blast
qed

lemma distributedDelete_effect:
  assumes r: "routed own w" and ok: "codec_ok (eCodec env)" and c: "gm_get w self = Some c"
  shows "roles (distributedDelete env clk ft self k w) = roles w \<and>
    (stores (distributedDelete env clk ft self k w) = stores w \<or>
     at_owner own k (\<lambda>s. fst (st_Delete (eApi env) k s)) (stores w) (stores (distributedDelete env clk ft self k w)))"
proof (cases "self = own k")
  case True
  then have w': "distributedDelete env clk ft self k w = gm_set self (fst (node_Delete env k c)) w"
    using c routedD [OF r c] by (simp add: distributedDelete_def)
  then show ?thesis
    using True c same_node(2) [OF c] by (simp add: at_owner_def views_at)
next
  case False
  obtain w' q where q: "call env clk [] ft self (own k) (delete_request k) w = (w', q)"
    by (cases "call env clk [] ft self (own k) (delete_request k) w")
  then have w': "distributedDelete env clk ft self k w = w'"
    using False c routedD [OF r c] by (simp add: distributedDelete_def RemoteDelete_def split: sum.splits)
  show ?thesis
    using call_effect [OF ok False q]
      processed_at_owner [of env clk "[]" own k "delete_request k" w w' q "\<lambda>s. fst (st_Delete (eApi env) k s)"]
    by (auto simp: process_delete w')
qed

section \<open>Operations of the cache\<close>

lemma not_closed: "\<not> is_closed self w \<Longrightarrow> \<exists>c. gm_get w self = Some c \<and> \<not> cClosed c"
  by (auto simp: is_closed_def split: option.splits)

lemma views_fire_publish:
  "stores (on_node self (\<lambda>c. fire f (do_publish t ty k v c)) w) = stores w"
  "roles (on_node self (\<lambda>c. fire f (do_publish t ty k v c)) w) = roles w"
  "stores (on_node self (fire f) w) = stores w"
  "roles (on_node self (fire f) w) = roles w"
  by (simp_all add: stores_on_node roles_on_node)

text \<open>The lifetime that \<open>Set\<close> gives an entry: the default one where the caller passes none.\<close>

definition set_ttl :: "string \<Rightarrow> duration \<Rightarrow> 'd world \<Rightarrow> duration" where
  "set_ttl self ttl w = (if ttl = 0 then node_at self w (\<lambda>c. DefaultTTL (cConfig c)) 0 else ttl)"

lemma cache_Set_effect:
  assumes r: "routed own w" and ok: "codec_ok (eCodec env)"
    and e: "cache_Set env clk ts ft self k v d w = (w', res)"
  shows "roles w' = roles w \<and>
    (stores w' = stores w \<and> res \<noteq> None \<or>
     (\<exists>b. Serialize (marshal_any (eMsgpack env)) v = Inr b \<and>
       at_owner own k (\<lambda>s. fst (st_Set (eApi env) (clk 0) k b (set_ttl self d w) s)) (stores w) (stores w')))"
proof (cases "k = '''' \<or> is_closed self w \<or> (\<exists>err. Serialize (marshal_any (eMsgpack env)) v = Inl err)")
  case True
  then have "w' = w" "res \<noteq> None"
    using e by (auto simp: cache_Set_def split: if_splits sum.splits prod.splits option.splits)
  then show ?thesis by simp
next
  case False
  then obtain c where c: "gm_get w self = Some c" using not_closed by blast
  obtain b where b: "Serialize (marshal_any (eMsgpack env)) v = Inr b"
    using False by (cases "Serialize (marshal_any (eMsgpack env)) v") auto
  obtain w1 x where d: "distributedSet env clk ft self k b (set_ttl self d w) [] w = (w1, x)"
    by (cases "distributedSet env clk ft self k b (set_ttl self d w) [] w")
  have "stores w' = stores w1" "roles w' = roles w1" "res = None \<longleftrightarrow> x = None"
    using e False b d by (auto simp: cache_Set_def set_ttl_def [symmetric] Let_def views_fire_publish split: option.splits)
  with distributedSet_effect [OF r ok c d] b show ?thesis by auto
qed

lemma cache_Get_effect:
  assumes r: "routed own w" and ok: "codec_ok (eCodec env)"
    and e: "cache_Get env clk ft self k dest w = (w', res)"
  shows "roles w' = roles w \<and>
    (stores w' = stores w \<or> at_owner own k (\<lambda>s. fst (st_Get (eApi env) (clk 0) k s)) (stores w) (stores w')) \<and>
    (\<forall>v. res = Some v \<longrightarrow> (\<exists>s b. stores w (own k) = Some s \<and> snd (st_Get (eApi env) (clk 0) k s) = Some b \<and>
       Deserialize (unmarshal_any (eMsgpack env)) b dest = Inr v))"
proof (cases "k = '''' \<or> is_closed self w")
  case True
  then have "w' = w" "res = None" using e by (auto simp: cache_Get_def)
  then show ?thesis by simp
next
  case False
  then obtain c where c: "gm_get w self = Some c" using not_closed by blast
  obtain w1 x where d: "distributedGet env clk ft self k w = (w1, x)"
    by (cases "distributedGet env clk ft self k w")
  note eff = distributedGet_effect [OF r ok c d]
  have v: "stores w' = stores w1" "roles w' = roles w1"
    using e False d by (auto simp: cache_Get_def views_fire_publish split: option.splits sum.splits)
  have "\<exists>b. x = Some b \<and> Deserialize (unmarshal_any (eMsgpack env)) b dest = Inr v" if "res = Some v" for v
    using e False d \<open>res = Some v\<close> by (auto simp: cache_Get_def split: option.splits sum.splits)
  with eff v show ?thesis by auto
qed

lemma cache_Delete_effect:
  assumes r: "routed own w" and ok: "codec_ok (eCodec env)"
  shows "roles (cache_Delete env clk ts ft self k w) = roles w \<and>
    (stores (cache_Delete env clk ts ft self k w) = stores w \<or>
     at_owner own k (\<lambda>s. fst (st_Delete (eApi env) k s)) (stores w) (stores (cache_Delete env clk ts ft self k w)))"
proof (cases "k = '''' \<or> is_closed self w")
  case True
  then show ?thesis by (auto simp: cache_Delete_def)
next
  case False
  then obtain c where c: "gm_get w self = Some c" using not_closed by blast
  have "stores (cache_Delete env clk ts ft self k w) = stores (distributedDelete env clk ft self k w)"
    "roles (cache_Delete env clk ts ft self k w) = roles (distributedDelete env clk ft self k w)"
    using False by (simp_all add: cache_Delete_def Let_def stores_on_node roles_on_node)
  then show ?thesis using distributedDelete_effect [OF r ok c] by simp
qed

lemma cache_Exists_effect:
  assumes r: "routed own w" and ok: "codec_ok (eCodec env)"
  shows "roles (fst (cache_Exists env clk ft self k w)) = roles w \<and>
    (stores (fst (cache_Exists env clk ft self k w)) = stores w \<or>
     at_owner own k (\<lambda>s. fst (st_Exists (eApi env) (clk 0) (clk 1) k s)) (stores w)
       (stores (fst (cache_Exists env clk ft self k w))))"
proof (cases "k = '''' \<or> is_closed self w")
  case True
  then show ?thesis by (auto simp: cache_Exists_def is_closed_def split: option.splits)
next
  case False
  then obtain c where c: "gm_get w self = Some c" "\<not> cClosed c" using not_closed by blast
  show ?thesis
  proof (cases "self = own k")
    case True
    then have "fst (cache_Exists env clk ft self k w) = gm_set self (fst (node_Exists env clk k c)) w"
      using False c routedD [OF r c(1)] by (simp add: cache_Exists_def Let_def case_prod_unfold)
    then show ?thesis using True c same_node(2) [OF c(1)] by (simp add: at_owner_def views_at)
  next
    case ne: False
    let ?req = "zero_request\<lparr>rOp := opExists, rKey := k\<rparr>"
    obtain w' q where q: "call env clk [] ft self (own k) ?req w = (w', q)"
      by (cases "call env clk [] ft self (own k) ?req w")
    then have w': "fst (cache_Exists env clk ft self k w) = w'"
      using False ne c routedD [OF r c(1)] by (simp add: cache_Exists_def RemoteExists_def split: sum.splits)
    show ?thesis
      using call_effect [OF ok ne q]
        processed_at_owner [of env clk "[]" own k ?req w w' q "\<lambda>s. fst (st_Exists (eApi env) (clk 0) (clk 1) k s)"]
      by (auto simp: process_exists w')
  qed
qed

text \<open>\<open>Incr\<close>: the default lifetime is that of the owner.\<close>

definition owner_incr ::
    "('d, 'v, 'x, 'w) env \<Rightarrow> (nat \<Rightarrow> instant) \<Rightarrow> string \<Rightarrow> int64 \<Rightarrow> duration \<Rightarrow> 'd any_store \<Rightarrow>
     'd any_store \<times> callback list \<times> (string + int64)" where
  "owner_incr env clk k n d s = st_Incr (eApi env) (eMsgpack env) (clk 0) (clk 1) (clk 2) k n d s"

lemma node_Incr_views:
  "cStore (fst (node_Incr env clk k n c)) = fst (owner_incr env clk k n (DefaultTTL (cConfig c)) (cStore c))"
  "snd (node_Incr env clk k n c) = snd (snd (owner_incr env clk k n (DefaultTTL (cConfig c)) (cStore c)))"
  by (simp_all add: node_Incr_def owner_incr_def Let_def case_prod_unfold)

text \<open>Every error of the counter codec has a text; an empty text would read as success on the wire.\<close>

definition named_errors :: "('a) msgpack_scheme \<Rightarrow> bool" where
  "named_errors mp \<longleftrightarrow> (\<forall>n. marshal_int64 mp n \<noteq> Inl '''') \<and> (\<forall>b. unmarshal_int64 mp b \<noteq> Inl '''')"

lemma owner_incr_named:
  assumes "named_errors (eMsgpack env)" "st_inv (eApi env) s"
  shows "snd (snd (owner_incr env clk k n d s)) \<noteq> Inl ''''"
proof (cases s)
  case (MemStore m)
  then show ?thesis
    using assms(1)
    by (auto simp: owner_incr_def st_Incr_def ms_Incr_def on_shard_def shard_Incr_def incr_store_def named_errors_def Let_def
        split: option.splits sum.splits prod.splits)
next
  case (DiskStore p)
  then have ok: "pebble_ok (eApi env)" using assms(2) by (simp add: st_inv_def)
  have "snd (ps_incr_store (eApi env) (eMsgpack env) t key m ttl q) \<noteq> Inl ''''" for t key m ttl q
    using assms(1) by (auto simp: incr_store_result [OF ok] named_errors_def split: sum.split)
  then show ?thesis
    using DiskStore assms(1)
    by (auto simp: owner_incr_def st_Incr_def ps_Incr_def named_errors_def Let_def case_prod_unfold
        split: option.split sum.split)
qed

lemma cache_Incr_effect:
  assumes r: "routed own w" and ok: "codec_ok (eCodec env)" and named: "named_errors (eMsgpack env)"
    and inv: "\<And>s. stores w (own k) = Some s \<Longrightarrow> st_inv (eApi env) s"
    and e: "cache_Incr env clk ft self k n w = (w', res)"
  shows "roles w' = roles w \<and>
    (stores w' = stores w \<and> (\<exists>err. res = Inl err) \<or>
     (\<exists>s d. stores w (own k) = Some s \<and> stores w' = (stores w)(own k \<mapsto> fst (owner_incr env clk k n d s)) \<and>
        (\<forall>m. res = Inr m \<longrightarrow> snd (snd (owner_incr env clk k n d s)) = Inr m)))"
proof (cases "k = '''' \<or> is_closed self w")
  case True
  then have "w' = w" "\<exists>err. res = Inl err" using e by (auto simp: cache_Incr_def is_closed_def split: option.splits if_splits)
  then show ?thesis by simp
next
  case False
  then obtain c where c: "gm_get w self = Some c" "\<not> cClosed c" using not_closed by blast
  show ?thesis
  proof (cases "self = own k")
    case True
    then have "w' = gm_set self (fst (node_Incr env clk k n c)) w"
      "\<forall>m. res = Inr m \<longrightarrow> snd (node_Incr env clk k n c) = Inr m"
      using e False c routedD [OF r c(1)]
      by (auto simp: cache_Incr_def Let_def case_prod_unfold split: sum.splits prod.splits)
    then show ?thesis using True c same_node(2) [OF c(1)] by (auto simp: views_at node_Incr_views)
  next
    case ne: False
    let ?req = "zero_request\<lparr>rOp := opIncr, rKey := k, rDelta := n\<rparr>"
    obtain w1 q where q: "call env clk [] ft self (own k) ?req w = (w1, q)"
      by (cases "call env clk [] ft self (own k) ?req w")
    then have w': "w' = w1" "res = (case q of Inl err \<Rightarrow> Inl (ErrRemote err) | Inr p \<Rightarrow> Inr (pIntVal p))"
      using e False ne c routedD [OF r c(1)] by (auto simp: cache_Incr_def RemoteIncr_def split: sum.splits)
    note eff = call_effect [OF ok ne q]
    show ?thesis
    proof (cases "processed env clk [] (own k) ?req w w1 q")
      case True
      then obtain p where p: "gm_get w (own k) = Some p" "stores w1 = (stores w)(own k \<mapsto> cStore (fst (node_Incr env clk k n p)))"
        and resp: "\<And>x. q = Inr x \<Longrightarrow> x = snd (processRequest env clk [] ?req p)"
        by (auto simp: processed_def process_incr)
      have "snd (node_Incr env clk k n p) = Inr m" if "res = Inr m" for m
      proof -
        obtain x where x: "q = Inr x" "pIntVal x = m" using \<open>res = Inr m\<close> w'(2) by (auto split: sum.splits)
        have "pError x = ''''"
          using q x(1) by (auto simp: call_def Let_def split: option.splits sum.splits if_splits prod.splits)
        then show ?thesis
          using resp [OF x(1)] x(2) owner_incr_named [OF named inv] p(1)
          by (auto simp: process_incr zero_response_def node_Incr_views views_at split: sum.splits)
      qed
      then show ?thesis using p eff w'(1) by (auto simp: views_at node_Incr_views)
    next
      case False
      then show ?thesis using eff w' by auto
    qed
  qed
qed

section \<open>Operations without faults\<close>

text \<open>A node that accepts calls, and a key whose owner listens.\<close>

definition listening :: "(string \<Rightarrow> string) \<Rightarrow> string \<Rightarrow> 'd world \<Rightarrow> bool" where
  "listening own k w \<longleftrightarrow> (\<exists>p. gm_get w (own k) = Some p \<and> \<not> cStopped p)"

lemma is_closed_role: "is_closed self w = (case roles w self of None \<Rightarrow> True | Some (_, _, _, cl, _) \<Rightarrow> cl)"
  by (simp add: is_closed_def roles_def role_def split: option.split)

lemma is_closed_roles: "roles w' = roles w \<Longrightarrow> is_closed self w' = is_closed self w"
  by (simp add: is_closed_role)

lemma set_ttl_role:
  "set_ttl self d w = (if d = 0 then (case roles w self of None \<Rightarrow> 0 | Some (cf, _) \<Rightarrow> DefaultTTL cf) else d)"
  by (simp add: set_ttl_def node_at_def roles_def role_def split: option.split)

lemma set_ttl_roles: "roles w' = roles w \<Longrightarrow> set_ttl self d w' = set_ttl self d w"
  by (simp add: set_ttl_role)

lemma listening_role: "listening own k w \<longleftrightarrow> (\<exists>a b c d. roles w (own k) = Some (a, b, c, d, False))"
  by (auto simp: listening_def roles_def role_def)

lemma listening_roles: "roles w' = roles w \<Longrightarrow> listening own k w' = listening own k w"
  by (simp add: listening_role)

lemma distributedSet_ok:
  assumes r: "routed own w" and ok: "codec_ok (eCodec env)" and c: "gm_get w self = Some c" and l: "listening own k w"
  shows "snd (distributedSet env clk NoFault self k b d tags w) = None"
proof (cases "self = own k")
  case True
  then show ?thesis using c routedD [OF r c] by (simp add: distributedSet_def)
next
  case False
  obtain p where p: "gm_get w (own k) = Some p" "\<not> cStopped p" using l by (auto simp: listening_def)
  obtain w' where "call env clk [] NoFault self (own k) (set_request k b d tags) w = (w', Inr (zero_response\<lparr>pOK := True\<rparr>))"
    using call_answered [OF ok False _ p, where clk = clk and random = "[]" and req = "set_request k b d tags"] c
    by (auto simp: process_set)
  then show ?thesis using False c routedD [OF r c] by (simp add: distributedSet_def RemoteSet_def)
qed

lemma distributedGet_ok:
  assumes r: "routed own w" and ok: "codec_ok (eCodec env)" and c: "gm_get w self = Some c" and l: "listening own k w"
    and s: "stores w (own k) = Some s"
  shows "snd (distributedGet env clk NoFault self k w) = snd (st_Get (eApi env) (clk 0) k s)"
proof -
  obtain p where p: "gm_get w (own k) = Some p" "\<not> cStopped p" using l by (auto simp: listening_def)
  then have s': "cStore p = s" using s by (simp add: views_at)
  show ?thesis
  proof (cases "self = own k")
    case True
    then show ?thesis
      using c p s' routedD [OF r c] by (simp add: distributedGet_def Let_def case_prod_unfold)
  next
    case False
    let ?req = "zero_request\<lparr>rOp := opGet, rKey := k\<rparr>"
    have "pError (snd (processRequest env clk [] ?req p)) = ''''" by (simp add: process_get split: option.split)
    from call_answered [OF ok False _ p this] c obtain w'
      where "call env clk [] NoFault self (own k) ?req w = (w', Inr (snd (processRequest env clk [] ?req p)))" by auto
    then show ?thesis
      using False c routedD [OF r c] s'
      by (simp add: distributedGet_def RemoteGet_def process_get split: option.split)
  qed
qed

lemma distributedDelete_ok:
  assumes r: "routed own w" and ok: "codec_ok (eCodec env)" and c: "gm_get w self = Some c" and l: "listening own k w"
  shows "at_owner own k (\<lambda>s. fst (st_Delete (eApi env) k s)) (stores w) (stores (distributedDelete env clk NoFault self k w))"
proof (cases "self = own k")
  case True
  then have w': "distributedDelete env clk NoFault self k w = gm_set self (fst (node_Delete env k c)) w"
    using c routedD [OF r c] by (simp add: distributedDelete_def)
  then show ?thesis using True c by (simp add: at_owner_def views_at)
next
  case False
  obtain p where p: "gm_get w (own k) = Some p" "\<not> cStopped p" using l by (auto simp: listening_def)
  from call_answered [OF ok False _ p process_delete(2)] c obtain w' resp
    where q: "call env clk [] NoFault self (own k) (delete_request k) w = (w', Inr resp)" by fastforce
  then have w': "distributedDelete env clk NoFault self k w = w'"
    using False c routedD [OF r c] by (simp add: distributedDelete_def RemoteDelete_def)
  then show ?thesis
    using call_effect [OF ok False q]
      processed_at_owner [of env clk "[]" own k "delete_request k" w w' "Inr resp" "\<lambda>s. fst (st_Delete (eApi env) k s)"]
    by (auto simp: process_delete)
qed

section \<open>Agreement on the members gives agreement on the routes\<close>

text \<open>
  Nodes whose rings hold the members \<open>M\<close> and whose tables know the address \<open>addr n\<close> of every member \<open>n\<close>; the
  node that calls itself \<open>n\<close> runs at that address. \<open>agreed\<close> adds the partitioned mode.
\<close>

definition same_members :: "nat \<Rightarrow> string set \<Rightarrow> (string \<Rightarrow> string) \<Rightarrow> 'd world \<Rightarrow> bool" where
  "same_members v M addr w \<longleftrightarrow> M \<noteq> {} \<and> '''' \<notin> M \<and> inj_on addr M \<and> (\<forall>n\<in>M. addr n \<noteq> '''') \<and>
     (\<forall>a c. gm_get w a = Some c \<longrightarrow>
        (\<exists>r cs. cRing c = Some r \<and> cState c = Some cs \<and> ring_of v M r \<and> SelfName cs \<in> M \<and> addr (SelfName cs) = a \<and>
           (\<forall>n\<in>M. \<exists>info. cs_GetNode n cs = Some info \<and> nRPCAddr info = addr n)))"

definition agreed :: "nat \<Rightarrow> string set \<Rightarrow> (string \<Rightarrow> string) \<Rightarrow> 'd world \<Rightarrow> bool" where
  "agreed v M addr w \<longleftrightarrow>
     same_members v M addr w \<and> (\<forall>a c. gm_get w a = Some c \<longrightarrow> mode (cConfig c) = Partitioned)"

text \<open>All nodes send the requests for a key to one address, whatever their mode.\<close>

definition one_owner :: "(string \<Rightarrow> string) \<Rightarrow> 'd world \<Rightarrow> bool" where
  "one_owner own w \<longleftrightarrow> (\<forall>k. own k \<noteq> '''') \<and>
     (\<forall>a c. gm_get w a = Some c \<longrightarrow> (\<forall>k. ownerAddr k c = (if a = own k then '''' else own k)))"

lemma same_members_one_owner:
  assumes cf: "clash_free v M" and ag: "same_members v M addr w" and r0: "ring_of v M r0"
  shows "one_owner (\<lambda>k. addr (GetNode k r0)) w"
proof -
  have M: "M \<noteq> {}" "'''' \<notin> M" "inj_on addr M" "\<And>n. n \<in> M \<Longrightarrow> addr n \<noteq> ''''"
    using ag unfolding same_members_def by blast+
  have mem: "GetNode k r0 \<in> M" for k using ring_of_GetNode [OF r0 M(1), of k] by blast
  have "ownerAddr k c = (if a = addr (GetNode k r0) then '''' else addr (GetNode k r0))"
    if g: "gm_get w a = Some c" for a c k
  proof -
    obtain r cs where c: "cRing c = Some r" "cState c = Some cs" "ring_of v M r" "SelfName cs \<in> M" "addr (SelfName cs) = a"
      and tab: "\<And>n. n \<in> M \<Longrightarrow> \<exists>info. cs_GetNode n cs = Some info \<and> nRPCAddr info = addr n"
      using ag g unfolding same_members_def by blast
    have o: "GetNode k r = GetNode k r0" by (rule ring_of_same_owner [OF cf _ c(3) r0]) simp
    have ne: "GetNode k r0 \<noteq> ''''"
    proof
      assume "GetNode k r0 = ''''"
      then show False using mem [of k] M(2) by simp
    qed
    have same: "a = addr (GetNode k r0) \<longleftrightarrow> SelfName cs = GetNode k r0"
      using inj_on_eq_iff [OF M(3) c(4) mem [of k]] unfolding c(5) .
    obtain info where "cs_GetNode (GetNode k r0) cs = Some info" "nRPCAddr info = addr (GetNode k r0)"
      using tab [OF mem [of k]] by blast
    then show ?thesis using c(1,2) o ne same by (simp add: ownerAddr_def eq_commute [of "SelfName cs"])
  qed
  then show ?thesis unfolding one_owner_def using M(4) [OF mem] by blast
qed

lemma same_members_one_owner_ex:
  assumes "clash_free v M" "same_members v M addr w"
  shows "\<exists>own. one_owner own w"
proof (cases "\<exists>a c. gm_get w a = Some c")
  case True
  then obtain a c where "gm_get w a = Some c" by blast
  then obtain r where "ring_of v M r" using assms(2) unfolding same_members_def by blast
  then show ?thesis using same_members_one_owner [OF assms] by blast
next
  case False
  then have "one_owner (\<lambda>_. ''x'') w" by (simp add: one_owner_def)
  then show ?thesis by blast
qed

lemma one_owner_routed:
  assumes "one_owner own w" "\<And>a c. gm_get w a = Some c \<Longrightarrow> mode (cConfig c) = Partitioned"
  shows "routed own w"
  using assms by (simp add: one_owner_def routed_def)

lemma agreed_routed:
  assumes "clash_free v M" "agreed v M addr w" "ring_of v M r0"
  shows "routed (\<lambda>k. addr (GetNode k r0)) w"
proof -
  have "same_members v M addr w" and m: "\<And>a c. gm_get w a = Some c \<Longrightarrow> mode (cConfig c) = Partitioned"
    using assms(2) by (simp_all add: agreed_def)
  then have "one_owner (\<lambda>k. addr (GetNode k r0)) w" using same_members_one_owner assms(1,3) by blast
  then show ?thesis using m by (rule one_owner_routed)
qed

lemma agreed_routed_ex:
  assumes "clash_free v M" "agreed v M addr w"
  shows "\<exists>own. routed own w"
proof -
  have "same_members v M addr w" and m: "\<And>a c. gm_get w a = Some c \<Longrightarrow> mode (cConfig c) = Partitioned"
    using assms(2) by (simp_all add: agreed_def)
  then obtain own where "one_owner own w" using same_members_one_owner_ex assms(1) by blast
  then show ?thesis using m by (blast intro: one_owner_routed)
qed

text \<open>The address that serves a key, as the node \<open>self\<close> sees it.\<close>

definition owner_node :: "string \<Rightarrow> string \<Rightarrow> 'd cache \<Rightarrow> string" where
  "owner_node self k c = (if ownerAddr k c = '''' then self else ownerAddr k c)"

lemma owner_node_routed: "routed own w \<Longrightarrow> gm_get w self = Some c \<Longrightarrow> owner_node self k c = own k"
  using routedD(2) [of own w self c k] routedD(3) [of own w self c k] by (simp add: owner_node_def)

end
