(* ===== verification/Partitioned.thy ===== *)
theory Partitioned
  imports Fleet
begin

text \<open>
  The partitioned mode: a cluster in which all nodes agree on the owner of every key behaves like one cache.
  A run is a list of calls of the public API at arbitrary nodes, mixed with sweeps and eviction callbacks; the
  network may lose any request or any reply. \<open>possible\<close> is the specification: the values that a key may
  hold, given the answers that the callers saw. A write that reported success leaves one possible value, a
  write that reported an error may or may not have happened.
\<close>

section \<open>Definitions\<close>

datatype ('v, 'x) cluster_op =
    DoSet string fault "nat \<Rightarrow> instant" instant string "'v gvalue" duration
  | DoGet string fault "nat \<Rightarrow> instant" string "'x dest"
  | DoDelete string fault "nat \<Rightarrow> instant" instant string
  | DoExists string fault "nat \<Rightarrow> instant" string
  | DoIncr string fault "nat \<Rightarrow> instant" string int64
  | Sweep string "nat \<Rightarrow> instant" "nat \<Rightarrow> instant"
  | Evicted string instant nat

datatype 'v cluster_out =
    GotSet "cache_error option"
  | GotGet "'v gvalue option"
  | GotExists bool
  | GotIncr "cache_error + int64"
  | GotUnit

fun cluster_step ::
    "('d, 'v, 'x, 'w) env \<Rightarrow> ('v, 'x) cluster_op \<Rightarrow> 'd world \<Rightarrow> 'd world \<times> 'v cluster_out" where
  "cluster_step env (DoSet self ft clk ts k v d) w = map_prod (\<lambda>x. x) GotSet (cache_Set env clk ts ft self k v d w)"
| "cluster_step env (DoGet self ft clk k dest) w = map_prod (\<lambda>x. x) GotGet (cache_Get env clk ft self k dest w)"
| "cluster_step env (DoDelete self ft clk ts k) w = (cache_Delete env clk ts ft self k w, GotUnit)"
| "cluster_step env (DoExists self ft clk k) w = map_prod (\<lambda>x. x) GotExists (cache_Exists env clk ft self k w)"
| "cluster_step env (DoIncr self ft clk k n) w = map_prod (\<lambda>x. x) GotIncr (cache_Incr env clk ft self k n w)"
| "cluster_step env (Sweep a clk ts) w = (on_node a (sweeper_tick env clk ts) w, GotUnit)"
| "cluster_step env (Evicted a t i) w = (on_node a (run_evicted t i) w, GotUnit)"

fun cluster_run ::
    "('d, 'v, 'x, 'w) env \<Rightarrow> ('v, 'x) cluster_op list \<Rightarrow> 'd world \<Rightarrow> 'd world \<times> 'v cluster_out list" where
  "cluster_run env [] w = (w, [])"
| "cluster_run env (op # ops) w =
     (let (w1, out) = cluster_step env op w; (w2, outs) = cluster_run env ops w1 in (w2, out # outs))"

text \<open>The clock does not run backwards within an operation that reads it twice.\<close>

fun clock_ok :: "('v, 'x) cluster_op \<Rightarrow> bool" where
  "clock_ok (DoExists self ft clk k) \<longleftrightarrow> clk 0 \<le> clk 1"
| "clock_ok (DoIncr self ft clk k n) \<longleftrightarrow> clk 0 \<le> clk 1"
| "clock_ok op \<longleftrightarrow> True"

fun possible ::
    "('d, 'v, 'x, 'w) env \<Rightarrow> ('v, 'x) cluster_op \<Rightarrow> 'v cluster_out \<Rightarrow> (string \<Rightarrow> bytes set) \<Rightarrow> string \<Rightarrow> bytes set" where
  "possible env (DoSet self ft clk ts k v d) (GotSet res) P =
     (case Serialize (marshal_any (eMsgpack env)) v of
        Inl err \<Rightarrow> P
      | Inr b \<Rightarrow> P(k := (if res = None then {b} else insert b (P k))))"
| "possible env (DoIncr self ft clk k n) (GotIncr (Inr m)) P = P(k := {int64_bytes (eMsgpack env) m})"
| "possible env (DoIncr self ft clk k n) (GotIncr (Inl err)) P = P(k := P k \<union> range (int64_bytes (eMsgpack env)))"
| "possible env op out P = P"

fun possible_run ::
    "('d, 'v, 'x, 'w) env \<Rightarrow> ('v, 'x) cluster_op list \<Rightarrow> 'v cluster_out list \<Rightarrow> (string \<Rightarrow> bytes set) \<Rightarrow> string \<Rightarrow> bytes set"
  where
  "possible_run env (op # ops) (out # outs) P = possible_run env ops outs (possible env op out P)"
| "possible_run env ops outs P = P"

text \<open>The invariant: routing, the invariants of the stores, and only possible values in the owners' stores.\<close>

definition explained :: "('d, 'v, 'x, 'w) env \<Rightarrow> (string \<Rightarrow> string) \<Rightarrow> (string \<Rightarrow> bytes set) \<Rightarrow> 'd world \<Rightarrow> bool" where
  "explained env own P w \<longleftrightarrow> routed own w \<and>
     (\<forall>a s. stores w a = Some s \<longrightarrow> st_inv (eApi env) s) \<and>
     (\<forall>t k s b. stores w (own k) = Some s \<longrightarrow> st_look (eApi env) t s k = Some b \<longrightarrow> b \<in> P k)"

section \<open>Lemmas\<close>

lemma st_Incr_truncate: "st_Incr api (msgpack.truncate mp) = st_Incr api mp"
proof -
  have sel: "marshal_int64 (msgpack.truncate mp) = marshal_int64 mp" "unmarshal_int64 (msgpack.truncate mp) = unmarshal_int64 mp"
    by (simp_all add: msgpack.defs)
  have a: "incr_store (msgpack.truncate mp) = incr_store mp"
    by (intro ext) (unfold incr_store_def sel, rule refl)
  have b: "shard_Incr (msgpack.truncate mp) = shard_Incr mp"
    by (intro ext) (unfold shard_Incr_def a sel, rule refl)
  have c: "ps_incr_store api (msgpack.truncate mp) = ps_incr_store api mp"
    by (intro ext) (unfold ps_incr_store_def sel, rule refl)
  have d: "ps_Incr api (msgpack.truncate mp) = ps_Incr api mp"
    by (intro ext) (unfold ps_Incr_def c sel, rule refl)
  show ?thesis by (intro ext) (unfold st_Incr_def ms_Incr_def b d, rule refl)
qed

lemma int64_bytes_truncate: "int64_bytes (msgpack.truncate mp) n = int64_bytes mp n"
  by (simp add: int64_bytes_def msgpack.defs)

lemma explainedD:
  assumes "explained env own P w"
  shows "routed own w" "stores w a = Some s \<Longrightarrow> st_inv (eApi env) s"
    "stores w (own k) = Some s \<Longrightarrow> st_look (eApi env) t s k = Some b \<Longrightarrow> b \<in> P k"
  using assms unfolding explained_def by blast+

lemma explained_mono:
  assumes "explained env own P w" "\<And>k. P k \<subseteq> P' k" "roles w' = roles w" "stores w' = stores w"
  shows "explained env own P' w'"
  using assms(1,2,4) routed_roles [OF explainedD(1) [OF assms(1)] assms(3)] unfolding explained_def by (simp, blast)

lemma explained_upd:
  assumes ex: "explained env own P w" and "roles w' = roles w"
    and w': "stores w a = Some s" "stores w' = (stores w)(a \<mapsto> s')"
    and inv: "st_inv (eApi env) s'"
    and look: "\<And>t x b. own x = a \<Longrightarrow> st_look (eApi env) t s' x = Some b \<Longrightarrow> b \<in> P' x"
    and mono: "\<And>x. own x \<noteq> a \<Longrightarrow> P x \<subseteq> P' x"
  shows "explained env own P' w'"
proof -
  have "st_inv (eApi env) r" if "stores w' a' = Some r" for a' r
    using explainedD(2) [OF ex] inv that w'(2) by (auto split: if_splits)
  moreover have "b \<in> P' x" if "stores w' (own x) = Some r" "st_look (eApi env) t r x = Some b" for t x r b
  proof (cases "own x = a")
    case True
    then have "r = s'" using that(1) w'(2) by simp
    then show ?thesis using look [OF True] that(2) by simp
  next
    case False
    then have "stores w (own x) = Some r" using that(1) w'(2) by simp
    then show ?thesis using explainedD(3) [OF ex] that(2) mono [OF False] by blast
  qed
  moreover have "routed own w'" by (rule routed_roles [OF explainedD(1) [OF ex] assms(2)])
  ultimately show ?thesis unfolding explained_def by blast
qed

text \<open>An operation of the owner that adds at most \<open>B\<close> to the values of its key.\<close>

lemma explained_owner:
  assumes ex: "explained env own P w" and ro: "roles w' = roles w"
    and s: "stores w (own k) = Some s" "stores w' = (stores w)(own k \<mapsto> s')"
    and inv: "st_inv (eApi env) s'"
    and sub: "\<And>t x b. own x = own k \<Longrightarrow> st_look (eApi env) t s' x = Some b \<Longrightarrow> b \<in> (if x = k then P' k else P x)"
  shows "explained env own (P(k := P' k)) w'"
proof (rule explained_upd [OF ex ro s inv])
  show "b \<in> (P(k := P' k)) x" if "own x = own k" "st_look (eApi env) t s' x = Some b" for t x b
    using sub [OF that] by (simp split: if_splits)
  show "P x \<subseteq> (P(k := P' k)) x" if "own x \<noteq> own k" for x
    using that by auto
qed

lemma explained_shrink:
  assumes ex: "explained env own P w" and ro: "roles w' = roles w"
    and s: "stores w a = Some s" "stores w' = (stores w)(a \<mapsto> s')"
    and inv: "st_inv (eApi env) s'" and sub: "\<And>t. st_look (eApi env) t s' \<subseteq>\<^sub>m st_look (eApi env) t s"
  shows "explained env own P w'"
proof (rule explained_upd [OF ex ro s inv])
  fix t x b
  assume x: "own x = a" and l: "st_look (eApi env) t s' x = Some b"
  have "st_look (eApi env) t s x = Some b" by (rule map_le_get [OF sub l])
  then show "b \<in> P x" using explainedD(3) [OF ex] s(1) x by blast
qed simp

section \<open>Steps\<close>

lemma explained_Set:
  assumes ex: "explained env own P w" and ok: "codec_ok (eCodec env)"
    and e: "cache_Set env clk ts ft self k v d w = (w', res)"
  shows "explained env own (possible env (DoSet self ft clk ts k v d) (GotSet res) P) w'"
proof -
  note eff = cache_Set_effect [OF explainedD(1) [OF ex] ok e]
  show ?thesis
  proof (cases "stores w' = stores w \<and> res \<noteq> None")
    case True
    then show ?thesis
      by (intro explained_mono [OF ex]) (use eff in \<open>auto split: sum.splits\<close>)
  next
    case False
    then obtain b s where b: "Serialize (marshal_any (eMsgpack env)) v = Inr b"
      and s: "stores w (own k) = Some s"
        "stores w' = (stores w)(own k \<mapsto> fst (st_Set (eApi env) (clk 0) k b (set_ttl self d w) s))"
      using eff by (auto simp: at_owner_def)
    have inv: "st_inv (eApi env) s" by (rule explainedD(2) [OF ex s(1)])
    have "explained env own (P(k := (\<lambda>_. {b}) k)) w'"
    proof (rule explained_owner [OF ex _ s backend.inv_put [OF inv]])
      fix t x b'
      assume x: "own x = own k" and l: "st_look (eApi env) t (fst (st_Set (eApi env) (clk 0) k b (set_ttl self d w) s)) x = Some b'"
      have "((st_look (eApi env) t s)(k \<mapsto> b)) x = Some b'" by (rule map_le_get [OF backend.put_sub [OF inv] l])
      then show "b' \<in> (if x = k then (\<lambda>_. {b}) k else P x)"
        using explainedD(3) [OF ex] s(1) x by (auto split: if_splits)
    qed (use eff in simp)
    then have one: "explained env own (P(k := {b})) w'" by simp
    show ?thesis
      by (rule explained_mono [OF one]) (use b in auto)
  qed
qed

lemma explained_at_owner:
  assumes ex: "explained env own P w" and ro: "roles w' = roles w"
    and at: "stores w' = stores w \<or> at_owner own k f (stores w) (stores w')"
    and inv: "\<And>s. st_inv (eApi env) s \<Longrightarrow> st_inv (eApi env) (f s)"
    and sub: "\<And>s t. st_inv (eApi env) s \<Longrightarrow> st_look (eApi env) t (f s) \<subseteq>\<^sub>m st_look (eApi env) t s"
  shows "explained env own P w'"
proof (cases "stores w' = stores w")
  case True
  show ?thesis by (rule explained_mono [OF ex _ ro True]) simp
next
  case False
  then obtain s where s: "stores w (own k) = Some s" "stores w' = (stores w)(own k \<mapsto> f s)"
    using at by (auto simp: at_owner_def)
  have i: "st_inv (eApi env) s" by (rule explainedD(2) [OF ex s(1)])
  show ?thesis by (rule explained_shrink [OF ex ro s inv [OF i] sub [OF i]])
qed

lemma explained_Get:
  assumes ex: "explained env own P w" and ok: "codec_ok (eCodec env)"
    and e: "cache_Get env clk ft self k dest w = (w', res)"
  shows "explained env own P w'"
  by (rule explained_at_owner [OF ex, where k = k and f = "\<lambda>s. fst (st_Get (eApi env) (clk 0) k s)"])
    (use cache_Get_effect [OF explainedD(1) [OF ex] ok e] in \<open>auto simp: backend.inv_get backend.get_sub\<close>)

lemma explained_Delete:
  assumes ex: "explained env own P w" and ok: "codec_ok (eCodec env)"
  shows "explained env own P (cache_Delete env clk ts ft self k w)"
  by (rule explained_at_owner [OF ex, where k = k and f = "\<lambda>s. fst (st_Delete (eApi env) k s)"])
    (use cache_Delete_effect [OF explainedD(1) [OF ex] ok] in \<open>auto simp: backend.inv_del backend.del_look map_le_del\<close>)

lemma explained_Exists:
  assumes ex: "explained env own P w" and ok: "codec_ok (eCodec env)" and t: "clk 0 \<le> clk 1"
  shows "explained env own P (fst (cache_Exists env clk ft self k w))"
  by (rule explained_at_owner [OF ex, where k = k and f = "\<lambda>s. fst (st_Exists (eApi env) (clk 0) (clk 1) k s)"])
    (use cache_Exists_effect [OF explainedD(1) [OF ex] ok, where clk = clk and ft = ft and self = self and k = k] t
      in \<open>auto simp: backend.inv_exi backend.exi_sub\<close>)

lemma explained_Incr:
  assumes ex: "explained env own P w" and ok: "codec_ok (eCodec env)" "named_errors (eMsgpack env)"
    and t: "clk 0 \<le> clk 1" and e: "cache_Incr env clk ft self k n w = (w', res)"
  shows "explained env own (possible env (DoIncr self ft clk k n) (GotIncr res) P) w'"
proof -
  let ?mp = "msgpack.truncate (eMsgpack env)"
  note eff = cache_Incr_effect [OF explainedD(1) [OF ex] ok explainedD(2) [OF ex, of "own k"] e, simplified]
  show ?thesis
  proof (cases "stores w' = stores w \<and> (\<exists>err. res = Inl err)")
    case True
    then show ?thesis by (intro explained_mono [OF ex]) (use eff in auto)
  next
    case False
    then obtain s d where s: "stores w (own k) = Some s" "stores w' = (stores w)(own k \<mapsto> fst (owner_incr env clk k n d s))"
      and res: "\<And>m. res = Inr m \<Longrightarrow> snd (snd (owner_incr env clk k n d s)) = Inr m"
      using eff by auto
    have inv: "st_inv (eApi env) s" by (rule explainedD(2) [OF ex s(1)])
    obtain s' cbs q where o: "st_Incr (eApi env) ?mp (clk 0) (clk 1) (clk 2) k n d s = (s', cbs, q)"
      by (cases "st_Incr (eApi env) ?mp (clk 0) (clk 1) (clk 2) k n d s")
    then have o': "owner_incr env clk k n d s = (s', cbs, q)" by (simp add: owner_incr_def st_Incr_truncate)
    have i': "st_inv (eApi env) s'" using backend.inv_incr [OF inv t, of ?mp "clk 2" k n d] o by simp
    define Q where "Q = (case q of Inr m \<Rightarrow> {int64_bytes (eMsgpack env) m} | Inl err \<Rightarrow> P k)"
    have "explained env own (P(k := (\<lambda>_. Q) k)) w'"
    proof (rule explained_owner [OF ex _ s(1)])
      show "stores w' = (stores w)(own k \<mapsto> s')" using s(2) o' by simp
      fix t' x b
      assume x: "own x = own k" and l: "st_look (eApi env) t' s' x = Some b"
      show "b \<in> (if x = k then (\<lambda>_. Q) k else P x)"
      proof (cases q)
        case (Inl err)
        have "st_look (eApi env) t' s x = Some b" by (rule map_le_get [OF backend.incr_err [OF inv t o [unfolded Inl]] l])
        then show ?thesis using explainedD(3) [OF ex] s(1) x Inl by (auto simp: Q_def)
      next
        case (Inr m)
        have "((st_look (eApi env) t' s)(k \<mapsto> int64_bytes ?mp m)) x = Some b"
          by (rule map_le_get [OF backend.incr_ok [OF inv t o [unfolded Inr]] l])
        then show ?thesis
          using explainedD(3) [OF ex] s(1) x Inr by (auto simp: Q_def int64_bytes_truncate split: if_splits)
      qed
    qed (use eff i' in simp_all)
    then have one: "explained env own (P(k := Q)) w'" by simp
    have "(P(k := Q)) x \<subseteq> possible env (DoIncr self ft clk k n) (GotIncr res) P x" for x
      using res o' by (cases res; cases q) (auto simp: Q_def)
    then show ?thesis by (rule explained_mono [OF one]) simp_all
  qed
qed

lemma explained_on_node:
  assumes ex: "explained env own P w" and ro: "\<And>c. role (f c) = role c"
    and inv: "\<And>c. st_inv (eApi env) (cStore c) \<Longrightarrow> st_inv (eApi env) (cStore (f c))"
    and sub: "\<And>c t. st_inv (eApi env) (cStore c) \<Longrightarrow> st_look (eApi env) t (cStore (f c)) \<subseteq>\<^sub>m st_look (eApi env) t (cStore c)"
  shows "explained env own P (on_node a f w)"
proof (cases "gm_get w a")
  case None
  then show ?thesis using ex by (simp add: on_node_def)
next
  case (Some c)
  have i: "st_inv (eApi env) (cStore c)" by (rule explainedD(2) [OF ex views_at(1) [OF Some]])
  show ?thesis
    by (rule explained_shrink [OF ex _ views_at(1) [OF Some] _ inv [OF i] sub [OF i]])
      (use Some ro same_node(2) [OF Some] in \<open>simp_all add: on_node_def\<close>)
qed

lemma explained_step:
  assumes ex: "explained env own P w" and ok: "codec_ok (eCodec env)" "named_errors (eMsgpack env)"
    and t: "clock_ok op" and e: "cluster_step env op w = (w', out)"
  shows "explained env own (possible env op out P) w'"
proof (cases op)
  case (DoSet self ft clk ts k v d)
  then show ?thesis using e explained_Set [OF ex ok(1)] by (cases "cache_Set env clk ts ft self k v d w") auto
next
  case (DoGet self ft clk k dest)
  then show ?thesis using e explained_Get [OF ex ok(1)] by (cases "cache_Get env clk ft self k dest w") auto
next
  case (DoDelete self ft clk ts k)
  then show ?thesis using e explained_Delete [OF ex ok(1)] by auto
next
  case (DoExists self ft clk k)
  then show ?thesis
    using e t explained_Exists [OF ex ok(1), where clk = clk and ft = ft and self = self and k = k]
    by (cases "cache_Exists env clk ft self k w") auto
next
  case (DoIncr self ft clk k n)
  then obtain res where res: "cache_Incr env clk ft self k n w = (w', res)" "out = GotIncr res"
    using e by (cases "cache_Incr env clk ft self k n w") auto
  then show ?thesis using explained_Incr [OF ex ok _ res(1)] DoIncr t by simp
next
  case (Sweep a clk ts)
  then show ?thesis
    using e explained_on_node [OF ex, where f = "sweeper_tick env clk ts" and a = a]
    by (auto simp: backend.inv_sweep backend.sweep_sub)
next
  case (Evicted a t' i)
  then show ?thesis using e explained_on_node [OF ex, where f = "run_evicted t' i" and a = a] by auto
qed

lemma explained_run:
  assumes "explained env own P w" "codec_ok (eCodec env)" "named_errors (eMsgpack env)"
    and "list_all clock_ok ops" "cluster_run env ops w = (w', outs)"
  shows "explained env own (possible_run env ops outs P) w'"
  using assms
proof (induction ops arbitrary: w P outs)
  case Nil
  then show ?case by simp
next
  case (Cons op ops)
  obtain w1 out where s: "cluster_step env op w = (w1, out)" by (cases "cluster_step env op w")
  obtain outs1 where r: "cluster_run env ops w1 = (w', outs1)" "outs = out # outs1"
    using Cons.prems(5) s by (cases "cluster_run env ops w1") auto
  have "explained env own (possible env op out P) w1"
    by (rule explained_step [OF Cons.prems(1-3) _ s]) (use Cons.prems(4) in simp)
  from Cons.IH [OF this Cons.prems(2,3) _ r(1)] show ?case using Cons.prems(4) r(2) by simp
qed

end
