(* ===== verification/Cluster_Props.thy ===== *)
theory Cluster_Props
  imports Partitioned
begin

text \<open>
  What a partitioned cluster promises to its callers, and a small concrete cluster at which the hypotheses
  hold: two nodes over the list-based engine.
\<close>

section \<open>A concrete cluster\<close>

definition demo_msgpack :: "(unit, unit) msgpack_any" where
  "demo_msgpack = msgpack.extend fixed_msgpack
     \<lparr>marshal_any = (\<lambda>_. Inr [7]), unmarshal_any = (\<lambda>b d. if b = [7] then Inr () else Inl ''invalid code'')\<rparr>"

definition demo_env :: "((string, bytes) gomap, unit, unit, request + response) env" where
  "demo_env = \<lparr>eApi = list_pebble, eMsgpack = demo_msgpack, eCodec = plain_codec, eConv = (\<lambda>_. 0)\<rparr>"

definition demo_info :: "string \<Rightarrow> string \<Rightarrow> NodeInfo" where
  "demo_info name a = \<lparr>nName = name, nAddr = a, nRPCAddr = a, nHTTPAddr = a, nStatus = NodeAlive, nJoinedAt = 0,
     nMeta = \<lparr>mRPCPort = 1, mHTTPPort = 2, mVersion = ''''\<rparr>\<rparr>"

definition demo_state :: "string \<Rightarrow> cluster_state" where
  "demo_state name = cs_AddNode (demo_info ''n1'' ''a1'') (cs_AddNode (demo_info ''n2'' ''a2'') (NewClusterState name))"

definition demo_ring :: ring where
  "demo_ring = AddNode ''n2'' (AddNode ''n1'' (NewRing 4))"

definition demo_cache :: "Mode \<Rightarrow> string \<Rightarrow> (string, bytes) gomap cache" where
  "demo_cache md name =
     \<lparr>cStore = DiskStore \<lparr>db = [], pcount = 0, ponEvict = True, ponExpire = True\<rparr>, cConfig = DefaultConfig\<lparr>mode := md\<rparr>,
      cClosed = False, cRing = Some demo_ring, cState = Some (demo_state name), cConns = [], cStopped = False,
      cLocks = NewEngine, cBuckets = NewTokenBucket, cWindows = NewSlidingWindow, cBroker = NewBroker,
      cTags = newTagIndex, cEvicted = [], cSpawned = [], cCalls = [], cPanicked = False\<rparr>"

definition demo_world :: "Mode \<Rightarrow> (string, bytes) gomap world" where
  "demo_world md = [(''a1'', demo_cache md ''n1''), (''a2'', demo_cache md ''n2'')]"

definition demo_addr :: "string \<Rightarrow> string" where
  "demo_addr n = (if n = ''n1'' then ''a1'' else ''a2'')"

lemma demo_ring_of: "ring_of 4 {''n1'', ''n2''} demo_ring"
proof -
  have v: "vnodes (NewRing 4) = 4" by (simp add: NewRing_def)
  have "ring_of 4 {} (NewRing 4)" using ring_of_New [of 4] by (simp add: v)
  then have "ring_of 4 (insert ''n1'' {}) (AddNode ''n1'' (NewRing 4))"
    by (rule ring_of_Add [OF demo_clash_free, rotated]) simp
  then have "ring_of 4 (insert ''n2'' (insert ''n1'' {})) (AddNode ''n2'' (AddNode ''n1'' (NewRing 4)))"
    by (rule ring_of_Add [OF demo_clash_free, rotated]) simp
  then show ?thesis unfolding demo_ring_def by (simp only: insert_commute)
qed

lemma demo_clash_free2: "clash_free 4 {''n1'', ''n2''}"
  using demo_clash_free unfolding clash_free_def by (rule inj_on_subset) blast

lemma demo_same_members: "same_members 4 {''n1'', ''n2''} demo_addr (demo_world md)"
proof -
  have n: "cRing (demo_cache md s) = Some demo_ring" "cState (demo_cache md s) = Some (demo_state s)"
    for md s
    by (simp_all add: demo_cache_def)
  have self: "SelfName (demo_state s) = s" for s
    by (simp add: demo_state_def cs_AddNode_def NewClusterState_def SelfName_def)
  have tab: "\<exists>info. cs_GetNode n (demo_state s) = Some info \<and> nRPCAddr info = demo_addr n" if "n \<in> {''n1'', ''n2''}" for n s
    using that by (auto simp: demo_state_def demo_info_def demo_addr_def)
  have "(\<exists>r cs. cRing c = Some r \<and> cState c = Some cs \<and> ring_of 4 {''n1'', ''n2''} r \<and> SelfName cs \<in> {''n1'', ''n2''} \<and>
         demo_addr (SelfName cs) = a \<and> (\<forall>n\<in>{''n1'', ''n2''}. \<exists>info. cs_GetNode n cs = Some info \<and> nRPCAddr info = demo_addr n))"
    if g: "gm_get (demo_world md) a = Some c" for a c
  proof -
    obtain s where s: "c = demo_cache md s" "s \<in> {''n1'', ''n2''}" "demo_addr s = a"
      using g by (auto simp: demo_world_def demo_addr_def split: if_splits)
    show ?thesis
      unfolding s(1) n using s(2,3) demo_ring_of self tab by (intro conjI refl exI [of _ demo_ring] exI [of _ "demo_state s"] ballI) simp_all
  qed
  moreover have "inj_on demo_addr {''n1'', ''n2''}" "\<forall>n\<in>{''n1'', ''n2''}. demo_addr n \<noteq> ''''"
    by (auto simp: inj_on_def demo_addr_def)
  ultimately show ?thesis unfolding same_members_def by (intro conjI allI impI) simp_all
qed

lemma demo_agreed: "agreed 4 {''n1'', ''n2''} demo_addr (demo_world Partitioned)"
  using demo_same_members by (auto simp: agreed_def demo_world_def demo_cache_def split: if_splits)

lemma demo_node:
  "\<exists>p. gm_get (demo_world md) (demo_addr n) = Some p \<and> \<not> cStopped p \<and> \<not> cClosed p \<and> cLocks p = NewEngine"
  by (simp add: demo_world_def demo_addr_def demo_cache_def)

section \<open>Properties\<close>

text \<open>Every store of the world is well formed and shows nothing.\<close>

definition all_empty :: "('d, 'v, 'x, 'w) env \<Rightarrow> 'd world \<Rightarrow> bool" where
  "all_empty env w \<longleftrightarrow>
     (\<forall>a s. stores w a = Some s \<longrightarrow> st_inv (eApi env) s \<and> (\<forall>t k. st_look (eApi env) t s k = None))"

lemma all_empty_explained: "routed own w \<Longrightarrow> all_empty env w \<Longrightarrow> explained env own (\<lambda>_. {}) w"
  unfolding all_empty_def explained_def by fastforce

text \<open>C1: No stale reads in a partitioned cluster. Nodes that agree on the members start empty and
  serve any sequence of calls of \<open>Set\<close>, \<open>Get\<close>, \<open>Delete\<close>, \<open>Exists\<close> and \<open>Incr\<close> at any nodes, with sweeps and
  eviction callbacks in between, while the network loses requests and replies. Whatever a \<open>Get\<close> at any
  node then answers is a value that the key may hold: the value of the last write that reported success, or
  of a later write that reported an error.\<close>

theorem partitioned_no_stale_value:
  assumes "clash_free v M" "agreed v M addr w" "all_empty env w"
    and "codec_ok (eCodec env)" "named_errors (eMsgpack env)" "list_all clock_ok ops"
    and "cluster_run env ops w = (w', outs)"
    and "cache_Get env clk ft self key dest w' = (w'', Some val)"
  shows "\<exists>b \<in> possible_run env ops outs (\<lambda>_. {}) key. Deserialize (unmarshal_any (eMsgpack env)) b dest = Inr val"
proof -
  obtain own where own: "routed own w" using agreed_routed_ex [OF assms(1,2)] by blast
  have ex: "explained env own (possible_run env ops outs (\<lambda>_. {})) w'"
    by (rule explained_run [OF all_empty_explained [OF own assms(3)] assms(4-7)])
  obtain s b where s: "stores w' (own key) = Some s" "snd (st_Get (eApi env) (clk 0) key s) = Some b"
    and d: "Deserialize (unmarshal_any (eMsgpack env)) b dest = Inr val"
    using cache_Get_effect [OF explainedD(1) [OF ex] assms(4,8)] by blast
  have "st_look (eApi env) (clk 0) s key = Some b"
    using s(2) backend.get_look [OF explainedD(2) [OF ex s(1)]] by simp
  then show ?thesis using explainedD(3) [OF ex s(1)] d by blast
qed

lemma demo_codec_ok: "codec_ok (eCodec demo_env)" "named_errors (eMsgpack demo_env)"
  by (simp_all add: demo_env_def plain_codec_ok named_errors_def demo_msgpack_def msgpack.defs fixed_msgpack_def)

lemma demo_all_empty: "all_empty demo_env (demo_world md)"
proof -
  have "db_Get list_pebble = gm_get" by (simp add: list_pebble_def)
  then show ?thesis
    by (auto simp: all_empty_def stores_def demo_world_def demo_cache_def demo_env_def st_inv_def st_look_def
        pebble_ok_list ps_look_def split: if_splits)
qed

definition demo_calls :: "(unit, unit) cluster_op list" where
  "demo_calls =
     [DoSet ''a1'' NoFault (\<lambda>_. 1) 1 ''k'' (GBytes [1]) 0, DoSet ''a2'' ReplyLost (\<lambda>_. 2) 2 ''k'' (GBytes [2]) 0,
      DoIncr ''a2'' NoFault (\<lambda>_. 3) ''n'' 5, Sweep ''a1'' (\<lambda>_. 4) (\<lambda>_. 4)]"

theorem partitioned_no_stale_value_witness:
  "\<exists>b \<in> possible_run demo_env demo_calls (snd (cluster_run demo_env demo_calls (demo_world Partitioned))) (\<lambda>_. {}) ''k''.
     Deserialize (unmarshal_any (eMsgpack demo_env)) b DestBytes = Inr (GBytes [2])"
proof -
  have g: "snd (cache_Get demo_env (\<lambda>_. 5) NoFault ''a1'' ''k'' DestBytes
      (fst (cluster_run demo_env demo_calls (demo_world Partitioned)))) = Some (GBytes [2])"
    by code_simp
  have "list_all clock_ok demo_calls" by (simp add: demo_calls_def)
  from partitioned_no_stale_value [OF demo_clash_free2 demo_agreed demo_all_empty demo_codec_ok this
      surjective_pairing surjective_pairing [of "cache_Get demo_env (\<lambda>_. 5) NoFault ''a1'' ''k'' DestBytes
      (fst (cluster_run demo_env demo_calls (demo_world Partitioned)))", unfolded g]]
  show ?thesis .
qed

lemma cache_Set_ok:
  assumes r: "routed own w" and ok: "codec_ok (eCodec env)" and l: "listening own k w" and k: "k \<noteq> ''''"
    and open_: "\<not> is_closed self w" and b: "Serialize (marshal_any (eMsgpack env)) v = Inr b"
    and s: "stores w (own k) = Some s"
  shows "\<exists>w'. cache_Set env clk ts NoFault self k v d w = (w', None) \<and> roles w' = roles w \<and>
    stores w' = (stores w)(own k \<mapsto> fst (st_Set (eApi env) (clk 0) k b (set_ttl self d w) s))"
proof -
  obtain c where c: "gm_get w self = Some c" using not_closed [OF open_] by blast
  obtain w' res where e: "cache_Set env clk ts NoFault self k v d w = (w', res)"
    by (cases "cache_Set env clk ts NoFault self k v d w")
  have "snd (distributedSet env clk NoFault self k b (set_ttl self d w) [] w) = None"
    by (rule distributedSet_ok [OF r ok c l])
  then have res: "res = None"
    using e k open_ b
    by (cases "distributedSet env clk NoFault self k b (set_ttl self d w) [] w")
      (simp add: cache_Set_def set_ttl_def [symmetric] Let_def)
  then show ?thesis using cache_Set_effect [OF r ok e] e b s by (auto simp: at_owner_def)
qed

lemma cache_Get_ok:
  assumes r: "routed own w" and ok: "codec_ok (eCodec env)" and l: "listening own k w" and k: "k \<noteq> ''''"
    and open_: "\<not> is_closed self w" and s: "stores w (own k) = Some s"
  shows "snd (cache_Get env clk NoFault self k dest w) =
    (case snd (st_Get (eApi env) (clk 0) k s) of
       None \<Rightarrow> None
     | Some b \<Rightarrow> (case Deserialize (unmarshal_any (eMsgpack env)) b dest of Inl err \<Rightarrow> None | Inr v \<Rightarrow> Some v))"
proof -
  obtain c where c: "gm_get w self = Some c" using not_closed [OF open_] by blast
  show ?thesis
    using distributedGet_ok [OF r ok c l s, of clk] k open_
    by (cases "distributedGet env clk NoFault self k w") (auto simp: cache_Get_def split: option.splits sum.splits)
qed

text \<open>C6: Read your writes across nodes. When nodes that agree on the members can reach the owner of a key,
  a \<open>Set\<close> at one node reports success, and a \<open>Get\<close> at any other node then answers the value that was set
  until it expires, and misses afterwards.\<close>

theorem partitioned_get_after_set:
  assumes "clash_free v M" "agreed v M addr w" "codec_ok (eCodec env)"
    and "\<not> is_closed self w" "\<not> is_closed self' w" "key \<noteq> ''''"
    and "gm_get w self = Some c" "gm_get w (owner_node self key c) = Some p" "\<not> cStopped p"
    and "st_inv (eApi env) (cStore p)" "d = set_ttl self ttl w" "st_keeps (cStore p) (clk 0) key b d" "nano_clock (clk' 0)"
    and "Serialize (marshal_any (eMsgpack env)) val = Inr b"
    and "Deserialize (unmarshal_any (eMsgpack env)) b dest = Inr val'"
  shows "\<exists>w'. cache_Set env clk ts NoFault self key val ttl w = (w', None) \<and>
    snd (cache_Get env clk' NoFault self' key dest w') =
      (if pos64 d \<and> time_add (clk 0) d < clk' 0 then None else Some val')"
proof -
  obtain own where r: "routed own w" using agreed_routed_ex [OF assms(1,2)] by blast
  have o: "owner_node self key c = own key" by (rule owner_node_routed [OF r assms(7)])
  have l: "listening own key w" using assms(8,9) by (simp add: listening_def o)
  have s: "stores w (own key) = Some (cStore p)" using assms(8) by (simp add: o views_at)
  let ?s' = "fst (st_Set (eApi env) (clk 0) key b d (cStore p))"
  obtain w' where w': "cache_Set env clk ts NoFault self key val ttl w = (w', None)" "roles w' = roles w"
    "stores w' = (stores w)(own key \<mapsto> ?s')"
    using cache_Set_ok [OF r assms(3) l assms(6,4,14) s, of clk ts ttl] assms(11) by blast
  have st: "snd (st_Get (eApi env) (clk' 0) key ?s') = (if pos64 d \<and> time_add (clk 0) d < clk' 0 then None else Some b)"
    by (rule backend.get_after_put [OF assms(10,13,12)])
  have l': "listening own key w'" and open': "\<not> is_closed self' w'" and s': "stores w' (own key) = Some ?s'"
    using listening_roles [OF w'(2)] is_closed_roles [OF w'(2)] l assms(5) w'(3) by simp_all
  have "snd (cache_Get env clk' NoFault self' key dest w') =
      (if pos64 d \<and> time_add (clk 0) d < clk' 0 then None else Some val')"
    unfolding cache_Get_ok [OF routed_roles [OF r w'(2)] assms(3) l' assms(6) open' s'] st by (simp add: assms(15))
  then show ?thesis using w'(1) by blast
qed

theorem partitioned_get_after_set_witness:
  "\<exists>w'. cache_Set demo_env (\<lambda>_. 1) 1 NoFault ''a1'' ''k'' (GVal ()) 10 (demo_world Partitioned) = (w', None) \<and>
     snd (cache_Get demo_env (\<lambda>_. 11) NoFault ''a2'' ''k'' (DestVal ()) w') = Some (GVal ())"
proof -
  let ?w = "demo_world Partitioned"
  obtain c where c: "gm_get ?w ''a1'' = Some c" and cl: "\<not> is_closed ''a1'' ?w" "\<not> is_closed ''a2'' ?w"
    by (simp add: demo_world_def is_closed_def demo_cache_def)
  have own: "owner_node ''a1'' ''k'' c \<in> {''a1'', ''a2''}"
  proof -
    have "owner_node ''a1'' ''k'' (demo_cache Partitioned ''n1'') \<in> {''a1'', ''a2''}" by code_simp
    then show ?thesis using c by (simp add: demo_world_def)
  qed
  then obtain s where p: "gm_get ?w (owner_node ''a1'' ''k'' c) = Some (demo_cache Partitioned s)"
    by (auto simp: demo_world_def)
  have st: "\<not> cStopped (demo_cache Partitioned s)" "st_inv (eApi demo_env) (cStore (demo_cache Partitioned s))"
    "st_keeps (cStore (demo_cache Partitioned s)) ((\<lambda>_. 1) 0) ''k'' [7] 10"
    by (simp_all add: demo_cache_def demo_env_def st_inv_def pebble_ok_list st_keeps_def ps_fits_def nano_clock_def
        time_add_def)
  have "Serialize (marshal_any (eMsgpack demo_env)) (GVal ()) = Inr [7]"
    "Deserialize (unmarshal_any (eMsgpack demo_env)) [7] (DestVal ()) = Inr (GVal ())"
    by (simp_all add: demo_env_def demo_msgpack_def msgpack.defs)
  from partitioned_get_after_set [OF demo_clash_free2 demo_agreed demo_codec_ok(1) cl _ c p st(1,2) _ st(3) _ this,
      of 10 "\<lambda>_. 11" 1]
  show ?thesis by (simp add: set_ttl_def nano_clock_def pos64_def time_add_def)
qed



end
