(* ===== verification/Mode_Props.thy ===== *)
theory Mode_Props
  imports Cluster_Props
begin

text \<open>
  The two other modes. In replicated mode a write returns before its copies have been sent: they converge
  once the copies have arrived, unless two copies overtake each other. In near-cache mode every reader keeps
  a copy of its own, which nothing invalidates.
\<close>

section \<open>Near caches\<close>

text \<open>A write in near-cache mode touches the store of the writer and of the owner only.\<close>

lemma nearcache_Set_frame:
  assumes ok: "codec_ok (eCodec env)" and c: "gm_get w self = Some c" "mode (cConfig c) = NearCache"
    and a: "a \<noteq> self" "a \<noteq> ownerAddr k c" and ne: "ownerAddr k c \<noteq> self"
  shows "roles (fst (distributedSet env clk ft self k b d tags w)) = roles w \<and>
    stores (fst (distributedSet env clk ft self k b d tags w)) a = stores w a"
proof -
  let ?w1 = "gm_set self (node_Set env (clk 0) k b d c) w"
  have v: "roles ?w1 = roles w" "stores ?w1 a = stores w a" using a(1) same_node(2) [OF c(1)] by simp_all
  show ?thesis
  proof (cases "ownerAddr k c = ''''")
    case True
    then have "fst (distributedSet env clk ft self k b d tags w) = ?w1" using c by (simp add: distributedSet_def)
    then show ?thesis using v by simp
  next
    case False
    obtain w' q where q: "call env (\<lambda>i. clk (Suc i)) [] ft self (ownerAddr k c) (set_request k b d tags) ?w1 = (w', q)"
      by (cases "call env (\<lambda>i. clk (Suc i)) [] ft self (ownerAddr k c) (set_request k b d tags) ?w1")
    then have w': "fst (distributedSet env clk ft self k b d tags w) = w'"
      using c False by (simp add: distributedSet_def RemoteSet_def Let_def split: sum.splits)
    show ?thesis
      using call_effect [OF ok ne [symmetric] q] v a(2) unfolding w' by (auto simp: processed_def)
  qed
qed

lemma nearcache_Delete_frame:
  assumes ok: "codec_ok (eCodec env)" and c: "gm_get w self = Some c" "mode (cConfig c) = NearCache"
    and a: "a \<noteq> self" "a \<noteq> ownerAddr k c" and ne: "ownerAddr k c \<noteq> self"
  shows "roles (distributedDelete env clk ft self k w) = roles w \<and>
    stores (distributedDelete env clk ft self k w) a = stores w a"
proof -
  let ?w1 = "gm_set self (fst (node_Delete env k c)) w"
  have v: "roles ?w1 = roles w" "stores ?w1 a = stores w a" using a(1) same_node(2) [OF c(1)] by simp_all
  show ?thesis
  proof (cases "ownerAddr k c = ''''")
    case True
    then have "distributedDelete env clk ft self k w = ?w1" using c by (simp add: distributedDelete_def)
    then show ?thesis using v by simp
  next
    case False
    obtain w' q where q: "call env clk [] ft self (ownerAddr k c) (delete_request k) ?w1 = (w', q)"
      by (cases "call env clk [] ft self (ownerAddr k c) (delete_request k) ?w1")
    then have w': "distributedDelete env clk ft self k w = w'"
      using c False by (simp add: distributedDelete_def RemoteDelete_def Let_def split: sum.splits)
    show ?thesis
      using call_effect [OF ok ne [symmetric] q] v a(2) unfolding w' by (auto simp: processed_def)
  qed
qed

text \<open>A reader that has a copy answers it.\<close>

lemma nearcache_local_hit:
  assumes c: "gm_get w self = Some c" "mode (cConfig c) = NearCache" "\<not> cClosed c" and k: "k \<noteq> ''''"
    and b: "snd (st_Get (eApi env) (clk 0) k (cStore c)) = Some b"
    and v: "Deserialize (unmarshal_any (eMsgpack env)) b dest = Inr v"
  shows "snd (cache_Get env clk ft self k dest w) = Some v"
proof -
  have "snd (distributedGet env clk ft self k w) = Some b"
    using c b by (simp add: distributedGet_def Let_def case_prod_unfold)
  then show ?thesis
    using c k v by (cases "distributedGet env clk ft self k w") (simp add: cache_Get_def is_closed_def)
qed

lemma nearcache_hit_views:
  assumes "roles w' self = Some (role c)" "stores w' self = Some (cStore c)"
  shows "\<exists>c'. gm_get w' self = Some c' \<and> cConfig c' = cConfig c \<and> cClosed c' = cClosed c \<and> cStore c' = cStore c"
  using assms by (auto simp: roles_def stores_def role_def)

text \<open>The first read of a key at a node that is not its owner leaves a copy with the default lifetime.\<close>

lemma nearcache_first_read:
  assumes ok: "codec_ok (eCodec env)" and c: "gm_get w self = Some c" "mode (cConfig c) = NearCache" "\<not> cClosed c"
    and k: "k \<noteq> ''''" "ownerAddr k c \<noteq> ''''" "ownerAddr k c \<noteq> self"
    and p: "gm_get w (ownerAddr k c) = Some p" "\<not> cStopped p"
    and miss: "snd (st_Get (eApi env) (clk 0) k (cStore c)) = None"
    and hit: "snd (st_Get (eApi env) (clk 1) k (cStore p)) = Some b"
  shows "roles (fst (cache_Get env clk NoFault self k dest w)) = roles w \<and>
    stores (fst (cache_Get env clk NoFault self k dest w)) self =
      Some (fst (st_Set (eApi env) (clk 2) k b (DefaultTTL (cConfig c)) (fst (st_Get (eApi env) (clk 0) k (cStore c)))))"
proof -
  let ?o = "ownerAddr k c" and ?req = "zero_request\<lparr>rOp := opGet, rKey := k\<rparr>"
  define c1 where "c1 = fst (node_Get env (clk 0) k c)"
  define w1 where "w1 = gm_set self c1 w"
  have g: "node_Get env (clk 0) k c = (c1, None)"
    using miss store_node_ops(3) [of env "clk 0" k c] by (simp add: c1_def prod_eq_iff)
  have rc: "role c1 = role c" by (simp add: c1_def)
  have own: "ownerAddr k c1 = ?o" by (rule ownerAddr_role [OF rc])
  have v1: "roles w1 = roles w" using rc same_node(2) [OF c(1)] by (simp add: w1_def)
  have p1: "gm_get w1 ?o = Some p" using p(1) k(3) by (simp add: w1_def)
  have "pError (snd (processRequest env (\<lambda>i. clk (Suc i)) [] ?req p)) = ''''" by (simp add: process_get split: option.split)
  from call_answered [OF ok k(3) [symmetric] _ p1 p(2) this] obtain w2
    where q: "call env (\<lambda>i. clk (Suc i)) [] NoFault self ?o ?req w1 =
      (w2, Inr (snd (processRequest env (\<lambda>i. clk (Suc i)) [] ?req p)))"
    by (auto simp: w1_def)
  have r: "RemoteGet env (\<lambda>i. clk (Suc i)) NoFault self ?o k w1 = (w2, Inr (Some b))"
    using q hit by (simp add: RemoteGet_def process_get)
  have v2: "roles w2 = roles w" "stores w2 self = Some (cStore c1)"
    using call_effect [OF ok k(3) [symmetric] q] v1 k(3) by (auto simp: processed_def w1_def)
  then obtain c2 where c2: "gm_get w2 self = Some c2" "cStore c2 = cStore c1" by (auto simp: stores_def)
  define w3 where "w3 = on_node self (node_Set env (clk 2) k b (DefaultTTL (cConfig c))) w2"
  have d: "distributedGet env clk NoFault self k w = (w3, Some b)"
    using c g own r k(2) by (simp add: distributedGet_def w1_def [symmetric] w3_def Let_def)
  have v3: "roles w3 = roles w" "stores w3 self = Some (fst (st_Set (eApi env) (clk 2) k b (DefaultTTL (cConfig c)) (cStore c1)))"
    using c2 v2(1) same_node(2) [OF c2(1)] by (simp_all add: w3_def on_node_def)
  have "roles (fst (cache_Get env clk NoFault self k dest w)) = roles w3 \<and>
      stores (fst (cache_Get env clk NoFault self k dest w)) = stores w3"
    using c k(1) d by (auto simp: cache_Get_def is_closed_def views_fire_publish split: sum.splits)
  then show ?thesis using v3 by (simp add: c1_def)
qed

section \<open>Properties of near caches\<close>

text \<open>C31: Near-cache copies are never invalidated. As long as the store of a node holds a copy of a key, \<open>Get\<close>
  at that node answers the copy, whatever another node has set or deleted in between (and whether or not its
  calls to the owner got through), unless the node itself owns the key.\<close>

theorem nearcache_serves_stale:
  assumes "codec_ok (eCodec env)" "gm_get w self = Some c" "mode (cConfig c) = NearCache" "\<not> cClosed c" "key \<noteq> ''''"
    and "snd (st_Get (eApi env) (clk' 0) key (cStore c)) = Some b"
    and "Deserialize (unmarshal_any (eMsgpack env)) b dest = Inr val"
    and "gm_get w other = Some c2" "mode (cConfig c2) = NearCache"
    and "other \<noteq> self" "ownerAddr key c2 \<noteq> self" "ownerAddr key c2 \<noteq> other"
  shows "snd (cache_Get env clk' ft' self key dest (fst (cache_Set env clk ts ft other key val2 ttl w))) = Some val \<and>
    snd (cache_Get env clk' ft' self key dest (cache_Delete env clk ts ft other key w)) = Some val"
proof -
  have hit: "snd (cache_Get env clk' ft' self key dest w') = Some val"
    if v: "roles w' = roles w" "stores w' self = stores w self" for w'
  proof -
    obtain c' where "gm_get w' self = Some c'" "cConfig c' = cConfig c" "cClosed c' = cClosed c" "cStore c' = cStore c"
      using nearcache_hit_views [of w' self c] v views_at [OF assms(2)] by auto
    then show ?thesis using nearcache_local_hit [of w' self c' key env clk' b dest val ft'] assms(3-7) by simp
  qed
  have s: "roles (fst (cache_Set env clk ts ft other key val2 ttl w)) = roles w \<and>
      stores (fst (cache_Set env clk ts ft other key val2 ttl w)) self = stores w self"
  proof (cases "Serialize (marshal_any (eMsgpack env)) val2")
    case (Inr bb)
    have f: "roles (fst (distributedSet env clk ft other key bb dd [] w)) = roles w \<and>
        stores (fst (distributedSet env clk ft other key bb dd [] w)) self = stores w self" for dd
      by (rule nearcache_Set_frame [OF assms(1,8,9)]) (use assms(10-12) in auto)
    show ?thesis
      using f [of "set_ttl other ttl w"] Inr assms(5)
      by (cases "distributedSet env clk ft other key bb (set_ttl other ttl w) [] w")
        (auto simp: cache_Set_def set_ttl_def [symmetric] Let_def views_fire_publish split: option.splits)
  qed (simp add: cache_Set_def)
  have d: "roles (cache_Delete env clk ts ft other key w) = roles w \<and>
      stores (cache_Delete env clk ts ft other key w) self = stores w self"
  proof (cases "is_closed other w")
    case False
    have "roles (distributedDelete env clk ft other key w) = roles w \<and>
        stores (distributedDelete env clk ft other key w) self = stores w self"
      by (rule nearcache_Delete_frame [OF assms(1,8,9)]) (use assms(10-12) in auto)
    then show ?thesis using False assms(5) by (simp add: cache_Delete_def Let_def stores_on_node roles_on_node)
  qed (simp add: cache_Delete_def)
  show ?thesis using hit s d by blast
qed

text \<open>The key \<open>k\<close> belongs to the node at \<open>a2\<close>; the node at \<open>a1\<close> has set it and keeps a copy.\<close>

definition demo_near :: "(string, bytes) gomap world" where
  "demo_near = fst (cache_Set demo_env (\<lambda>_. 1) 1 NoFault ''a1'' ''k'' (GBytes [1]) 10 (demo_world NearCache))"

lemma demo_near_nodes:
  obtains c c2 where "gm_get demo_near ''a1'' = Some c" "mode (cConfig c) = NearCache" "\<not> cClosed c"
    "snd (st_Get (eApi demo_env) 5 ''k'' (cStore c)) = Some [1]"
    "gm_get demo_near ''a2'' = Some c2" "mode (cConfig c2) = NearCache" "ownerAddr ''k'' c2 = ''''"
proof -
  have "map_option (\<lambda>c. (mode (cConfig c), cClosed c, snd (st_Get (eApi demo_env) 5 ''k'' (cStore c))))
      (gm_get demo_near ''a1'') = Some (NearCache, False, Some [1])"
    by code_simp
  moreover have "map_option (\<lambda>c. (mode (cConfig c), ownerAddr ''k'' c)) (gm_get demo_near ''a2'') = Some (NearCache, '''')"
    by code_simp
  ultimately show ?thesis by (auto intro: that)
qed

theorem nearcache_serves_stale_witness:
  "snd (cache_Get demo_env (\<lambda>_. 5) NoFault ''a1'' ''k'' DestBytes
     (fst (cache_Set demo_env (\<lambda>_. 3) 3 NoFault ''a2'' ''k'' (GBytes [2]) 0 demo_near))) = Some (GBytes [1]) \<and>
   snd (cache_Get demo_env (\<lambda>_. 5) NoFault ''a1'' ''k'' DestBytes
     (cache_Delete demo_env (\<lambda>_. 3) 3 NoFault ''a2'' ''k'' demo_near)) = Some (GBytes [1])"
proof -
  obtain c c2 where c: "gm_get demo_near ''a1'' = Some c" "mode (cConfig c) = NearCache" "\<not> cClosed c"
    "snd (st_Get (eApi demo_env) 5 ''k'' (cStore c)) = Some [1]"
    and c2: "gm_get demo_near ''a2'' = Some c2" "mode (cConfig c2) = NearCache" "ownerAddr ''k'' c2 = ''''"
    by (rule demo_near_nodes)
  show ?thesis
    by (rule nearcache_serves_stale [OF demo_codec_ok(1) c(1-3) _ _ _ c2(1,2), where b = "[1]"]) (use c(4) c2(3) in simp_all)
qed

text \<open>C32: A near-cache copy outlives its original. When a node that is not the owner of a key reads it for the
  first time, the copy it keeps gets the default lifetime (none, in the default configuration) and not what is
  left of the lifetime of the key: with no default lifetime it answers the value at every later time,
  even long after the key has expired at its owner.\<close>

theorem nearcache_copy_outlives_ttl:
  assumes "codec_ok (eCodec env)" "gm_get w self = Some c" "mode (cConfig c) = NearCache" "\<not> cClosed c" "key \<noteq> ''''"
    and "ownerAddr key c \<noteq> ''''" "ownerAddr key c \<noteq> self" "gm_get w (ownerAddr key c) = Some p" "\<not> cStopped p"
    and "snd (st_Get (eApi env) (clk 0) key (cStore c)) = None" "snd (st_Get (eApi env) (clk 1) key (cStore p)) = Some b"
    and "st_inv (eApi env) (cStore c)" "DefaultTTL (cConfig c) = 0"
    and "st_keeps (fst (st_Get (eApi env) (clk 0) key (cStore c))) (clk 2) key b 0" "nano_clock (clk' 0)"
    and "Deserialize (unmarshal_any (eMsgpack env)) b dest = Inr val"
  shows "snd (cache_Get env clk' ft' self key dest (fst (cache_Get env clk NoFault self key dest w))) = Some val"
proof -
  let ?w' = "fst (cache_Get env clk NoFault self key dest w)"
  let ?s = "fst (st_Set (eApi env) (clk 2) key b 0 (fst (st_Get (eApi env) (clk 0) key (cStore c))))"
  have v: "roles ?w' = roles w" "stores ?w' self = Some ?s"
    using nearcache_first_read [OF assms(1-11), of dest] assms(13) by simp_all
  have "roles ?w' self = Some (role (c\<lparr>cStore := ?s\<rparr>))" "stores ?w' self = Some (cStore (c\<lparr>cStore := ?s\<rparr>))"
    using v views_at(2) [OF assms(2)] by simp_all
  from nearcache_hit_views [OF this] obtain c' where c': "gm_get ?w' self = Some c'" "cConfig c' = cConfig c"
    "cClosed c' = cClosed c" "cStore c' = ?s"
    by auto
  have "snd (st_Get (eApi env) (clk' 0) key ?s) = Some b"
    using backend.get_after_put [OF backend.inv_get [OF assms(12)] assms(15,14)] by simp
  then show ?thesis
    using nearcache_local_hit [of ?w' self c' key env clk' b dest val ft'] c' assms(3-5,16) by simp
qed

theorem nearcache_copy_outlives_ttl_witness:
  "(let w = fst (cache_Set demo_env (\<lambda>_. 1) 1 NoFault ''a2'' ''k'' (GBytes [1]) 10 (demo_world NearCache));
        w' = fst (cache_Get demo_env (\<lambda>_. 5) NoFault ''a1'' ''k'' DestBytes w)
    in snd (cache_Get demo_env (\<lambda>_. 1000) NoFault ''a1'' ''k'' DestBytes w') = Some (GBytes [1]) \<and>
       snd (cache_Get demo_env (\<lambda>_. 1000) NoFault ''a2'' ''k'' DestBytes w') = None)"
proof -
  define w where "w = fst (cache_Set demo_env (\<lambda>_. 1) 1 NoFault ''a2'' ''k'' (GBytes [1]) 10 (demo_world NearCache))"
  have "map_option (\<lambda>c. (mode (cConfig c), cClosed c, ownerAddr ''k'' c, DefaultTTL (cConfig c),
      snd (st_Get (eApi demo_env) 5 ''k'' (cStore c)), case cStore c of DiskStore p \<Rightarrow> True | _ \<Rightarrow> False))
      (gm_get w ''a1'') = Some (NearCache, False, ''a2'', 0, None, True)"
    unfolding w_def by code_simp
  then obtain c where c: "gm_get w ''a1'' = Some c" "mode (cConfig c) = NearCache" "\<not> cClosed c" "ownerAddr ''k'' c = ''a2''"
    "DefaultTTL (cConfig c) = 0" "snd (st_Get (eApi demo_env) 5 ''k'' (cStore c)) = None"
    and d: "case cStore c of DiskStore p \<Rightarrow> True | _ \<Rightarrow> False"
    by auto
  obtain q where q: "cStore c = DiskStore q" using d by (cases "cStore c") auto
  have "map_option (\<lambda>c. (cStopped c, snd (st_Get (eApi demo_env) 5 ''k'' (cStore c)))) (gm_get w ''a2'') = Some (False, Some [1])"
    unfolding w_def by code_simp
  then obtain p where p: "gm_get w ''a2'' = Some p" "\<not> cStopped p" "snd (st_Get (eApi demo_env) 5 ''k'' (cStore p)) = Some [1]"
    by auto
  have api: "eApi demo_env = list_pebble" by (simp add: demo_env_def)
  have k: "st_inv (eApi demo_env) (cStore c)" "st_keeps (fst (st_Get (eApi demo_env) 5 ''k'' (cStore c))) 5 ''k'' [1] 0"
    using q by (simp_all add: api st_inv_def pebble_ok_list st_keeps_def st_Get_def ps_fits_def split: prod.split)
  have "snd (cache_Get demo_env (\<lambda>_. 1000) NoFault ''a1'' ''k'' DestBytes
      (fst (cache_Get demo_env (\<lambda>_. 5) NoFault ''a1'' ''k'' DestBytes w))) = Some (GBytes [1])"
    by (rule nearcache_copy_outlives_ttl [OF demo_codec_ok(1) c(1-3), where p = p and b = "[1]"])
      (use c(4-6) p k in \<open>simp_all add: nano_clock_def\<close>)
  moreover have "snd (cache_Get demo_env (\<lambda>_. 1000) NoFault ''a2'' ''k'' DestBytes
      (fst (cache_Get demo_env (\<lambda>_. 5) NoFault ''a1'' ''k'' DestBytes w))) = None"
    unfolding w_def by code_simp
  ultimately show ?thesis by (simp add: w_def [symmetric] Let_def)
qed

end
