(* ===== verification/Replicated.thy ===== *)
theory Replicated
  imports Cluster_Props
begin

text \<open>
  The replicated mode: a write changes the store of the caller and starts one goroutine for each other live
  node. The goroutines run later, one by one, in any order: \<open>run_spawned\<close> runs the pending call with the given
  number. The copies converge when they have all run, for one write; two writes can overtake each other.
\<close>

section \<open>Pending copies\<close>

definition pending :: "string \<Rightarrow> 'd world \<Rightarrow> (string \<times> request) list" where
  "pending self w = node_at self w cSpawned []"

fun run_pending ::
    "('d, 'v, 'x, 'w) env \<Rightarrow> (nat \<Rightarrow> nat \<Rightarrow> instant) \<Rightarrow> string \<Rightarrow> nat \<Rightarrow> nat list \<Rightarrow> 'd world \<Rightarrow> 'd world" where
  "run_pending env clk self j [] w = w"
| "run_pending env clk self j (i # sched) w =
     run_pending env clk self (Suc j) sched (run_spawned env (clk j) NoFault self i w)"

lemma spawned_side_effects [simp]:
  "cSpawned (fire f c) = cSpawned c" "cSpawned (do_publish t ty k v c) = cSpawned c" "cSpawned (pooled a c) = cSpawned c"
  "cSpawned (node_Set env t k b d c) = cSpawned c"
  by (simp_all add: fire_def do_publish_def pooled_def node_Set_def split: option.split prod.split)

text \<open>Running one pending copy.\<close>

lemma run_spawned_set:
  assumes ok: "codec_ok (eCodec env)" and c: "gm_get w self = Some c"
    and i: "i < length (cSpawned c)" "cSpawned c ! i = (a, set_request k b d tags)"
    and p: "gm_get w a = Some p" "\<not> cStopped p" and ne: "self \<noteq> a"
  shows "roles (run_spawned env clk NoFault self i w) = roles w"
    and "stores (run_spawned env clk NoFault self i w) =
      (stores w)(a \<mapsto> fst (st_Set (eApi env) (clk 0) k b d (cStore p)))"
    and "pending self (run_spawned env clk NoFault self i w) = take i (pending self w) @ drop (Suc i) (pending self w)"
proof -
  define c' where "c' = c\<lparr>cSpawned := take i (cSpawned c) @ drop (Suc i) (cSpawned c)\<rparr>"
  have v: "role c' = role c" "cStore c' = cStore c" "cSpawned c' = take i (cSpawned c) @ drop (Suc i) (cSpawned c)"
    by (simp_all add: c'_def)
  have "run_spawned env clk NoFault self i w = fst (call env clk [] NoFault self a (set_request k b d tags) (gm_set self c' w))"
    using c i by (simp add: run_spawned_def c'_def)
  also have "call env clk [] NoFault self a (set_request k b d tags) (gm_set self c' w) =
      (gm_set a (HandleSet env (clk 0) k b d tags p) (gm_set self (pooled a c') (gm_set self c' w)),
       Inr (zero_response\<lparr>pOK := True\<rparr>))"
    using call_ok [OF ok _ _ p(2) ne process_set, of "gm_set self c' w" c'] p(1) ne by simp
  finally have w': "run_spawned env clk NoFault self i w =
      gm_set a (HandleSet env (clk 0) k b d tags p) (gm_set self (pooled a c') (gm_set self c' w))"
    by simp
  show "roles (run_spawned env clk NoFault self i w) = roles w"
    using same_node(2) [OF c] same_node(2) [OF p(1)] ne v by (simp add: w' fun_upd_twist)
  show "stores (run_spawned env clk NoFault self i w) = (stores w)(a \<mapsto> fst (st_Set (eApi env) (clk 0) k b d (cStore p)))"
    using same_node(1) [OF c] v by (simp add: w')
  show "pending self (run_spawned env clk NoFault self i w) = take i (pending self w) @ drop (Suc i) (pending self w)"
    using c ne v by (simp add: w' pending_def node_at_def)
qed

text \<open>A write in replicated mode.\<close>

lemma replicated_Set:
  assumes c: "gm_get w self = Some c" "mode (cConfig c) = Replicated" "\<not> cClosed c" and k: "k \<noteq> ''''"
    and b: "Serialize (marshal_any (eMsgpack env)) v = Inr b"
  shows "\<exists>w'. cache_Set env clk ts ft self k v d w = (w', None) \<and> roles w' = roles w \<and>
    stores w' = (stores w)(self \<mapsto> fst (st_Set (eApi env) (clk 0) k b (set_ttl self d w) (cStore c))) \<and>
    pending self w' = pending self w @ map (\<lambda>a. (a, set_request k b (set_ttl self d w) [])) (replicas c)"
proof -
  define c1 where "c1 = spawn (replicas c) (set_request k b (set_ttl self d w) [])
    (node_Set env (clk 0) k b (set_ttl self d w) c)"
  define w' where "w' = on_node self (\<lambda>c. fire (FireSet k b) (do_publish ts EventSet k b c)) (gm_set self c1 w)"
  have "distributedSet env clk ft self k b (set_ttl self d w) [] w = (gm_set self c1 w, None)"
    using c(1,2) by (simp add: distributedSet_def c1_def)
  then have "cache_Set env clk ts ft self k v d w = (w', None)"
    using c k b by (simp add: cache_Set_def is_closed_def set_ttl_def [symmetric] w'_def)
  moreover have "role c1 = role c"
    "cStore c1 = fst (st_Set (eApi env) (clk 0) k b (set_ttl self d w) (cStore c))"
    "cSpawned c1 = cSpawned c @ map (\<lambda>a. (a, set_request k b (set_ttl self d w) [])) (replicas c)"
    by (simp_all add: c1_def spawn_def)
  then have "roles w' = roles w"
    "stores w' = (stores w)(self \<mapsto> fst (st_Set (eApi env) (clk 0) k b (set_ttl self d w) (cStore c)))"
    "pending self w' = pending self w @ map (\<lambda>a. (a, set_request k b (set_ttl self d w) [])) (replicas c)"
    using c(1) same_node(2) [OF c(1)]
    by (simp_all add: w'_def views_fire_publish) (simp add: on_node_def pending_def node_at_def)
  ultimately show ?thesis by blast
qed

text \<open>
  All copies of one write, in any order. \<open>S\<close> is the content before; the invariant: what is still pending has
  not been written, and every other replica has been written once.
\<close>

lemma run_pending_copies:
  assumes "codec_ok (eCodec env)"
    and "pending self w = map (\<lambda>a. (a, set_request k b d [])) as" "distinct as" "self \<notin> set as"
    and "\<And>a. a \<in> set as \<Longrightarrow> listening (\<lambda>_. a) k w"
    and "pending self (run_pending env clk self j sched w) = []"
  shows "roles (run_pending env clk self j sched w) = roles w \<and>
    (\<forall>a. a \<notin> set as \<longrightarrow> stores (run_pending env clk self j sched w) a = stores w a) \<and>
    (\<forall>a \<in> set as. \<exists>t s. stores w a = Some s \<and>
       stores (run_pending env clk self j sched w) a = Some (fst (st_Set (eApi env) t k b d s)))"
  using assms
proof (induction sched arbitrary: w as j)
  case Nil
  then show ?case by simp
next
  case (Cons i sched)
  let ?w1 = "run_spawned env (clk j) NoFault self i w"
  show ?case
  proof (cases "i < length as")
    case False
    then have "?w1 = w" using Cons.prems(2) by (auto simp: run_spawned_def pending_def node_at_def split: option.splits)
    then show ?thesis using Cons.IH [OF Cons.prems(1-5), of "Suc j"] Cons.prems(6) by simp
  next
    case True
    then obtain c where c: "gm_get w self = Some c" "cSpawned c = map (\<lambda>a. (a, set_request k b d [])) as"
      using Cons.prems(2) by (cases "gm_get w self") (auto simp: pending_def node_at_def)
    let ?a = "as ! i" and ?as = "take i as @ drop (Suc i) as"
    have a: "?a \<in> set as" "self \<noteq> ?a" using True Cons.prems(4) by (auto dest: nth_mem)
    obtain p where p: "gm_get w ?a = Some p" "\<not> cStopped p" using Cons.prems(5) [OF a(1)] by (auto simp: listening_def)
    have nth: "i < length (cSpawned c)" "cSpawned c ! i = (?a, set_request k b d [])" using True c(2) by simp_all
    note s = run_spawned_set [OF Cons.prems(1) c(1) nth p a(2), of "clk j"]
    have split: "as = take i as @ ?a # drop (Suc i) as" by (rule id_take_nth_drop [OF True])
    have d': "distinct (take i as @ ?a # drop (Suc i) as)" using Cons.prems(3) split by metis
    have sub: "set as = insert ?a (set ?as)" by (subst split) simp
    have das: "distinct ?as" "?a \<notin> set ?as" using d' by auto
    have pend: "pending self ?w1 = map (\<lambda>a. (a, set_request k b d [])) ?as"
      using s(3) Cons.prems(2) by (simp add: take_map drop_map)
    have l: "listening (\<lambda>_. a) k ?w1" if "a \<in> set ?as" for a
      using Cons.prems(5) [of a] that sub listening_roles [OF s(1)] by auto
    have "self \<notin> set ?as" using Cons.prems(4) sub by blast
    note ih = Cons.IH [OF Cons.prems(1) pend das(1) this l, of "Suc j"]
    let ?w' = "run_pending env clk self (Suc j) sched ?w1"
    have ih: "roles ?w' = roles ?w1" "\<And>a. a \<notin> set ?as \<Longrightarrow> stores ?w' a = stores ?w1 a"
      "\<And>a. a \<in> set ?as \<Longrightarrow> \<exists>t s. stores ?w1 a = Some s \<and> stores ?w' a = Some (fst (st_Set (eApi env) t k b d s))"
      using ih Cons.prems(6) by simp_all
    have "\<exists>t s. stores w x = Some s \<and> stores ?w' x = Some (fst (st_Set (eApi env) t k b d s))" if "x \<in> set as" for x
    proof (cases "x = ?a")
      case True
      then show ?thesis using ih(2) [OF das(2)] s(2) p(1) by (auto simp: views_at)
    next
      case False
      then show ?thesis using ih(3) [of x] that sub s(2) by auto
    qed
    moreover have "stores ?w' x = stores w x" if "x \<notin> set as" for x
      using ih(2) [of x] that sub s(2) by auto
    ultimately show ?thesis using ih(1) s(1) by simp
  qed
qed

text \<open>The pending list drains when its first entry is run often enough.\<close>

lemma run_pending_drains:
  assumes "codec_ok (eCodec env)"
    and "pending self w = map (\<lambda>a. (a, set_request k b d [])) as" "self \<notin> set as"
    and "\<And>a. a \<in> set as \<Longrightarrow> listening (\<lambda>_. a) k w"
  shows "pending self (run_pending env clk self j (replicate (length as) 0) w) = []"
  using assms
proof (induction as arbitrary: w j)
  case (Cons a as)
  then obtain c where c: "gm_get w self = Some c" "cSpawned c = map (\<lambda>a. (a, set_request k b d [])) (a # as)"
    by (cases "gm_get w self") (auto simp: pending_def node_at_def)
  obtain p where p: "gm_get w a = Some p" "\<not> cStopped p" using Cons.prems(4) [of a] by (auto simp: listening_def)
  have nth: "0 < length (cSpawned c)" "cSpawned c ! 0 = (a, set_request k b d [])" using c(2) by simp_all
  have ne: "self \<noteq> a" using Cons.prems(3) by simp
  note s = run_spawned_set [OF Cons.prems(1) c(1) nth p ne, of "clk j"]
  show ?case
    using Cons.IH [OF Cons.prems(1), of "run_spawned env (clk j) NoFault self 0 w" "Suc j"] s Cons.prems(2-4)
    by (simp add: listening_roles [OF s(1)])
qed simp

lemma replicated_local_hit:
  assumes r: "roles w self = Some (role c)" "mode (cConfig c) = Replicated" "\<not> cClosed c" and k: "k \<noteq> ''''"
    and s: "stores w self = Some s" "snd (st_Get (eApi env) (clk 0) k s) = Some b"
    and v: "Deserialize (unmarshal_any (eMsgpack env)) b dest = Inr v"
  shows "snd (cache_Get env clk ft self k dest w) = Some v"
proof -
  obtain c' where c': "gm_get w self = Some c'" "cConfig c' = cConfig c" "cClosed c' = cClosed c" "cStore c' = s"
    using r(1) s(1) by (auto simp: roles_def stores_def role_def)
  have "snd (distributedGet env clk ft self k w) = Some b"
    using c' r(2) s(2) by (simp add: distributedGet_def Let_def case_prod_unfold)
  then show ?thesis
    using c' r(3) k v by (cases "distributedGet env clk ft self k w") (simp add: cache_Get_def is_closed_def)
qed

section \<open>Properties\<close>

text \<open>A replica that accepts calls and will keep the value.\<close>

definition replica_ok :: "('d, 'v, 'x, 'w) env \<Rightarrow> string \<Rightarrow> bytes \<Rightarrow> duration \<Rightarrow> 'd cache \<Rightarrow> bool" where
  "replica_ok env key b d p \<longleftrightarrow> mode (cConfig p) = Replicated \<and> \<not> cClosed p \<and> \<not> cStopped p \<and>
     st_inv (eApi env) (cStore p) \<and> (\<forall>t. st_keeps (cStore p) t key b d)"

text \<open>C13: Replication converges. A \<open>Set\<close> without expiry in replicated mode succeeds at once; its copies are
  pending calls. Running the first pending call as often as there are replicas completes them, and whenever
  they have all run without faults, in any order, the caller and every replica answer the value.\<close>

theorem replicated_converges:
  assumes "codec_ok (eCodec env)" "gm_get w self = Some c" "replica_ok env key b d c" "key \<noteq> ''''" "pending self w = []"
    and "distinct (replicas c)" "self \<notin> set (replicas c)"
    and "\<forall>a\<in>set (replicas c). \<exists>p. gm_get w a = Some p \<and> replica_ok env key b d p"
    and "Serialize (marshal_any (eMsgpack env)) val = Inr b"
    and "Deserialize (unmarshal_any (eMsgpack env)) b dest = Inr val'" "d = set_ttl self ttl w" "\<not> pos64 d"
  shows "\<exists>w1. cache_Set env clk ts ft self key val ttl w = (w1, None) \<and>
    pending self (run_pending env clk' self 0 (replicate (length (replicas c)) 0) w1) = [] \<and>
    (\<forall>sched a clk''. pending self (run_pending env clk' self 0 sched w1) = [] \<longrightarrow> a \<in> insert self (set (replicas c)) \<longrightarrow>
       nano_clock (clk'' 0) \<longrightarrow>
       snd (cache_Get env clk'' ft' a key dest (run_pending env clk' self 0 sched w1)) = Some val')"
proof -
  have c: "mode (cConfig c) = Replicated" "\<not> cClosed c" using assms(3) by (simp_all add: replica_ok_def)
  obtain w1 where w1: "cache_Set env clk ts ft self key val ttl w = (w1, None)" "roles w1 = roles w"
    "stores w1 = (stores w)(self \<mapsto> fst (st_Set (eApi env) (clk 0) key b d (cStore c)))"
    "pending self w1 = map (\<lambda>a. (a, set_request key b d [])) (replicas c)"
    using replicated_Set [OF assms(2) c assms(4,9), of clk ts ft ttl] assms(5,11) by auto
  have l: "listening (\<lambda>_. a) key w1" if "a \<in> set (replicas c)" for a
  proof -
    have "listening (\<lambda>_. a) key w" using assms(8) that by (auto simp: listening_def replica_ok_def)
    then show ?thesis using listening_roles [OF w1(2)] by simp
  qed
  have hit: "snd (cache_Get env clk'' ft' a key dest w2) = Some val'"
    if v: "roles w2 = roles w" "gm_get w a = Some p" "replica_ok env key b d p"
      "stores w2 a = Some (fst (st_Set (eApi env) t key b d (cStore p)))" "nano_clock (clk'' 0)" for w2 a p t clk''
  proof -
    have "snd (st_Get (eApi env) (clk'' 0) key (fst (st_Set (eApi env) t key b d (cStore p)))) = Some b"
      using backend.get_after_put [of "eApi env" "cStore p" "clk'' 0" t key b d] v(3,5) assms(12)
      by (simp add: replica_ok_def)
    then show ?thesis
      using replicated_local_hit [OF _ _ _ assms(4) v(4) _ assms(10), of p clk'' ft'] v(1-3) views_at(2) [OF v(2)]
      by (simp add: replica_ok_def)
  qed
  have "snd (cache_Get env clk'' ft' a key dest (run_pending env clk' self 0 sched w1)) = Some val'"
    if done_: "pending self (run_pending env clk' self 0 sched w1) = []" and a: "a \<in> insert self (set (replicas c))"
      and t: "nano_clock (clk'' 0)" for sched a clk''
  proof -
    let ?w2 = "run_pending env clk' self 0 sched w1"
    have r: "roles ?w2 = roles w" and same: "\<And>x. x \<notin> set (replicas c) \<Longrightarrow> stores ?w2 x = stores w1 x"
      and copy: "\<And>x. x \<in> set (replicas c) \<Longrightarrow>
        \<exists>t s. stores w1 x = Some s \<and> stores ?w2 x = Some (fst (st_Set (eApi env) t key b d s))"
      using run_pending_copies [OF assms(1) w1(4) assms(6,7) l done_] w1(2) by simp_all
    show ?thesis
    proof (cases "a = self")
      case True
      then show ?thesis using hit [OF r assms(2,3), where clk'' = clk''] t same [OF assms(7)] w1(3) by simp
    next
      case False
      then have ar: "a \<in> set (replicas c)" using a by simp
      then obtain p where p: "gm_get w a = Some p" "replica_ok env key b d p" using assms(8) by blast
      have "stores w1 a = Some (cStore p)" using w1(3) False p(1) by (simp add: views_at)
      then show ?thesis using hit [OF r p, where clk'' = clk''] t copy [OF ar] by auto
    qed
  qed
  moreover have "pending self (run_pending env clk' self 0 (replicate (length (replicas c)) 0) w1) = []"
    by (rule run_pending_drains [OF assms(1) w1(4) assms(7) l])
  ultimately show ?thesis using w1(1) by blast
qed

lemma demo_replicas: "replicas (demo_cache Replicated ''n1'') = [''a2'']"
  by (simp add: replicas_def demo_cache_def demo_state_def demo_info_def NewClusterState_def cs_AddNode_def SelfName_def
      LiveNodes_def)

lemma demo_replica_ok: "replica_ok demo_env key b 0 (demo_cache Replicated n)"
  by (simp add: replica_ok_def demo_cache_def demo_env_def st_inv_def pebble_ok_list st_keeps_def ps_fits_def)

lemma demo_replicated:
  "gm_get (demo_world Replicated) ''a1'' = Some (demo_cache Replicated ''n1'')"
  "gm_get (demo_world Replicated) ''a2'' = Some (demo_cache Replicated ''n2'')"
  "pending ''a1'' (demo_world Replicated) = []" "set_ttl ''a1'' 0 (demo_world Replicated) = 0"
  by (simp_all add: demo_world_def pending_def node_at_def set_ttl_def demo_cache_def DefaultConfig_def)

theorem replicated_converges_witness:
  "\<exists>w1. cache_Set demo_env (\<lambda>_. 1) 1 NoFault ''a1'' ''k'' (GBytes [9]) 0 (demo_world Replicated) = (w1, None) \<and>
     snd (cache_Get demo_env (\<lambda>_. 7) NoFault ''a2'' ''k'' DestBytes (run_pending demo_env (\<lambda>_ _. 2) ''a1'' 0 [0] w1)) =
       Some (GBytes [9])"
proof -
  have a: "\<forall>a\<in>set (replicas (demo_cache Replicated ''n1'')).
      \<exists>p. gm_get (demo_world Replicated) a = Some p \<and> replica_ok demo_env ''k'' [9] 0 p"
    using demo_replicas demo_replicated(2) demo_replica_ok by simp
  have sd: "Serialize (marshal_any (eMsgpack demo_env)) (GBytes [9]) = Inr [9]"
    "Deserialize (unmarshal_any (eMsgpack demo_env)) [9] DestBytes = Inr (GBytes [9])"
    by simp_all
  have dis: "distinct (replicas (demo_cache Replicated ''n1''))" "''a1'' \<notin> set (replicas (demo_cache Replicated ''n1''))"
    by (simp_all add: demo_replicas)
  obtain w1 where w1: "cache_Set demo_env (\<lambda>_. 1) 1 NoFault ''a1'' ''k'' (GBytes [9]) 0 (demo_world Replicated) = (w1, None)"
    and drained: "pending ''a1'' (run_pending demo_env (\<lambda>_ _. 2) ''a1'' 0
      (replicate (length (replicas (demo_cache Replicated ''n1''))) 0) w1) = []"
    and get: "\<forall>sched a clk''. pending ''a1'' (run_pending demo_env (\<lambda>_ _. 2) ''a1'' 0 sched w1) = [] \<longrightarrow>
      a \<in> insert ''a1'' (set (replicas (demo_cache Replicated ''n1''))) \<longrightarrow> nano_clock (clk'' 0) \<longrightarrow>
      snd (cache_Get demo_env clk'' NoFault a ''k'' DestBytes (run_pending demo_env (\<lambda>_ _. 2) ''a1'' 0 sched w1)) = Some (GBytes [9])"
    using replicated_converges [OF demo_codec_ok(1) demo_replicated(1) demo_replica_ok _ demo_replicated(3) dis a sd
        demo_replicated(4) [symmetric] pos64_0, of "\<lambda>_. 1" 1 NoFault "\<lambda>_ _. 2" NoFault]
    by (elim meta_impE exE conjE) (simp, rule that)
  have "pending ''a1'' (run_pending demo_env (\<lambda>_ _. 2) ''a1'' 0 [0] w1) = []"
    using drained unfolding demo_replicas by simp
  then have "snd (cache_Get demo_env (\<lambda>_. 7) NoFault ''a2'' ''k'' DestBytes (run_pending demo_env (\<lambda>_ _. 2) ''a1'' 0 [0] w1)) =
      Some (GBytes [9])"
    using get [rule_format, of "[0]" "''a2''" "\<lambda>_. 7"] unfolding demo_replicas by (simp add: nano_clock_def)
  with w1 show ?thesis by (intro exI [of _ w1] conjI)
qed

lemma node_of_views:
  assumes "roles w a = Some (role c)" "stores w a = Some s"
  shows "\<exists>c'. gm_get w a = Some c' \<and> role c' = role c \<and> cStore c' = s"
  using assms by (auto simp: roles_def stores_def)

lemma replicas_role: "role c' = role c \<Longrightarrow> replicas c' = replicas c"
  by (simp add: replicas_def role_def cong: option.case_cong)

text \<open>C33: Replicas can diverge for good. Two writes of one key at one node in replicated mode leave two pending
  copies for each replica. When the second copy runs before the first, nothing is pending any more, no
  call has failed, and the replica answers the first value while the writer answers the second.\<close>

theorem replicated_reorder_diverges:
  assumes "codec_ok (eCodec env)" "gm_get w self = Some c" "gm_get w a = Some p" "key \<noteq> ''''" "pending self w = []"
    and "mode (cConfig c) = Replicated" "\<not> cClosed c" "st_inv (eApi env) (cStore c)" "replicas c = [a]" "a \<noteq> self"
    and "mode (cConfig p) = Replicated" "\<not> cClosed p" "\<not> cStopped p" "st_inv (eApi env) (cStore p)"
    and "st_keeps (fst (st_Set (eApi env) (clk1 0) key b1 d (cStore c))) (clk2 0) key b2 d"
    and "st_keeps (fst (st_Set (eApi env) (clk' 0 0) key b2 d (cStore p))) (clk' 1 0) key b1 d"
    and "Serialize (marshal_any (eMsgpack env)) val1 = Inr b1" "Serialize (marshal_any (eMsgpack env)) val2 = Inr b2"
    and "Deserialize (unmarshal_any (eMsgpack env)) b1 dest = Inr v1" "Deserialize (unmarshal_any (eMsgpack env)) b2 dest = Inr v2"
    and "d = set_ttl self ttl w" "\<not> pos64 d" "nano_clock (clk'' 0)"
  shows "\<exists>w1 w2. cache_Set env clk1 ts ft self key val1 ttl w = (w1, None) \<and>
    cache_Set env clk2 ts ft self key val2 ttl w1 = (w2, None) \<and>
    (let w3 = run_pending env clk' self 0 [1, 0] w2
     in pending self w3 = [] \<and> snd (cache_Get env clk'' ft' self key dest w3) = Some v2 \<and>
        snd (cache_Get env clk'' ft' a key dest w3) = Some v1)"
proof -
  let ?s1 = "fst (st_Set (eApi env) (clk1 0) key b1 d (cStore c))"
  let ?r1 = "(a, set_request key b1 d [])" and ?r2 = "(a, set_request key b2 d [])"
  obtain w1 where w1: "cache_Set env clk1 ts ft self key val1 ttl w = (w1, None)" "roles w1 = roles w"
    "stores w1 = (stores w)(self \<mapsto> ?s1)" "pending self w1 = [?r1]"
    using replicated_Set [OF assms(2,6,7,4,17), of clk1 ts ft ttl] assms(5,9,21) by auto
  have d1: "set_ttl self ttl w1 = d" using set_ttl_roles [OF w1(2)] assms(21) by simp
  obtain c1 where c1: "gm_get w1 self = Some c1" "role c1 = role c" "cStore c1 = ?s1"
    using node_of_views [of w1 self c ?s1] w1(2,3) views_at(2) [OF assms(2)] by auto
  have m1: "mode (cConfig c1) = Replicated" "\<not> cClosed c1" using c1(2) assms(6,7) by (simp_all add: role_def)
  let ?s2 = "fst (st_Set (eApi env) (clk2 0) key b2 d ?s1)"
  obtain w2 where w2: "cache_Set env clk2 ts ft self key val2 ttl w1 = (w2, None)" "roles w2 = roles w"
    "stores w2 = (stores w)(self \<mapsto> ?s2)" "pending self w2 = [?r1, ?r2]"
    using replicated_Set [OF c1(1) m1 assms(4,18), of clk2 ts ft ttl] w1 d1 c1 replicas_role [OF c1(2)] assms(9) by auto
  obtain c2 where c2: "gm_get w2 self = Some c2" "cSpawned c2 = [?r1, ?r2]"
    using w2(4) by (cases "gm_get w2 self") (auto simp: pending_def node_at_def)
  obtain p2 where p2: "gm_get w2 a = Some p2" "role p2 = role p" "cStore p2 = cStore p"
    using node_of_views [of w2 a p "cStore p"] w2(2,3) views_at [OF assms(3)] assms(10) by auto
  have "\<not> cStopped p2" using p2(2) assms(13) by (simp add: role_def)
  note x = run_spawned_set [OF assms(1) c2(1) _ _ p2(1) this assms(10) [symmetric], of 1 key b2 d "[]" "clk' 0"]
  let ?w3 = "run_spawned env (clk' 0) NoFault self 1 w2" and ?p3 = "fst (st_Set (eApi env) (clk' 0 0) key b2 d (cStore p))"
  have x: "roles ?w3 = roles w" "stores ?w3 = (stores w2)(a \<mapsto> ?p3)" "pending self ?w3 = [?r1]"
    using x c2(2) w2(2,4) p2(3) by simp_all
  obtain c3 where c3: "gm_get ?w3 self = Some c3" "cSpawned c3 = [?r1]"
    using x(3) by (cases "gm_get ?w3 self") (auto simp: pending_def node_at_def)
  obtain p3 where p3: "gm_get ?w3 a = Some p3" "role p3 = role p" "cStore p3 = ?p3"
    using node_of_views [of ?w3 a p ?p3] x(1,2) views_at(2) [OF assms(3)] by auto
  have "\<not> cStopped p3" using p3(2) assms(13) by (simp add: role_def)
  note y = run_spawned_set [OF assms(1) c3(1) _ _ p3(1) this assms(10) [symmetric], of 0 key b1 d "[]" "clk' 1"]
  let ?w4 = "run_spawned env (clk' 1) NoFault self 0 ?w3" and ?p4 = "fst (st_Set (eApi env) (clk' 1 0) key b1 d ?p3)"
  have y: "roles ?w4 = roles w" "stores ?w4 = (stores w2)(a \<mapsto> ?p4)" "pending self ?w4 = []"
    using y c3(2) x p3(3) by simp_all
  have "snd (st_Get (eApi env) (clk'' 0) key ?s2) = Some b2"
    using backend.get_after_put [OF backend.inv_put [OF assms(8)] assms(23,15)] assms(22) by simp
  then have "snd (cache_Get env clk'' ft' self key dest ?w4) = Some v2"
    using replicated_local_hit [OF _ assms(6,7,4) _ _ assms(20), of ?w4 self ?s2] y(1,2) w2(3) views_at(2) [OF assms(2)] assms(10)
    by simp
  moreover have "snd (st_Get (eApi env) (clk'' 0) key ?p4) = Some b1"
    using backend.get_after_put [OF backend.inv_put [OF assms(14)] assms(23,16)] assms(22) by simp
  then have "snd (cache_Get env clk'' ft' a key dest ?w4) = Some v1"
    using replicated_local_hit [OF _ assms(11,12,4) _ _ assms(19), of ?w4 a ?p4] y(1,2) views_at(2) [OF assms(3)] by simp
  ultimately show ?thesis
    using w1(1) w2(1) y(3) by (intro exI [of _ w1] exI [of _ w2] conjI) (simp_all add: Let_def)
qed

theorem replicated_reorder_diverges_witness:
  "\<exists>w1 w2. cache_Set demo_env (\<lambda>_. 1) 1 NoFault ''a1'' ''k'' (GBytes [1]) 0 (demo_world Replicated) = (w1, None) \<and>
     cache_Set demo_env (\<lambda>_. 2) 1 NoFault ''a1'' ''k'' (GBytes [2]) 0 w1 = (w2, None) \<and>
     (let w3 = run_pending demo_env (\<lambda>_ _. 3) ''a1'' 0 [1, 0] w2
      in pending ''a1'' w3 = [] \<and> snd (cache_Get demo_env (\<lambda>_. 9) NoFault ''a1'' ''k'' DestBytes w3) = Some (GBytes [2]) \<and>
         snd (cache_Get demo_env (\<lambda>_. 9) NoFault ''a2'' ''k'' DestBytes w3) = Some (GBytes [1]))"
proof -
  let ?c = "\<lambda>n. demo_cache Replicated n"
  have c: "mode (cConfig (?c n)) = Replicated" "\<not> cClosed (?c n)" "\<not> cStopped (?c n)" "st_inv (eApi demo_env) (cStore (?c n))" for n
    using demo_replica_ok [of key b n] by (simp_all add: replica_ok_def)
  have k: "st_keeps (fst (st_Set (eApi demo_env) t ''k'' b 0 (cStore (?c n)))) t' ''k'' b' 0" for t t' b b' n
    by (simp add: demo_cache_def demo_env_def st_Set_def st_keeps_def ps_fits_def)
  have sd: "Serialize (marshal_any (eMsgpack demo_env)) (GBytes b) = Inr b"
    "Deserialize (unmarshal_any (eMsgpack demo_env)) b DestBytes = Inr (GBytes b)" for b
    by simp_all
  show ?thesis
    by (rule replicated_reorder_diverges [OF demo_codec_ok(1) demo_replicated(1,2) _ demo_replicated(3) c(1,2,4) demo_replicas _
          c(1-4) k k sd(1) sd(1) sd(2) sd(2) demo_replicated(4) [symmetric] pos64_0]) (simp_all add: nano_clock_def)
qed

end
