(* ===== verification/Lock_Cluster.thy ===== *)
theory Lock_Cluster
  imports Api Fleet
begin

text \<open>
  Distributed locks (\<open>src/lock.go\<close>) over a cluster. The transition system below has one step for every
  iteration of the loop of \<open>Lock\<close>, every \<open>Release\<close> and \<open>Extend\<close> of a handle, every tick of the cleanup of an
  engine, and one for everything else a node may do, at any node, in any order and with any fault of the
  network. A state keeps what the clients know: the handles they got, with the deadline the engine gave them,
  and whether they gave them back. The invariant ties it to a reachable state of the engine of every node.
\<close>

section \<open>Definitions\<close>

text \<open>The parts of a node that locking depends on.\<close>

definition lock_view :: "'d cache \<Rightarrow> engine \<times> Config \<times> ring option \<times> cluster_state option" where
  "lock_view c = (cLocks c, cConfig c, cRing c, cState c)"

text \<open>The node that serves a handle.\<close>

definition handle_at :: "LockHandle \<Rightarrow> string" where
  "handle_at h = (if hOwnerAddr h = '''' then hCache h else hOwnerAddr h)"

record holder =
  hoHandle :: LockHandle
  hoDeadline :: instant
  hoDone :: bool

record 'd lock_world =
  lwNow :: instant
  lwWorld :: "'d world"
  lwUsed :: "string list"
  lwHolders :: "holder list"

definition holding :: "'d lock_world \<Rightarrow> holder \<Rightarrow> bool" where
  "holding s x \<longleftrightarrow> x \<in> set (lwHolders s) \<and> \<not> hoDone x \<and> lwNow s \<le> hoDeadline x"

text \<open>
  What a client makes of the answer of \<open>Extend\<close>: a failed remote call may or may not have been processed, so
  the client can count on the earlier of the two deadlines only.
\<close>

fun deadline_after :: "cache_error option \<Rightarrow> instant \<Rightarrow> instant \<Rightarrow> instant" where
  "deadline_after None new old = new"
| "deadline_after (Some (ErrRemote err)) new old = min new old"
| "deadline_after (Some err) new old = old"

definition on_handle :: "LockHandle \<Rightarrow> (holder \<Rightarrow> holder) \<Rightarrow> holder \<Rightarrow> holder" where
  "on_handle h f x = (if hoHandle x = h then f x else x)"

inductive lock_world_step :: "('d, 'v, 'x, 'w) env \<Rightarrow> 'd lock_world \<Rightarrow> 'd lock_world \<Rightarrow> bool" for env where
  lw_attempt:
    "lwNow s \<le> clk 0 \<Longrightarrow> clk 0 \<le> clk 1 \<Longrightarrow> generateToken random \<notin> set (lwUsed s) \<Longrightarrow>
     lock_attempt env clk random ft self k ttl (lwWorld s) = (w', r) \<Longrightarrow>
     lock_world_step env s
       \<lparr>lwNow = clk 1, lwWorld = w', lwUsed = generateToken random # lwUsed s,
        lwHolders = lwHolders s @ (case r of
          Some (Inr h) \<Rightarrow> [\<lparr>hoHandle = h, hoDeadline = time_add (clk 1) ttl, hoDone = False\<rparr>] | _ \<Rightarrow> [])\<rparr>"
| lw_release:
    "h \<in> hoHandle ` set (lwHolders s) \<Longrightarrow> handle_Release env clk ft h (lwWorld s) = (w', r) \<Longrightarrow>
     lock_world_step env s
       (s\<lparr>lwWorld := w', lwHolders := map (on_handle h (\<lambda>x. x\<lparr>hoDone := True\<rparr>)) (lwHolders s)\<rparr>)"
| lw_extend:
    "lwNow s \<le> clk 0 \<Longrightarrow> clk 0 \<le> clk 1 \<Longrightarrow> h \<in> hoHandle ` set (lwHolders s) \<Longrightarrow>
     handle_Extend env clk ft ttl h (lwWorld s) = (w', r) \<Longrightarrow>
     lock_world_step env s
       (s\<lparr>lwNow := clk 1, lwWorld := w', lwHolders :=
          map (on_handle h (\<lambda>x. x\<lparr>hoDeadline := deadline_after r (time_add (clk 1) ttl) (hoDeadline x)\<rparr>)) (lwHolders s)\<rparr>)"
| lw_cleanup:
    "(\<And>i. lwNow s \<le> clk i \<and> clk i \<le> t) \<Longrightarrow>
     lock_world_step env s
       (s\<lparr>lwNow := t, lwWorld := on_node a (\<lambda>c. c\<lparr>cLocks := cleanup_tick clk (cLocks c)\<rparr>) (lwWorld s)\<rparr>)"
| lw_other:
    "lwNow s \<le> t \<Longrightarrow> views lock_view w' = views lock_view (lwWorld s) \<Longrightarrow>
     lock_world_step env s (s\<lparr>lwNow := t, lwWorld := w'\<rparr>)"

text \<open>From a world whose engines are new.\<close>

definition fresh_engines :: "'d world \<Rightarrow> bool" where
  "fresh_engines w \<longleftrightarrow> (\<forall>a c. gm_get w a = Some c \<longrightarrow> cLocks c = NewEngine)"

inductive lock_world_reachable :: "('d, 'v, 'x, 'w) env \<Rightarrow> 'd world \<Rightarrow> 'd lock_world \<Rightarrow> bool" for env w0 where
  lw_init: "lock_world_reachable env w0 \<lparr>lwNow = t, lwWorld = w0, lwUsed = [], lwHolders = []\<rparr>"
| lw_step: "lock_world_reachable env w0 s \<Longrightarrow> lock_world_step env s s' \<Longrightarrow> lock_world_reachable env w0 s'"

section \<open>The invariant\<close>

text \<open>A reachable state of the engine of a node that explains the holders it serves.\<close>

definition explains :: "string \<Rightarrow> instant \<Rightarrow> string list \<Rightarrow> holder list \<Rightarrow> lock_state \<Rightarrow> bool" where
  "explains a now used hs s \<longleftrightarrow> lock_reachable s \<and> lnow s \<le> now \<and>
     gToken ` set (grants s) \<subseteq> set used \<and> length (grants s) \<le> length used \<and>
     (\<forall>x \<in> set hs. handle_at (hoHandle x) = a \<longrightarrow>
        (\<exists>g \<in> set (grants s). gKey g = hKey (hoHandle x) \<and> gToken g = hToken (hoHandle x) \<and>
           gFencing g = hFencing (hoHandle x) \<and> (\<not> hoDone x \<longrightarrow> \<not> gReleased g \<and> hoDeadline x \<le> gDeadline g)))"

definition engine_ok :: "string \<Rightarrow> instant \<Rightarrow> string list \<Rightarrow> holder list \<Rightarrow> engine \<Rightarrow> bool" where
  "engine_ok a now used hs e \<longleftrightarrow> (\<exists>s. eng s = e \<and> explains a now used hs s)"

text \<open>The handles: served by the owner of their key, with tokens of their own and growing fencing numbers.\<close>

definition handles_ok :: "(string \<Rightarrow> string) \<Rightarrow> string list \<Rightarrow> holder list \<Rightarrow> bool" where
  "handles_ok own used hs \<longleftrightarrow> distinct (map (hToken \<circ> hoHandle) hs) \<and>
     (\<forall>x \<in> set hs. handle_at (hoHandle x) = own (hKey (hoHandle x)) \<and> hToken (hoHandle x) \<in> set used \<and>
        hOwnerAddr (hoHandle x) \<noteq> hCache (hoHandle x)) \<and>
     (length used < 2 ^ 64 \<longrightarrow>
        (\<forall>i j. i < j \<longrightarrow> j < length hs \<longrightarrow> handle_at (hoHandle (hs ! i)) = handle_at (hoHandle (hs ! j)) \<longrightarrow>
           hFencing (hoHandle (hs ! i)) < hFencing (hoHandle (hs ! j))))"

definition lock_world_inv :: "(string \<Rightarrow> string) \<Rightarrow> 'd lock_world \<Rightarrow> bool" where
  "lock_world_inv own s \<longleftrightarrow> one_owner own (lwWorld s) \<and> handles_ok own (lwUsed s) (lwHolders s) \<and>
     (\<forall>x \<in> set (lwHolders s). gm_get (lwWorld s) (handle_at (hoHandle x)) \<noteq> None) \<and>
     (\<forall>a c. gm_get (lwWorld s) a = Some c \<longrightarrow> engine_ok a (lwNow s) (lwUsed s) (lwHolders s) (cLocks c))"

section \<open>One engine\<close>

text \<open>Less knowledge of the clients, a later time and more tokens drawn keep the explanation.\<close>

lemma explains_weaken:
  assumes "explains a now used hs s" "now \<le> now'" "set used \<subseteq> set used'" "length used \<le> length used'"
    and "\<And>x'. x' \<in> set hs' \<Longrightarrow> handle_at (hoHandle x') = a \<Longrightarrow>
      \<exists>x \<in> set hs. hoHandle x = hoHandle x' \<and> (\<not> hoDone x' \<longrightarrow> \<not> hoDone x \<and> hoDeadline x' \<le> hoDeadline x)"
  shows "explains a now' used' hs' s"
proof -
  have "\<exists>g \<in> set (grants s). gKey g = hKey (hoHandle x') \<and> gToken g = hToken (hoHandle x') \<and>
      gFencing g = hFencing (hoHandle x') \<and> (\<not> hoDone x' \<longrightarrow> \<not> gReleased g \<and> hoDeadline x' \<le> gDeadline g)"
    if x': "x' \<in> set hs'" "handle_at (hoHandle x') = a" for x'
  proof -
    obtain x where x: "x \<in> set hs" "hoHandle x = hoHandle x'" "\<not> hoDone x' \<Longrightarrow> \<not> hoDone x \<and> hoDeadline x' \<le> hoDeadline x"
      using assms(5) [OF x'] by blast
    then have "handle_at (hoHandle x) = a" using x'(2) by simp
    then obtain g where "g \<in> set (grants s)" "gKey g = hKey (hoHandle x)" "gToken g = hToken (hoHandle x)"
      "gFencing g = hFencing (hoHandle x)" "\<not> hoDone x \<Longrightarrow> \<not> gReleased g \<and> hoDeadline x \<le> gDeadline g"
      using assms(1) x(1) unfolding explains_def by blast
    then show ?thesis using x(2,3) by (intro bexI [of _ g]) auto
  qed
  moreover have "lock_reachable s \<and> lnow s \<le> now' \<and> gToken ` set (grants s) \<subseteq> set used' \<and>
      length (grants s) \<le> length used'"
    using assms(1-4) unfolding explains_def by auto
  ultimately show ?thesis unfolding explains_def by blast
qed

lemma engine_ok_weaken:
  assumes "engine_ok a now used hs e" "now \<le> now'" "set used \<subseteq> set used'" "length used \<le> length used'"
    and "\<And>x'. x' \<in> set hs' \<Longrightarrow> handle_at (hoHandle x') = a \<Longrightarrow>
      \<exists>x \<in> set hs. hoHandle x = hoHandle x' \<and> (\<not> hoDone x' \<longrightarrow> \<not> hoDone x \<and> hoDeadline x' \<le> hoDeadline x)"
  shows "engine_ok a now' used' hs' e"
  using assms(1) explains_weaken [OF _ assms(2-5)] unfolding engine_ok_def by blast

lemma explains_reachable_step:
  assumes "explains a now used hs s" "lock_step s s'" "lnow s' \<le> now'"
    and "gToken ` set (grants s') \<subseteq> set used'" "length (grants s') \<le> length used'"
    and "\<And>x. x \<in> set hs' \<Longrightarrow> handle_at (hoHandle x) = a \<Longrightarrow>
      \<exists>g \<in> set (grants s'). gKey g = hKey (hoHandle x) \<and> gToken g = hToken (hoHandle x) \<and>
        gFencing g = hFencing (hoHandle x) \<and> (\<not> hoDone x \<longrightarrow> \<not> gReleased g \<and> hoDeadline x \<le> gDeadline g)"
  shows "explains a now' used' hs' s'"
  using assms lock_reachable.step [of s s'] unfolding explains_def by blast

lemma explainsE:
  assumes "explains a now used hs s" "x \<in> set hs" "handle_at (hoHandle x) = a"
  obtains g where "g \<in> set (grants s)" "gKey g = hKey (hoHandle x)" "gToken g = hToken (hoHandle x)"
    "gFencing g = hFencing (hoHandle x)" "\<not> hoDone x \<Longrightarrow> \<not> gReleased g \<and> hoDeadline x \<le> gDeadline g"
  using assms unfolding explains_def by blast

lemma explainsD:
  assumes "explains a now used hs s"
  shows "lock_reachable s" "lnow s \<le> now" "gToken ` set (grants s) \<subseteq> set used" "length (grants s) \<le> length used"
  using assms unfolding explains_def by blast+

lemma engine_okI: "explains a now used hs s \<Longrightarrow> eng s = e \<Longrightarrow> engine_ok a now used hs e"
  unfolding engine_ok_def by blast

lemma explains_same_grants:
  assumes "explains a now used hs s" "lock_step s s'" "grants s' = grants s" "lnow s' \<le> now'"
  shows "explains a now' used hs s'"
  using assms lock_reachable.step [of s s'] unfolding explains_def by simp

lemma engine_ok_acquire:
  assumes ok: "engine_ok a now used hs e" and t: "now \<le> t1" "t1 \<le> t2" and fresh: "generateToken random \<notin> set used"
    and acq: "Acquire t1 t2 random k ttl own e = (e', r)"
    and new: "\<And>x. x \<in> set new \<Longrightarrow> \<exists>tok f. r = Some (tok, f) \<and> hKey (hoHandle x) = k \<and> hToken (hoHandle x) = tok \<and>
      hFencing (hoHandle x) = f \<and> hoDeadline x = time_add t2 ttl"
  shows "engine_ok a t2 (generateToken random # used) (hs @ new) e'"
proof -
  obtain s where s: "eng s = e" "explains a now used hs s" using ok unfolding engine_ok_def by blast
  note D = explainsD [OF s(2)]
  have n: "lnow s \<le> t1" using D(2) t(1) by simp
  show ?thesis
  proof (cases r)
    case None
    then have "Acquire t1 t2 random k ttl own (eng s) = (e', None)" using acq s(1) by simp
    then have "lock_step s (s\<lparr>lnow := t1, eng := e'\<rparr>)" by (rule lock_step.refused [OF n])
    moreover have "new = []" using new None by (cases new) auto
    ultimately have "explains a t1 used (hs @ new) (s\<lparr>lnow := t1, eng := e'\<rparr>)"
      using explains_same_grants [OF s(2), of "s\<lparr>lnow := t1, eng := e'\<rparr>" t1] by simp
    then have "engine_ok a t1 used (hs @ new) e'" by (rule engine_okI) simp
    then show ?thesis by (rule engine_ok_weaken) (use t(2) in auto)
  next
    case (Some q)
    obtain tok f where q: "q = (tok, f)" by (cases q)
    have "r = None \<or> r = Some (generateToken random, fencingSeq e + 1)" using Acquire_cases [OF acq] by blast
    then have tok: "tok = generateToken random" using Some q by simp
    let ?g = "\<lparr>gKey = k, gToken = tok, gFencing = f, gDeadline = time_add t2 ttl, gReleased = False\<rparr>"
    let ?s = "\<lparr>lnow = t2, eng = e', grants = grants s @ [?g]\<rparr>"
    have nw: "tok \<notin> gToken ` set (grants s)" unfolding tok using D(3) fresh by (rule contra_subsetD)
    have "Acquire t1 t2 random k ttl own (eng s) = (e', Some (tok, f))" using acq s(1) Some q by simp
    then have step: "lock_step s ?s" using nw by (rule lock_step.acquired [OF n t(2)])
    have "\<exists>g \<in> set (grants ?s). gKey g = hKey (hoHandle x) \<and> gToken g = hToken (hoHandle x) \<and>
        gFencing g = hFencing (hoHandle x) \<and> (\<not> hoDone x \<longrightarrow> \<not> gReleased g \<and> hoDeadline x \<le> gDeadline g)"
      if x: "x \<in> set (hs @ new)" "handle_at (hoHandle x) = a" for x
    proof (cases "x \<in> set new")
      case True
      then show ?thesis using new [OF True] Some q by (intro bexI [of _ ?g]) auto
    next
      case False
      then have "x \<in> set hs" using x(1) by simp
      then obtain g where "g \<in> set (grants s)" "gKey g = hKey (hoHandle x)" "gToken g = hToken (hoHandle x)"
        "gFencing g = hFencing (hoHandle x)" "\<not> hoDone x \<Longrightarrow> \<not> gReleased g \<and> hoDeadline x \<le> gDeadline g"
        using explainsE [OF s(2) _ x(2)] by blast
      then show ?thesis by (intro bexI [of _ g]) auto
    qed
    moreover have "lnow ?s \<le> t2" "gToken ` set (grants ?s) \<subseteq> set (generateToken random # used)"
      "length (grants ?s) \<le> length (generateToken random # used)"
      using D(3,4) tok by auto
    ultimately have "explains a t2 (generateToken random # used) (hs @ new) ?s"
      using explains_reachable_step [OF s(2) step] by blast
    then show ?thesis by (rule engine_okI) simp
  qed
qed

lemma gToken_marks [simp]:
  "gToken (mark_released k t g) = gToken g" "gToken (mark_extended k t d g) = gToken g"
  by (simp_all add: mark_released_def mark_extended_def)

lemma engine_ok_release:
  assumes ok: "engine_ok a now used hs e" and rel: "Release (hKey h) (hToken h) e = (e', b)"
    and only: "\<And>x. x \<in> set hs \<Longrightarrow> hToken (hoHandle x) = hToken h \<Longrightarrow> hoHandle x = h"
  shows "engine_ok a now used (map (on_handle h (\<lambda>x. x\<lparr>hoDone := True\<rparr>)) hs) e'"
proof -
  obtain s where s: "eng s = e" "explains a now used hs s" using ok unfolding engine_ok_def by blast
  note D = explainsD [OF s(2)]
  define m where "m = (if b then map (mark_released (hKey h) (hToken h)) (grants s) else grants s)"
  let ?s = "s\<lparr>eng := e', grants := m\<rparr>"
  have step: "lock_step s ?s"
    using lock_step.released [of "hKey h" "hToken h" s e'] lock_step.release_refused [of "hKey h" "hToken h" s e'] rel s(1)
    by (cases b) (simp_all add: m_def)
  have tokens: "gToken ` set m = gToken ` set (grants s)" "length m = length (grants s)"
    by (simp_all add: m_def image_image)
  have "\<exists>g \<in> set (grants ?s). gKey g = hKey (hoHandle x') \<and> gToken g = hToken (hoHandle x') \<and>
      gFencing g = hFencing (hoHandle x') \<and> (\<not> hoDone x' \<longrightarrow> \<not> gReleased g \<and> hoDeadline x' \<le> gDeadline g)"
    if x': "x' \<in> set (map (on_handle h (\<lambda>x. x\<lparr>hoDone := True\<rparr>)) hs)" "handle_at (hoHandle x') = a" for x'
  proof -
    obtain x where x: "x \<in> set hs" "x' = on_handle h (\<lambda>x. x\<lparr>hoDone := True\<rparr>) x" using x'(1) by auto
    then have hx: "hoHandle x' = hoHandle x" "\<not> hoDone x' \<Longrightarrow> hoHandle x \<noteq> h \<and> x' = x"
      by (auto simp: on_handle_def split: if_splits)
    obtain g where g: "g \<in> set (grants s)" "gKey g = hKey (hoHandle x)" "gToken g = hToken (hoHandle x)"
        "gFencing g = hFencing (hoHandle x)" "\<not> hoDone x \<Longrightarrow> \<not> gReleased g \<and> hoDeadline x \<le> gDeadline g"
      using explainsE [OF s(2) x(1)] x'(2) hx(1) by auto
    define g' where "g' = (if b then mark_released (hKey h) (hToken h) g else g)"
    have "g' \<in> set m" using g(1) by (simp add: g'_def m_def)
    moreover have "gKey g' = gKey g" "gToken g' = gToken g" "gFencing g' = gFencing g" "gDeadline g' = gDeadline g"
      by (simp_all add: g'_def mark_released_def)
    moreover have "gReleased g' = gReleased g" if "\<not> hoDone x'"
      using hx(2) [OF that] only [OF x(1)] g(3) by (auto simp: g'_def mark_released_def)
    ultimately show ?thesis using g hx by (intro bexI [of _ g']) auto
  qed
  then have "explains a now used (map (on_handle h (\<lambda>x. x\<lparr>hoDone := True\<rparr>)) hs) ?s"
    using D tokens by (intro explains_reachable_step [OF s(2) step]) simp_all
  then show ?thesis by (rule engine_okI) simp
qed

lemma engine_ok_extend:
  assumes ok: "engine_ok a now used hs e" and t: "now \<le> t1" "t1 \<le> t2"
    and ext: "Extend t1 t2 (hKey h) (hToken h) ttl e = (e', b)"
    and only: "\<And>x. x \<in> set hs \<Longrightarrow> hToken (hoHandle x) = hToken h \<Longrightarrow> hoHandle x = h"
    and d: "\<And>x. hoHandle x = h \<Longrightarrow> d x \<le> (if b then time_add t2 ttl else hoDeadline x)"
  shows "engine_ok a t2 used (map (on_handle h (\<lambda>x. x\<lparr>hoDeadline := d x\<rparr>)) hs) e'"
proof -
  obtain s where s: "eng s = e" "explains a now used hs s" using ok unfolding engine_ok_def by blast
  note D = explainsD [OF s(2)]
  have n: "lnow s \<le> t1" using D(2) t(1) by simp
  define m where "m = (if b then map (mark_extended (hKey h) (hToken h) (time_add t2 ttl)) (grants s) else grants s)"
  define s' where "s' = s\<lparr>lnow := (if b then t2 else t1), eng := e', grants := m\<rparr>"
  have step: "lock_step s s'"
    using lock_step.extended [OF n t(2), of "hKey h" "hToken h" ttl e']
      lock_step.extend_refused [OF n, of t2 "hKey h" "hToken h" ttl e'] ext s(1)
    by (cases b) (simp_all add: m_def s'_def)
  have tokens: "gToken ` set m = gToken ` set (grants s)" "length m = length (grants s)"
    by (simp_all add: m_def image_image)
  have "\<exists>g \<in> set (grants s'). gKey g = hKey (hoHandle x') \<and> gToken g = hToken (hoHandle x') \<and>
      gFencing g = hFencing (hoHandle x') \<and> (\<not> hoDone x' \<longrightarrow> \<not> gReleased g \<and> hoDeadline x' \<le> gDeadline g)"
    if x': "x' \<in> set (map (on_handle h (\<lambda>x. x\<lparr>hoDeadline := d x\<rparr>)) hs)" "handle_at (hoHandle x') = a" for x'
  proof -
    obtain x where x: "x \<in> set hs" "x' = on_handle h (\<lambda>x. x\<lparr>hoDeadline := d x\<rparr>) x" using x'(1) by auto
    have hx: "hoHandle x' = hoHandle x" "hoDone x' = hoDone x" by (simp_all add: x(2) on_handle_def)
    obtain g where g: "g \<in> set (grants s)" "gKey g = hKey (hoHandle x)" "gToken g = hToken (hoHandle x)"
        "gFencing g = hFencing (hoHandle x)" "\<not> hoDone x \<Longrightarrow> \<not> gReleased g \<and> hoDeadline x \<le> gDeadline g"
      using explainsE [OF s(2) x(1)] x'(2) hx(1) by auto
    define g' where "g' = (if b then mark_extended (hKey h) (hToken h) (time_add t2 ttl) g else g)"
    have "g' \<in> set m" using g(1) by (simp add: g'_def m_def)
    then have "g' \<in> set (grants s')" by (simp add: s'_def)
    moreover have "gKey g' = gKey g" "gToken g' = gToken g" "gFencing g' = gFencing g" "gReleased g' = gReleased g"
      by (simp_all add: g'_def mark_extended_def)
    moreover have "hoDeadline x' \<le> gDeadline g'" if nd: "\<not> hoDone x'"
    proof (cases "hoHandle x = h")
      case True
      then show ?thesis
        using d [OF True] g(2,3,5) nd hx(2) by (simp add: x(2) on_handle_def g'_def mark_extended_def split: if_splits)
    next
      case False
      then have "gToken g \<noteq> hToken h" using only [OF x(1)] g(3) by auto
      then show ?thesis using g(5) nd hx(2) False by (simp add: x(2) on_handle_def g'_def mark_extended_def)
    qed
    ultimately show ?thesis using g hx by (intro bexI [of _ g']) auto
  qed
  then have "explains a t2 used (map (on_handle h (\<lambda>x. x\<lparr>hoDeadline := d x\<rparr>)) hs) s'"
    using D tokens t(2) by (intro explains_reachable_step [OF s(2) step]) (simp_all add: s'_def)
  then show ?thesis by (rule engine_okI) (simp add: s'_def)
qed

lemma engine_ok_cleanup:
  assumes "engine_ok a now used hs e" "\<And>i. now \<le> clk i \<and> clk i \<le> t"
  shows "engine_ok a t used hs (cleanup_tick clk e)"
proof -
  obtain s where s: "eng s = e" "explains a now used hs s" using assms(1) unfolding engine_ok_def by blast
  let ?s = "s\<lparr>lnow := t, eng := cleanup_tick clk (eng s)\<rparr>"
  have "lnow s \<le> clk i \<and> clk i \<le> t" for i using explainsD(2) [OF s(2)] assms(2) [of i] by simp
  then have "lock_step s ?s" by (rule lock_step.cleanup)
  then have "explains a t used hs ?s" by (rule explains_same_grants [OF s(2)]) simp_all
  then show ?thesis by (rule engine_okI) (simp add: s(1))
qed

lemma engine_ok_fencing:
  assumes "engine_ok a now used hs e" "Suc (length used) < 2 ^ 64" "x \<in> set hs" "handle_at (hoHandle x) = a"
  shows "hFencing (hoHandle x) < fencingSeq e + 1"
proof -
  obtain s where s: "eng s = e" "explains a now used hs s" using assms(1) unfolding engine_ok_def by blast
  note D = explainsD [OF s(2)]
  note I = lock_invD [OF lock_reachable_inv [OF D(1)]]
  obtain g where g: "g \<in> set (grants s)" "gFencing g = hFencing (hoHandle x)" using explainsE [OF s(2) assms(3,4)] by blast
  then obtain i where i: "i < length (grants s)" "grants s ! i = g" by (auto simp: in_set_conv_nth)
  let ?n = "length (grants s)"
  have b: "Suc ?n < 2 ^ 64" using D(4) assms(2) by simp
  have "fencingSeq e + 1 = of_nat (Suc ?n)" using I(3) s(1) by simp
  then have "unat (fencingSeq e + 1) = Suc ?n" using b by (simp add: unat_of_nat del: of_nat_Suc)
  moreover have "unat (hFencing (hoHandle x)) = Suc i"
    using I(4) [OF i(1)] i g(2) b by (simp add: unat_of_nat del: of_nat_Suc)
  ultimately show ?thesis using i(1) by (simp add: word_less_nat_alt)
qed

section \<open>The operations on the network\<close>

text \<open>The engine at one address is replaced and nothing else that locking depends on changes.\<close>

definition engine_at :: "string \<Rightarrow> engine \<Rightarrow> 'd world \<Rightarrow> 'd world \<Rightarrow> bool" where
  "engine_at a e w w' \<longleftrightarrow>
     (\<exists>c. gm_get w a = Some c \<and> views lock_view w' = (views lock_view w)(a \<mapsto> (e, snd (lock_view c))))"

lemma lock_view_conns: "lock_view (c\<lparr>cConns := cs\<rparr>) = lock_view c"
  by (simp add: lock_view_def)

lemma lock_view_locks: "lock_view (c\<lparr>cLocks := e\<rparr>) = (e, snd (lock_view c))"
  by (simp add: lock_view_def)

lemma engine_at_set: "gm_get w a = Some c \<Longrightarrow> engine_at a e w (gm_set a (c\<lparr>cLocks := e\<rparr>) w)"
  by (simp add: engine_at_def lock_view_locks)

lemma engine_at_get:
  assumes "engine_at a e w w'" "gm_get w' b = Some c'"
  shows "\<exists>c. gm_get w b = Some c \<and> snd (lock_view c') = snd (lock_view c) \<and> cLocks c' = (if b = a then e else cLocks c)"
proof -
  obtain c where c: "gm_get w a = Some c" "views lock_view w' = (views lock_view w)(a \<mapsto> (e, snd (lock_view c)))"
    using assms(1) unfolding engine_at_def by blast
  have "views lock_view w' b = Some (lock_view c')" using assms(2) by (rule views_get)
  then show ?thesis using c by (cases "b = a") (auto simp: views_def lock_view_def)
qed

lemma views_dom: "views V w b \<noteq> None \<longleftrightarrow> gm_get w b \<noteq> None"
  by (simp add: views_def)

lemma engine_at_dom: "engine_at a e w w' \<Longrightarrow> gm_get w b \<noteq> None \<Longrightarrow> gm_get w' b \<noteq> None"
  unfolding engine_at_def views_dom [where V = lock_view, symmetric] by (auto simp del: split_paired_Ex)

lemma same_views_get:
  assumes "views lock_view w' = views lock_view w" "gm_get w' b = Some c'"
  shows "\<exists>c. gm_get w b = Some c \<and> lock_view c' = lock_view c"
proof -
  have "views lock_view w b = Some (lock_view c')" using assms(1) views_get [OF assms(2), of lock_view] by simp
  then show ?thesis by (auto simp: views_def)
qed

lemma one_owner_cong:
  assumes "one_owner own w" "\<And>a c'. gm_get w' a = Some c' \<Longrightarrow> \<exists>c. gm_get w a = Some c \<and> snd (lock_view c') = snd (lock_view c)"
  shows "one_owner own w'"
proof -
  have "ownerAddr k c' = (if a = own k then '''' else own k)" if g: "gm_get w' a = Some c'" for a c' k
  proof -
    obtain c where c: "gm_get w a = Some c" "snd (lock_view c') = snd (lock_view c)" using assms(2) [OF g] by blast
    have "ownerAddr k c' = ownerAddr k c" using c(2) by (simp add: ownerAddr_def lock_view_def cong: option.case_cong)
    then show ?thesis using assms(1) c(1) by (simp add: one_owner_def)
  qed
  then show ?thesis using assms(1) by (simp add: one_owner_def)
qed

lemma one_ownerD:
  assumes "one_owner own w" "gm_get w a = Some c"
  shows "ownerAddr k c = (if a = own k then '''' else own k)" "own k \<noteq> ''''"
  using assms by (simp_all add: one_owner_def)

text \<open>The three requests at the node that serves them.\<close>

lemma process_locks:
  "fst (processRequest env clk random (zero_request\<lparr>rOp := opLockAcquire, rKey := k, rTTL := d\<rparr>) c) =
     c\<lparr>cLocks := fst (Acquire (clk 0) (clk 1) random k d (lock_owner c) (cLocks c))\<rparr>"
  "snd (processRequest env clk random (zero_request\<lparr>rOp := opLockAcquire, rKey := k, rTTL := d\<rparr>) c) =
     (case snd (Acquire (clk 0) (clk 1) random k d (lock_owner c) (cLocks c)) of
        None \<Rightarrow> zero_response
      | Some (token, fencing) \<Rightarrow> zero_response\<lparr>pToken := token, pFencingToken := fencing, pAcquired := True\<rparr>)"
  "fst (processRequest env clk random (zero_request\<lparr>rOp := opLockRelease, rKey := k, rToken := tok\<rparr>) c) =
     c\<lparr>cLocks := fst (Release k tok (cLocks c))\<rparr>"
  "snd (processRequest env clk random (zero_request\<lparr>rOp := opLockRelease, rKey := k, rToken := tok\<rparr>) c) =
     zero_response\<lparr>pOK := snd (Release k tok (cLocks c))\<rparr>"
  "fst (processRequest env clk random (zero_request\<lparr>rOp := opLockExtend, rKey := k, rToken := tok, rTTL := d\<rparr>) c) =
     c\<lparr>cLocks := fst (Extend (clk 0) (clk 1) k tok d (cLocks c))\<rparr>"
  "snd (processRequest env clk random (zero_request\<lparr>rOp := opLockExtend, rKey := k, rToken := tok, rTTL := d\<rparr>) c) =
     zero_response\<lparr>pOK := snd (Extend (clk 0) (clk 1) k tok d (cLocks c))\<rparr>"
  by (simp_all add: processRequest_def HandleLockAcquire_def HandleLockRelease_def HandleLockExtend_def zero_request_def
      op_codes Let_def case_prod_unfold)

lemma call_locks:
  assumes "codec_ok (eCodec env)" "self \<noteq> addr" "call env clk random ft self addr req w = (w', r)"
    and "\<And>c. fst (processRequest env clk random req c) = c\<lparr>cLocks := f c\<rparr>"
  shows "views lock_view w' = views lock_view w \<and> (\<exists>err. r = Inl err) \<or>
    (\<exists>p. gm_get w addr = Some p \<and> engine_at addr (f p) w w' \<and> answers env clk random req p r)"
  using call_view [where V = lock_view, OF lock_view_conns assms(1-3)] assms(4)
  by (auto simp: engine_at_def lock_view_locks)

lemma attempt_effect:
  assumes ok: "codec_ok (eCodec env)" and own: "one_owner own w"
    and e: "lock_attempt env clk random ft self k ttl w = (w', r)"
  shows "views lock_view w' = views lock_view w \<and> (\<forall>h. r \<noteq> Some (Inr h)) \<or>
    (\<exists>c. gm_get w (own k) = Some c \<and>
       engine_at (own k) (fst (Acquire (clk 0) (clk 1) random k ttl (lock_owner c) (cLocks c))) w w' \<and>
       (\<forall>h. r = Some (Inr h) \<longrightarrow>
          snd (Acquire (clk 0) (clk 1) random k ttl (lock_owner c) (cLocks c)) = Some (hToken h, hFencing h) \<and> hKey h = k \<and> handle_at h = own k \<and>
          hOwnerAddr h \<noteq> hCache h))"
proof (cases "gm_get w self")
  case None
  then have "w' = w" "r = Some (Inl ErrShutdown)" using e by (simp_all add: lock_attempt_def)
  then show ?thesis by simp
next
  case (Some c)
  note o = one_ownerD [OF own Some, of k]
  show ?thesis
  proof (cases "self = own k")
    case True
    obtain e' q where a: "Acquire (clk 0) (clk 1) random k ttl (lock_owner c) (cLocks c) = (e', q)" by fastforce
    have "w' = gm_set self (c\<lparr>cLocks := e'\<rparr>) w" "\<And>h. r = Some (Inr h) \<Longrightarrow> q = Some (hToken h, hFencing h) \<and> hKey h = k \<and>
        hCache h = self \<and> hOwnerAddr h = ''''"
      using e Some True o a by (auto simp: lock_attempt_def split: option.splits prod.splits)
    then show ?thesis using a Some True o engine_at_set [OF Some, of e']
      by (intro disjI2 exI [of _ c]) (auto simp: handle_at_def)
  next
    case False
    let ?req = "zero_request\<lparr>rOp := opLockAcquire, rKey := k, rTTL := ttl\<rparr>"
    obtain w1 q where call: "call env clk random ft self (own k) ?req w = (w1, q)"
      by (cases "call env clk random ft self (own k) ?req w")
    have r: "w' = w1" "\<And>h. r = Some (Inr h) \<Longrightarrow> \<exists>resp. q = Inr resp \<and> pAcquired resp \<and> hToken h = pToken resp \<and>
        hFencing h = pFencingToken resp \<and> hKey h = k \<and> hCache h = self \<and> hOwnerAddr h = own k"
      using e Some False o call
      by (auto simp: lock_attempt_def RemoteLockAcquire_def Let_def split: sum.splits option.splits prod.splits if_splits)
    from call_locks [OF ok False call process_locks(1)] show ?thesis
    proof
      assume "views lock_view w1 = views lock_view w \<and> (\<exists>err. q = Inl err)"
      then show ?thesis using r by (intro disjI1) auto
    next
      assume "\<exists>p. gm_get w (own k) = Some p \<and>
        engine_at (own k) (fst (Acquire (clk 0) (clk 1) random k ttl (lock_owner p) (cLocks p))) w w1 \<and>
        answers env clk random ?req p q"
      then obtain p where p: "gm_get w (own k) = Some p"
        "engine_at (own k) (fst (Acquire (clk 0) (clk 1) random k ttl (lock_owner p) (cLocks p))) w w1"
        "answers env clk random ?req p q" by blast
      obtain e' g where a: "Acquire (clk 0) (clk 1) random k ttl (lock_owner p) (cLocks p) = (e', g)" by fastforce
      have "g = Some (hToken h, hFencing h) \<and> hKey h = k \<and> handle_at h = own k \<and> hOwnerAddr h \<noteq> hCache h"
        if h: "r = Some (Inr h)" for h
      proof -
        obtain resp where resp: "q = Inr resp" "pAcquired resp" "hToken h = pToken resp" "hFencing h = pFencingToken resp"
          "hKey h = k" "hCache h = self" "hOwnerAddr h = own k" using r(2) [OF h] by blast
        then have "resp = (case g of None \<Rightarrow> zero_response | Some (token, fencing) \<Rightarrow>
            zero_response\<lparr>pToken := token, pFencingToken := fencing, pAcquired := True\<rparr>)"
          using p(3) process_locks(2) [where env = env and clk = clk and random = random and k = k and d = ttl and c = p] a by (simp add: answers_def)
        then show ?thesis using resp o False by (auto simp: handle_at_def zero_response_def split: option.splits)
      qed
      then show ?thesis using p a r(1) by (intro disjI2 exI [of _ p]) auto
    qed
  qed
qed

lemma release_effect:
  assumes ok: "codec_ok (eCodec env)" and h: "hOwnerAddr h \<noteq> hCache h"
    and e: "handle_Release env clk ft h w = (w', r)"
  shows "views lock_view w' = views lock_view w \<or>
    (\<exists>c. gm_get w (handle_at h) = Some c \<and> engine_at (handle_at h) (fst (Release (hKey h) (hToken h) (cLocks c))) w w')"
proof (cases "hOwnerAddr h = ''''")
  case True
  then show ?thesis
    using e engine_at_set [of w "hCache h"]
    by (cases "gm_get w (hCache h)") (auto simp: handle_Release_def handle_at_def Let_def case_prod_unfold)
next
  case False
  let ?req = "zero_request\<lparr>rOp := opLockRelease, rKey := hKey h, rToken := hToken h\<rparr>"
  obtain w1 q where call: "call env clk [] ft (hCache h) (hOwnerAddr h) ?req w = (w1, q)"
    by (cases "call env clk [] ft (hCache h) (hOwnerAddr h) ?req w")
  have "w' = w1"
    using e False call by (auto simp: handle_Release_def RemoteLockRelease_def split: sum.splits)
  then show ?thesis using call_locks [OF ok h [symmetric] call process_locks(3)] False by (auto simp: handle_at_def)
qed

text \<open>What the answer of \<open>Extend\<close> tells: \<open>b\<close> is whether the engine extended the lock.\<close>

definition tells :: "cache_error option \<Rightarrow> bool \<Rightarrow> bool" where
  "tells r b \<longleftrightarrow> (r = None \<longrightarrow> b) \<and> (b \<longrightarrow> r = None \<or> (\<exists>err. r = Some (ErrRemote err)))"

lemma extend_effect:
  assumes ok: "codec_ok (eCodec env)" and h: "hOwnerAddr h \<noteq> hCache h"
    and e: "handle_Extend env clk ft ttl h w = (w', r)"
  shows "views lock_view w' = views lock_view w \<and> tells r False \<or>
    (\<exists>c. gm_get w (handle_at h) = Some c \<and>
       engine_at (handle_at h) (fst (Extend (clk 0) (clk 1) (hKey h) (hToken h) ttl (cLocks c))) w w' \<and>
       tells r (snd (Extend (clk 0) (clk 1) (hKey h) (hToken h) ttl (cLocks c))))"
proof (cases "hOwnerAddr h = ''''")
  case True
  then show ?thesis
    using e engine_at_set [of w "hCache h"]
    by (cases "gm_get w (hCache h)") (auto simp: handle_Extend_def handle_at_def tells_def Let_def case_prod_unfold)
next
  case False
  let ?req = "zero_request\<lparr>rOp := opLockExtend, rKey := hKey h, rToken := hToken h, rTTL := ttl\<rparr>"
  obtain w1 q where call: "call env clk [] ft (hCache h) (hOwnerAddr h) ?req w = (w1, q)"
    by (cases "call env clk [] ft (hCache h) (hOwnerAddr h) ?req w")
  have r: "w' = w1" "case q of Inl err \<Rightarrow> r = Some (ErrRemote err) | Inr resp \<Rightarrow> r = (if pOK resp then None else Some ErrLockNotHeld)"
    using e False call by (auto simp: handle_Extend_def RemoteLockExtend_def split: sum.splits)
  from call_locks [OF ok h [symmetric] call process_locks(5)] show ?thesis
  proof
    assume "views lock_view w1 = views lock_view w \<and> (\<exists>err. q = Inl err)"
    then show ?thesis using r by (intro disjI1) (auto simp: tells_def)
  next
    assume "\<exists>p. gm_get w (hOwnerAddr h) = Some p \<and>
      engine_at (hOwnerAddr h) (fst (Extend (clk 0) (clk 1) (hKey h) (hToken h) ttl (cLocks p))) w w1 \<and>
      answers env clk [] ?req p q"
    then obtain p where p: "gm_get w (hOwnerAddr h) = Some p"
      "engine_at (hOwnerAddr h) (fst (Extend (clk 0) (clk 1) (hKey h) (hToken h) ttl (cLocks p))) w w1"
      "answers env clk [] ?req p q" by blast
    have "tells r (snd (Extend (clk 0) (clk 1) (hKey h) (hToken h) ttl (cLocks p)))"
      using r(2) p(3) process_locks(6) [where env = env and clk = clk and random = "[]" and k = "hKey h" and tok = "hToken h" and d = ttl and c = p]
      by (auto simp: answers_def tells_def split: sum.splits if_splits)
    then show ?thesis using p r(1) False by (intro disjI2 exI [of _ p]) (simp add: handle_at_def)
  qed
qed

section \<open>The invariant holds\<close>

lemma handles_ok_cong:
  assumes "map hoHandle hs' = map hoHandle hs" "handles_ok own used hs"
  shows "handles_ok own used hs'"
proof -
  have len: "length hs' = length hs" using arg_cong [OF assms(1), of length] by simp
  have nth: "hoHandle (hs' ! i) = hoHandle (hs ! i)" if "i < length hs" for i
    using arg_cong [OF assms(1), of "\<lambda>l. l ! i"] that len by simp
  have "map (hToken \<circ> hoHandle) hs' = map (hToken \<circ> hoHandle) hs"
    using arg_cong [OF assms(1), of "map hToken"] by simp
  moreover have "\<exists>y \<in> set hs. hoHandle x = hoHandle y" if x: "x \<in> set hs'" for x
  proof -
    obtain i where "i < length hs'" "x = hs' ! i" using x by (auto simp: in_set_conv_nth)
    then show ?thesis using nth len by (intro bexI [of _ "hs ! i"]) simp_all
  qed
  then have "handle_at (hoHandle x) = own (hKey (hoHandle x)) \<and> hToken (hoHandle x) \<in> set used \<and>
      hOwnerAddr (hoHandle x) \<noteq> hCache (hoHandle x)" if x: "x \<in> set hs'" for x
    using x assms(2) unfolding handles_ok_def by metis
  ultimately show ?thesis using assms(2) nth len unfolding handles_ok_def by simp
qed

lemma hoHandle_on_handle:
  "map hoHandle (map (on_handle h (\<lambda>x. x\<lparr>hoDone := b\<rparr>)) hs) = map hoHandle hs"
  "map hoHandle (map (on_handle h (\<lambda>x. x\<lparr>hoDeadline := d x\<rparr>)) hs) = map hoHandle hs"
  by (simp_all add: on_handle_def)

lemma handles_ok_token:
  assumes "handles_ok own used hs" "h \<in> hoHandle ` set hs" "x \<in> set hs" "hToken (hoHandle x) = hToken h"
  shows "hoHandle x = h"
  using assms by (auto simp: handles_ok_def distinct_map inj_on_def)

lemma handles_ok_append:
  assumes ok: "handles_ok own used hs"
    and new: "handle_at h = own (hKey h)" "hToken h = tok" "tok \<notin> set used" "hOwnerAddr h \<noteq> hCache h"
    and f: "\<And>x. x \<in> set hs \<Longrightarrow> Suc (length used) < 2 ^ 64 \<Longrightarrow> handle_at (hoHandle x) = handle_at h \<Longrightarrow>
      hFencing (hoHandle x) < hFencing h"
  shows "handles_ok own (tok # used) (hs @ [\<lparr>hoHandle = h, hoDeadline = d, hoDone = b\<rparr>])"
proof -
  have "hToken h \<notin> (hToken \<circ> hoHandle) ` set hs" using ok new(2,3) by (auto simp: handles_ok_def)
  moreover have "hFencing (hoHandle ((hs @ [\<lparr>hoHandle = h, hoDeadline = d, hoDone = b\<rparr>]) ! i)) <
      hFencing (hoHandle ((hs @ [\<lparr>hoHandle = h, hoDeadline = d, hoDone = b\<rparr>]) ! j))"
    if "Suc (length used) < 2 ^ 64" "i < j" "j < Suc (length hs)"
      "handle_at (hoHandle ((hs @ [\<lparr>hoHandle = h, hoDeadline = d, hoDone = b\<rparr>]) ! i)) =
       handle_at (hoHandle ((hs @ [\<lparr>hoHandle = h, hoDeadline = d, hoDone = b\<rparr>]) ! j))" for i j
    using that f [of "hs ! i"] ok by (cases "j < length hs") (auto simp: nth_append handles_ok_def)
  ultimately show ?thesis using ok new by (auto simp: handles_ok_def)
qed

lemma handles_ok_used: "handles_ok own used hs \<Longrightarrow> handles_ok own (tok # used) hs"
  by (auto simp: handles_ok_def)

text \<open>A step that replaces one engine, and one that replaces none.\<close>

lemma inv_engine_step:
  assumes inv: "lock_world_inv own s" and at: "engine_at a e (lwWorld s) w'"
    and mono: "lwNow s \<le> now'" "set (lwUsed s) \<subseteq> set used'" "length (lwUsed s) \<le> length used'"
    and hs: "handles_ok own used' hs'" and e: "engine_ok a now' used' hs' e"
    and rest: "\<And>x'. x' \<in> set hs' \<Longrightarrow> handle_at (hoHandle x') \<noteq> a \<Longrightarrow> x' \<in> set (lwHolders s)"
  shows "lock_world_inv own \<lparr>lwNow = now', lwWorld = w', lwUsed = used', lwHolders = hs'\<rparr>"
proof -
  have "one_owner own w'"
    using inv engine_at_get [OF at] one_owner_cong [of own "lwWorld s" w'] unfolding lock_world_inv_def by blast
  moreover have "gm_get w' (handle_at (hoHandle x)) \<noteq> None" if "x \<in> set hs'" for x
  proof -
    have "gm_get (lwWorld s) (handle_at (hoHandle x)) \<noteq> None"
      using rest [OF that] inv at by (cases "handle_at (hoHandle x) = a") (auto simp: lock_world_inv_def engine_at_def)
    then show ?thesis by (rule engine_at_dom [OF at])
  qed
  moreover have "engine_ok b now' used' hs' (cLocks c')" if g: "gm_get w' b = Some c'" for b c'
  proof (cases "b = a")
    case True
    then show ?thesis using engine_at_get [OF at g] e by auto
  next
    case False
    then obtain c where "gm_get (lwWorld s) b = Some c" "cLocks c' = cLocks c" using engine_at_get [OF at g] by auto
    then have "engine_ok b (lwNow s) (lwUsed s) (lwHolders s) (cLocks c')" using inv by (auto simp: lock_world_inv_def)
    then show ?thesis by (rule engine_ok_weaken [OF _ mono]) (use rest False in blast)
  qed
  ultimately show ?thesis using hs unfolding lock_world_inv_def by simp
qed

lemma inv_same_engines:
  assumes inv: "lock_world_inv own s" and v: "views lock_view w' = views lock_view (lwWorld s)"
    and mono: "lwNow s \<le> now'" "set (lwUsed s) \<subseteq> set used'" "length (lwUsed s) \<le> length used'"
    and hs: "handles_ok own used' hs'"
    and rest: "\<And>x'. x' \<in> set hs' \<Longrightarrow>
      \<exists>x \<in> set (lwHolders s). hoHandle x = hoHandle x' \<and> (\<not> hoDone x' \<longrightarrow> \<not> hoDone x \<and> hoDeadline x' \<le> hoDeadline x)"
  shows "lock_world_inv own \<lparr>lwNow = now', lwWorld = w', lwUsed = used', lwHolders = hs'\<rparr>"
proof -
  have "\<exists>c. gm_get (lwWorld s) a = Some c \<and> snd (lock_view c') = snd (lock_view c)" if "gm_get w' a = Some c'" for a c'
    using same_views_get [OF v that] by auto
  then have "one_owner own w'" using inv one_owner_cong [of own "lwWorld s" w'] unfolding lock_world_inv_def by blast
  moreover have "gm_get w' (handle_at (hoHandle x)) \<noteq> None" if "x \<in> set hs'" for x
  proof -
    have "gm_get (lwWorld s) (handle_at (hoHandle x)) \<noteq> None"
      using rest [OF that] inv unfolding lock_world_inv_def by metis
    then show ?thesis unfolding views_dom [where V = lock_view, symmetric] v .
  qed
  moreover have "engine_ok b now' used' hs' (cLocks c')" if g: "gm_get w' b = Some c'" for b c'
  proof -
    obtain c where "gm_get (lwWorld s) b = Some c" "cLocks c' = cLocks c"
      using same_views_get [OF v g] by (auto simp: lock_view_def)
    then have "engine_ok b (lwNow s) (lwUsed s) (lwHolders s) (cLocks c')" using inv by (auto simp: lock_world_inv_def)
    then show ?thesis by (rule engine_ok_weaken [OF _ mono]) (use rest in blast)
  qed
  ultimately show ?thesis using hs unfolding lock_world_inv_def by simp
qed

lemma lock_world_updates:
  "s\<lparr>lwWorld := w', lwHolders := hs'\<rparr> = \<lparr>lwNow = lwNow s, lwWorld = w', lwUsed = lwUsed s, lwHolders = hs'\<rparr>"
  "s\<lparr>lwNow := t, lwWorld := w', lwHolders := hs'\<rparr> = \<lparr>lwNow = t, lwWorld = w', lwUsed = lwUsed s, lwHolders = hs'\<rparr>"
  "s\<lparr>lwNow := t, lwWorld := w'\<rparr> = \<lparr>lwNow = t, lwWorld = w', lwUsed = lwUsed s, lwHolders = lwHolders s\<rparr>"
  by (cases s; simp)+

lemma lock_world_invD:
  assumes "lock_world_inv own s"
  shows "one_owner own (lwWorld s)" "handles_ok own (lwUsed s) (lwHolders s)"
    "gm_get (lwWorld s) a = Some c \<Longrightarrow> engine_ok a (lwNow s) (lwUsed s) (lwHolders s) (cLocks c)"
  using assms unfolding lock_world_inv_def by blast+

lemma inv_attempt:
  assumes inv: "lock_world_inv own s" and ok: "codec_ok (eCodec env)"
    and t: "lwNow s \<le> clk 0" "clk 0 \<le> clk 1" and fresh: "generateToken random \<notin> set (lwUsed s)"
    and e: "lock_attempt env clk random ft self k ttl (lwWorld s) = (w', r)"
  shows "lock_world_inv own
       \<lparr>lwNow = clk 1, lwWorld = w', lwUsed = generateToken random # lwUsed s,
        lwHolders = lwHolders s @ (case r of
          Some (Inr h) \<Rightarrow> [\<lparr>hoHandle = h, hoDeadline = time_add (clk 1) ttl, hoDone = False\<rparr>] | _ \<Rightarrow> [])\<rparr>"
    (is "lock_world_inv own \<lparr>lwNow = _, lwWorld = _, lwUsed = ?used, lwHolders = _ @ ?new\<rparr>")
proof -
  note D = lock_world_invD [OF inv]
  note H = handles_ok_used [OF D(2)]
  from attempt_effect [OF ok D(1) e] show ?thesis
  proof
    assume a: "views lock_view w' = views lock_view (lwWorld s) \<and> (\<forall>h. r \<noteq> Some (Inr h))"
    then have "?new = []" by (auto split: option.split sum.split)
    then show ?thesis using a H t by (intro inv_same_engines [OF inv]) auto
  next
    let ?acq = "\<lambda>c. Acquire (clk 0) (clk 1) random k ttl (lock_owner c) (cLocks c)"
    assume "\<exists>c. gm_get (lwWorld s) (own k) = Some c \<and> engine_at (own k) (fst (?acq c)) (lwWorld s) w' \<and>
      (\<forall>h. r = Some (Inr h) \<longrightarrow> snd (?acq c) = Some (hToken h, hFencing h) \<and> hKey h = k \<and> handle_at h = own k \<and>
         hOwnerAddr h \<noteq> hCache h)"
    then obtain c where c: "gm_get (lwWorld s) (own k) = Some c" "engine_at (own k) (fst (?acq c)) (lwWorld s) w'"
      and h: "\<And>h. r = Some (Inr h) \<Longrightarrow> snd (?acq c) = Some (hToken h, hFencing h) \<and> hKey h = k \<and> handle_at h = own k \<and>
         hOwnerAddr h \<noteq> hCache h" by blast
    note E = D(3) [OF c(1)]
    have new: "\<And>x. x \<in> set ?new \<Longrightarrow> r = Some (Inr (hoHandle x)) \<and> hoDeadline x = time_add (clk 1) ttl"
      by (auto split: option.splits sum.splits)
    have "handles_ok own ?used (lwHolders s @ ?new)"
    proof (cases "\<exists>h. r = Some (Inr h)")
      case True
      then obtain h' where r: "r = Some (Inr h')" by blast
      have q: "snd (?acq c) = Some (generateToken random, fencingSeq (cLocks c) + 1)"
        using h [OF r] Acquire_cases [OF prod.collapse [symmetric, of "?acq c"]] by auto
      then have "hFencing (hoHandle x) < hFencing h'"
        if "x \<in> set (lwHolders s)" "Suc (length (lwUsed s)) < 2 ^ 64" "handle_at (hoHandle x) = handle_at h'" for x
        using engine_ok_fencing [OF E that(2,1)] that(3) h [OF r] by simp
      then show ?thesis
        using handles_ok_append [OF D(2), of h' "generateToken random"] fresh h [OF r] q r by simp
    next
      case False
      then have "?new = []" by (auto split: option.split sum.split)
      then show ?thesis using H by simp
    qed
    moreover have "engine_ok (own k) (clk 1) ?used (lwHolders s @ ?new) (fst (?acq c))"
    proof (rule engine_ok_acquire [OF E t fresh prod.collapse [symmetric]])
      fix x assume "x \<in> set ?new"
      then show "\<exists>tok f. snd (?acq c) = Some (tok, f) \<and> hKey (hoHandle x) = k \<and> hToken (hoHandle x) = tok \<and>
          hFencing (hoHandle x) = f \<and> hoDeadline x = time_add (clk 1) ttl"
        using h [of "hoHandle x"] new [of x] by simp
    qed
    moreover have "x \<in> set (lwHolders s)" if "x \<in> set (lwHolders s @ ?new)" "handle_at (hoHandle x) \<noteq> own k" for x
      using that h [of "hoHandle x"] new [of x] by auto
    ultimately show ?thesis using t by (intro inv_engine_step [OF inv c(2)]) auto
  qed
qed

lemma inv_release:
  assumes inv: "lock_world_inv own s" and ok: "codec_ok (eCodec env)" and h: "h \<in> hoHandle ` set (lwHolders s)"
    and e: "handle_Release env clk ft h (lwWorld s) = (w', r)"
  shows "lock_world_inv own (s\<lparr>lwWorld := w', lwHolders := map (on_handle h (\<lambda>x. x\<lparr>hoDone := True\<rparr>)) (lwHolders s)\<rparr>)"
proof -
  note D = lock_world_invD [OF inv]
  note H = handles_ok_cong [OF hoHandle_on_handle(1) [of h True] D(2)]
  have ne: "hOwnerAddr h \<noteq> hCache h" using D(2) h unfolding handles_ok_def by blast
  from release_effect [OF ok ne e] show ?thesis unfolding lock_world_updates(1)
  proof
    assume "views lock_view w' = views lock_view (lwWorld s)"
    then show "lock_world_inv own \<lparr>lwNow = lwNow s, lwWorld = w', lwUsed = lwUsed s,
        lwHolders = map (on_handle h (\<lambda>x. x\<lparr>hoDone := True\<rparr>)) (lwHolders s)\<rparr>"
      using H by (intro inv_same_engines [OF inv]) (auto simp: on_handle_def)
  next
    assume "\<exists>c. gm_get (lwWorld s) (handle_at h) = Some c \<and>
      engine_at (handle_at h) (fst (Release (hKey h) (hToken h) (cLocks c))) (lwWorld s) w'"
    then obtain c where c: "gm_get (lwWorld s) (handle_at h) = Some c"
      "engine_at (handle_at h) (fst (Release (hKey h) (hToken h) (cLocks c))) (lwWorld s) w'" by blast
    show "lock_world_inv own \<lparr>lwNow = lwNow s, lwWorld = w', lwUsed = lwUsed s,
        lwHolders = map (on_handle h (\<lambda>x. x\<lparr>hoDone := True\<rparr>)) (lwHolders s)\<rparr>"
    proof (rule inv_engine_step [OF inv c(2) order.refl order.refl order.refl H])
      show "engine_ok (handle_at h) (lwNow s) (lwUsed s) (map (on_handle h (\<lambda>x. x\<lparr>hoDone := True\<rparr>)) (lwHolders s))
          (fst (Release (hKey h) (hToken h) (cLocks c)))"
        using handles_ok_token [OF D(2) h] by (intro engine_ok_release [OF D(3) [OF c(1)] prod.collapse [symmetric]]) blast
    qed (auto simp: on_handle_def)
  qed
qed

lemma deadline_after_tells:
  "tells r b \<Longrightarrow> deadline_after r new old \<le> (if b then new else old)"
  by (cases r; cases "the r") (auto simp: tells_def)

lemma inv_extend:
  assumes inv: "lock_world_inv own s" and ok: "codec_ok (eCodec env)" and t: "lwNow s \<le> clk 0" "clk 0 \<le> clk 1"
    and h: "h \<in> hoHandle ` set (lwHolders s)" and e: "handle_Extend env clk ft ttl h (lwWorld s) = (w', r)"
  shows "lock_world_inv own (s\<lparr>lwNow := clk 1, lwWorld := w', lwHolders :=
    map (on_handle h (\<lambda>x. x\<lparr>hoDeadline := deadline_after r (time_add (clk 1) ttl) (hoDeadline x)\<rparr>)) (lwHolders s)\<rparr>)"
proof -
  let ?d = "\<lambda>x. deadline_after r (time_add (clk 1) ttl) (hoDeadline x)"
  let ?hs = "map (on_handle h (\<lambda>x. x\<lparr>hoDeadline := ?d x\<rparr>)) (lwHolders s)"
  note D = lock_world_invD [OF inv]
  note H = handles_ok_cong [OF hoHandle_on_handle(2) [of h ?d] D(2)]
  have ne: "hOwnerAddr h \<noteq> hCache h" using D(2) h unfolding handles_ok_def by blast
  from extend_effect [OF ok ne e]
  have "lock_world_inv own \<lparr>lwNow = clk 1, lwWorld = w', lwUsed = lwUsed s, lwHolders = ?hs\<rparr>"
  proof
    assume a: "views lock_view w' = views lock_view (lwWorld s) \<and> tells r False"
    then have "?d x \<le> hoDeadline x" for x using deadline_after_tells [of r False] by simp
    then have "\<exists>x \<in> set (lwHolders s). hoHandle x = hoHandle x' \<and> (\<not> hoDone x' \<longrightarrow> \<not> hoDone x \<and> hoDeadline x' \<le> hoDeadline x)"
      if "x' \<in> set ?hs" for x'
      using that by (fastforce simp: on_handle_def)
    then show ?thesis using a H t by (intro inv_same_engines [OF inv]) simp_all
  next
    let ?ext = "\<lambda>c. Extend (clk 0) (clk 1) (hKey h) (hToken h) ttl (cLocks c)"
    assume "\<exists>c. gm_get (lwWorld s) (handle_at h) = Some c \<and>
      engine_at (handle_at h) (fst (?ext c)) (lwWorld s) w' \<and> tells r (snd (?ext c))"
    then obtain c where c: "gm_get (lwWorld s) (handle_at h) = Some c"
      "engine_at (handle_at h) (fst (?ext c)) (lwWorld s) w'" "tells r (snd (?ext c))" by blast
    have mono: "lwNow s \<le> clk 1" using t by simp
    show ?thesis
    proof (rule inv_engine_step [OF inv c(2) mono order.refl order.refl H])
      show "engine_ok (handle_at h) (clk 1) (lwUsed s) ?hs (fst (?ext c))"
      proof (rule engine_ok_extend [OF D(3) [OF c(1)] t prod.collapse [symmetric]])
        show "hoHandle x = h" if "x \<in> set (lwHolders s)" "hToken (hoHandle x) = hToken h" for x
          using handles_ok_token [OF D(2) h that] .
        show "?d x \<le> (if snd (?ext c) then time_add (clk 1) ttl else hoDeadline x)" for x
          using deadline_after_tells [OF c(3)] .
      qed
    qed (auto simp: on_handle_def)
  qed
  then show ?thesis unfolding lock_world_updates(2) .
qed

lemma inv_cleanup:
  assumes inv: "lock_world_inv own s" and clk: "\<And>i. lwNow s \<le> clk i \<and> clk i \<le> t"
  shows "lock_world_inv own
    (s\<lparr>lwNow := t, lwWorld := on_node a (\<lambda>c. c\<lparr>cLocks := cleanup_tick clk (cLocks c)\<rparr>) (lwWorld s)\<rparr>)"
proof (cases "gm_get (lwWorld s) a")
  case None
  note D = lock_world_invD [OF inv]
  have "lwNow s \<le> t" using clk [of 0] by simp
  then show ?thesis
    unfolding lock_world_updates(3) using None D(2) by (intro inv_same_engines [OF inv]) (auto simp: on_node_def)
next
  case (Some c)
  note D = lock_world_invD [OF inv]
  have t: "lwNow s \<le> t" using clk [of 0] by simp
  show ?thesis
    unfolding lock_world_updates(3) using Some t D(2) engine_ok_cleanup [OF D(3) [OF Some] clk] engine_at_set [OF Some]
    by (intro inv_engine_step [OF inv, of a "cleanup_tick clk (cLocks c)"]) (simp_all add: on_node_def)
qed

lemma inv_init:
  assumes "one_owner own w" "fresh_engines w"
  shows "lock_world_inv own \<lparr>lwNow = t, lwWorld = w, lwUsed = [], lwHolders = []\<rparr>"
proof -
  have "engine_ok a t [] [] NewEngine" for a
    by (rule engine_okI [of _ _ _ _ "lock_init t"]) (simp_all add: explains_def lock_init_def lock_reachable.init [unfolded lock_init_def])
  then show ?thesis using assms by (simp add: lock_world_inv_def handles_ok_def fresh_engines_def)
qed

lemma lock_world_reachable_inv:
  assumes "lock_world_reachable env w0 s" "codec_ok (eCodec env)" "one_owner own w0" "fresh_engines w0"
  shows "lock_world_inv own s"
  using assms(1)
proof induction
  case lw_init
  show ?case using assms(3,4) by (rule inv_init)
next
  case (lw_step s s')
  from lw_step.hyps(2) show ?case
  proof cases
    case (lw_attempt clk random ft self k ttl w' r)
    show ?thesis unfolding lw_attempt(1) by (rule inv_attempt [OF lw_step.IH assms(2) lw_attempt(2-5)])
  next
    case (lw_release h clk ft w' r)
    show ?thesis unfolding lw_release(1) by (rule inv_release [OF lw_step.IH assms(2) lw_release(2,3)])
  next
    case (lw_extend clk h ft ttl w' r)
    show ?thesis unfolding lw_extend(1) by (rule inv_extend [OF lw_step.IH assms(2) lw_extend(2-5)])
  next
    case (lw_cleanup clk t a)
    show ?thesis unfolding lw_cleanup(1) by (rule inv_cleanup [OF lw_step.IH lw_cleanup(2)])
  next
    case (lw_other t w')
    then show ?thesis
      unfolding lw_other(1) lock_world_updates(3)
      using lock_world_invD(2) [OF lw_step.IH] by (intro inv_same_engines [OF lw_step.IH]) auto
  qed
qed

end
