(* ===== verification/Lock_Cluster_Props.thy ===== *)
theory Lock_Cluster_Props
  imports Lock_Cluster Lock_Props Cluster_Props
begin

text \<open>
  The properties of distributed locks: a lock has at most one holder in the whole cluster, a free lock can be
  taken from every node, and \<open>Lock\<close> returns after at most one attempt more than its number of retries.
\<close>

section \<open>Lemmas\<close>

lemma holding_unique:
  assumes inv: "lock_world_inv own s" and x: "holding s x" and y: "holding s y"
    and k: "hKey (hoHandle x) = hKey (hoHandle y)"
  shows "hToken (hoHandle x) = hToken (hoHandle y)"
proof -
  let ?a = "own (hKey (hoHandle x))"
  have xy: "x \<in> set (lwHolders s)" "\<not> hoDone x" "lwNow s \<le> hoDeadline x"
    "y \<in> set (lwHolders s)" "\<not> hoDone y" "lwNow s \<le> hoDeadline y"
    using x y by (simp_all add: holding_def)
  have at: "handle_at (hoHandle x) = ?a" "handle_at (hoHandle y) = ?a"
    using lock_world_invD(2) [OF inv] xy(1,4) k by (simp_all add: handles_ok_def)
  have "gm_get (lwWorld s) ?a \<noteq> None" using inv xy(1) at(1) unfolding lock_world_inv_def by metis
  then obtain c where "gm_get (lwWorld s) ?a = Some c" by blast
  then obtain e where e: "explains ?a (lwNow s) (lwUsed s) (lwHolders s) e"
    using lock_world_invD(3) [OF inv] unfolding engine_ok_def by blast
  note D = explainsD [OF e]
  obtain g where g: "g \<in> set (grants e)" "gKey g = hKey (hoHandle x)" "gToken g = hToken (hoHandle x)"
    "\<not> gReleased g" "hoDeadline x \<le> gDeadline g"
    using explainsE [OF e xy(1) at(1)] xy(2) by blast
  obtain h where h: "h \<in> set (grants e)" "gKey h = hKey (hoHandle y)" "gToken h = hToken (hoHandle y)"
    "\<not> gReleased h" "hoDeadline y \<le> gDeadline h"
    using explainsE [OF e xy(4) at(2)] xy(5) by blast
  have "holds_at (lnow e) g" "holds_at (lnow e) h" using D(2) g(4,5) h(4,5) xy(3,6) by (simp_all add: holds_at_def)
  then have "g = h" using lock_mutual_exclusion [OF D(1) g(1) h(1)] g(2) h(2) k by simp
  then show ?thesis using g(3) h(3) by simp
qed

text \<open>A fault-free attempt at a lock that is not held.\<close>

lemma lock_attempt_free:
  assumes own: "one_owner own w" and ok: "codec_ok (eCodec env)" and self: "gm_get w self = Some c"
    and p: "gm_get w (own k) = Some p" "\<not> cStopped p" and free: "\<not> IsHeld (clk 0) k (cLocks p)"
  shows "\<exists>w' h. lock_attempt env clk random NoFault self k ttl w = (w', Some (Inr h)) \<and>
    hKey h = k \<and> hFencing h = fencingSeq (cLocks p) + 1 \<and> (\<forall>b. gm_get w b \<noteq> None \<longrightarrow> gm_get w' b \<noteq> None) \<and>
    (\<exists>p'. gm_get w' (own k) = Some p' \<and> \<not> cStopped p' \<and>
       cLocks p' = fst (Acquire (clk 0) (clk 1) random k ttl (lock_owner p) (cLocks p)))"
proof -
  note o = one_ownerD [OF own self, of k]
  obtain e' q where a: "Acquire (clk 0) (clk 1) random k ttl (lock_owner p) (cLocks p) = (e', q)" by fastforce
  have q: "q = Some (generateToken random, fencingSeq (cLocks p) + 1)" using Acquire_cases [OF a] free by blast
  show ?thesis
  proof (cases "self = own k")
    case True
    then have "p = c" using p(1) self by simp
    then show ?thesis using a q self o True p(2) by (simp add: lock_attempt_def)
  next
    case False
    let ?req = "zero_request\<lparr>rOp := opLockAcquire, rKey := k, rTTL := ttl\<rparr>"
    let ?p' = "p\<lparr>cLocks := e'\<rparr>"
    let ?w' = "gm_set (own k) ?p' (gm_set self (pooled (own k) c) w)"
    let ?r = "zero_response\<lparr>pToken := generateToken random, pFencingToken := fencingSeq (cLocks p) + 1, pAcquired := True\<rparr>"
    have "fst (processRequest env clk random ?req p) = ?p'" "snd (processRequest env clk random ?req p) = ?r"
      unfolding process_locks a q by simp_all
    then have "processRequest env clk random ?req p = (?p', ?r)" by (simp add: prod_eq_iff)
    then have "call env clk random NoFault self (own k) ?req w = (?w', Inr ?r)"
      using call_ok [OF ok self p False] by simp
    then show ?thesis using self o False a p(2) by (simp add: lock_attempt_def RemoteLockAcquire_def Let_def)
  qed
qed

lemma sint_inc: "sint (a :: int64) < 2 ^ 63 - 1 \<Longrightarrow> sint (a + 1) = sint a + 1"
proof -
  assume "sint a < 2 ^ 63 - 1"
  then have "sint (word_of_int (sint a + 1) :: int64) = sint a + 1"
    using sint64_bounds(1) [of a] by (intro sint_word_of_int_id) auto
  then show ?thesis by simp
qed

text \<open>The loop of \<open>Lock\<close> draws from the clock, the random source and the network for the attempts left only.\<close>

lemma lock_loop_returns:
  assumes "sint (loRetryCount opts) < 2 ^ 63 - 1" "nat (sint (loRetryCount opts) - sint attempt + 1) = n"
  shows "\<exists>r. \<forall>clk' random' ft' others'.
    (\<forall>j. i \<le> j \<and> j < i + n \<longrightarrow> clk' j = clk j \<and> random' j = random j \<and> ft' j = ft j \<and> others' j = others j) \<longrightarrow>
    lock_loop env clk' random' ft' others' self k opts attempt i w = Some r"
  using assms(2)
proof (induction n arbitrary: attempt i w)
  case 0
  then have "less64 (loRetryCount opts) attempt" by (simp add: less64_def)
  then show ?case by (subst lock_loop.simps) simp
next
  case (Suc n)
  have le: "sint attempt \<le> sint (loRetryCount opts)" using Suc.prems by simp
  then have "sint (attempt + 1) = sint attempt + 1" using assms(1) by (intro sint_inc) simp
  then have n: "nat (sint (loRetryCount opts) - sint (attempt + 1) + 1) = n" using Suc.prems by simp
  obtain w1 r1 where a: "lock_attempt env (clk i) (random i) (ft i) self k (loTTL opts) w = (w1, r1)" by fastforce
  let ?w2 = "if less64 attempt (loRetryCount opts) then others i w1 else w1"
  obtain r where r: "\<And>clk' random' ft' others'.
    (\<forall>j. Suc i \<le> j \<and> j < Suc i + n \<longrightarrow> clk' j = clk j \<and> random' j = random j \<and> ft' j = ft j \<and> others' j = others j) \<Longrightarrow>
    lock_loop env clk' random' ft' others' self k opts (attempt + 1) (Suc i) ?w2 = Some r"
    using Suc.IH [OF n, of "Suc i" ?w2] by blast
  have "lock_loop env clk' random' ft' others' self k opts attempt i w = (case r1 of Some q \<Rightarrow> Some (w1, q) | None \<Rightarrow> Some r)"
    if eq: "\<forall>j. i \<le> j \<and> j < i + Suc n \<longrightarrow> clk' j = clk j \<and> random' j = random j \<and> ft' j = ft j \<and> others' j = others j"
    for clk' random' ft' others'
  proof -
    have i: "clk' i = clk i" "random' i = random i" "ft' i = ft i" "others' i = others i" using eq by simp_all
    have "lock_loop env clk' random' ft' others' self k opts (attempt + 1) (Suc i) ?w2 = Some r"
      by (rule r) (use eq in simp)
    moreover have "\<not> less64 (loRetryCount opts) attempt" using le by (simp add: less64_def)
    ultimately show ?thesis using i a by (subst lock_loop.simps) (simp split: option.split if_splits)
  qed
  then show ?case by (cases r1) auto
qed

lemma demo_one_owner: "one_owner (\<lambda>k. demo_addr (GetNode k demo_ring)) (demo_world md)"
  by (rule same_members_one_owner [OF demo_clash_free2 demo_same_members demo_ring_of])

lemma demo_fresh_engines: "fresh_engines (demo_world md)"
  by (auto simp: fresh_engines_def demo_world_def demo_cache_def split: if_splits)

lemma demo_run:
  defines "k \<equiv> ''__lock:k''" and "w0 \<equiv> demo_world Replicated"
  obtains s where "lock_world_reachable demo_env w0 s" "length (lwHolders s) = 2"
    "hKey (hoHandle (lwHolders s ! 0)) = k" "hKey (hoHandle (lwHolders s ! 1)) = k"
    "holding s (lwHolders s ! 1)" "length (lwUsed s) < 2 ^ 64"
proof -
  let ?own = "\<lambda>k. demo_addr (GetNode k demo_ring)"
  let ?c1 = "\<lambda>i::nat. if i = 0 then 1 else 2 :: instant" and ?c2 = "\<lambda>i::nat. if i = 0 then 13 else 14 :: instant"
  let ?s0 = "\<lparr>lwNow = 0, lwWorld = w0, lwUsed = [], lwHolders = []\<rparr>"
  note ok = demo_codec_ok(1)
  note own = demo_one_owner [of Replicated, folded w0_def]
  have fresh: "fresh_engines w0" unfolding w0_def by (rule demo_fresh_engines)
  have r0: "lock_world_reachable demo_env w0 ?s0" by (rule lock_world_reachable.lw_init)
  obtain c1 c2 where c: "gm_get w0 ''a1'' = Some c1" "gm_get w0 ''a2'' = Some c2"
    by (simp add: w0_def demo_world_def)
  obtain p where p: "gm_get w0 (?own k) = Some p" "\<not> cStopped p" "cLocks p = NewEngine"
    using demo_node [of Replicated "GetNode k demo_ring"] unfolding w0_def by blast
  have f1: "\<not> IsHeld (?c1 0) k (cLocks p)" by (simp add: p(3) IsHeld_def NewEngine_def)
  obtain w1 h1 p1 where h1: "lock_attempt demo_env ?c1 [1] NoFault ''a1'' k 10 w0 = (w1, Some (Inr h1))" "hKey h1 = k"
    and dom: "\<And>b. gm_get w0 b \<noteq> None \<Longrightarrow> gm_get w1 b \<noteq> None"
    and p1: "gm_get w1 (?own k) = Some p1" "\<not> cStopped p1"
      "cLocks p1 = fst (Acquire (?c1 0) (?c1 1) [1] k 10 (lock_owner p) (cLocks p))"
    using lock_attempt_free [where clk = ?c1 and random = "[1]" and ttl = 10, OF own ok c(1) p(1,2) f1] by blast
  let ?s1 = "\<lparr>lwNow = 2, lwWorld = w1, lwUsed = [generateToken [1]],
    lwHolders = [\<lparr>hoHandle = h1, hoDeadline = time_add 2 10, hoDone = False\<rparr>]\<rparr>"
  have "lock_world_step demo_env ?s0 ?s1"
    using lock_world_step.lw_attempt [of ?s0 ?c1 "[1]" demo_env NoFault "''a1''" k 10 w1 "Some (Inr h1)"] h1 by simp
  then have r1: "lock_world_reachable demo_env w0 ?s1" using r0 lock_world_reachable.lw_step by blast
  have own1: "one_owner ?own w1"
    using lock_world_invD(1) [OF lock_world_reachable_inv [OF r1 ok own fresh]] by simp
  obtain c2' where c2': "gm_get w1 ''a2'' = Some c2'" using dom [of "''a2''"] c(2) by blast
  have f2: "\<not> IsHeld (?c2 0) k (cLocks p1)"
    unfolding p1(3) p(3) by (simp add: Acquire_def NewEngine_def IsHeld_def lock_IsExpired_def time_add_def Let_def)
  obtain w2 h2 where h2: "lock_attempt demo_env ?c2 [2] NoFault ''a2'' k 10 w1 = (w2, Some (Inr h2))" "hKey h2 = k"
    using lock_attempt_free [where clk = ?c2 and random = "[2]" and ttl = 10, OF own1 ok c2' p1(1,2) f2] by blast
  let ?s2 = "\<lparr>lwNow = 14, lwWorld = w2, lwUsed = [generateToken [2], generateToken [1]],
    lwHolders = [\<lparr>hoHandle = h1, hoDeadline = time_add 2 10, hoDone = False\<rparr>,
                 \<lparr>hoHandle = h2, hoDeadline = time_add 14 10, hoDone = False\<rparr>]\<rparr>"
  have "generateToken [2] \<noteq> generateToken [1]" by (simp add: generateToken_def hex_digit_def)
  then have "lock_world_step demo_env ?s1 ?s2"
    using lock_world_step.lw_attempt [of ?s1 ?c2 "[2]" demo_env NoFault "''a2''" k 10 w2 "Some (Inr h2)"] h2 by simp
  then have "lock_world_reachable demo_env w0 ?s2" using r1 lock_world_reachable.lw_step by blast
  then show ?thesis by (rule that) (use h1(2) h2(2) in \<open>simp_all add: holding_def time_add_def\<close>)
qed

section \<open>Properties\<close>

text \<open>
  C2: Mutual exclusion of distributed locks. Nodes that agree on the members of the cluster start with empty
  lock engines, and then try locks, retry, release and extend them from any node, with any failure of any
  request, while engines clean up and nodes do anything else, in any order. At every moment at most one handle
  for a key is in force (not given back, before its deadline). Later handles for a key carry larger fencing
  numbers, as long as fewer than 2^64 tokens were drawn.\<close>

theorem cluster_lock_exclusive:
  assumes "clash_free v M" "same_members v M addr w0" "codec_ok (eCodec env)" "fresh_engines w0"
    and "lock_world_reachable env w0 s" "i < length (lwHolders s)" "j < length (lwHolders s)"
    and "hKey (hoHandle (lwHolders s ! i)) = hKey (hoHandle (lwHolders s ! j))"
  shows "(holding s (lwHolders s ! i) \<and> holding s (lwHolders s ! j) \<longrightarrow> i = j) \<and>
    (i < j \<and> length (lwUsed s) < 2 ^ 64 \<longrightarrow> hFencing (hoHandle (lwHolders s ! i)) < hFencing (hoHandle (lwHolders s ! j)))"
proof -
  obtain own where "one_owner own w0" using same_members_one_owner_ex [OF assms(1,2)] by blast
  then have inv: "lock_world_inv own s" using lock_world_reachable_inv assms(3-5) by blast
  note H = lock_world_invD(2) [OF inv]
  have "i = j" if "holding s (lwHolders s ! i)" "holding s (lwHolders s ! j)"
  proof -
    have "hToken (hoHandle (lwHolders s ! i)) = hToken (hoHandle (lwHolders s ! j))"
      by (rule holding_unique [OF inv that assms(8)])
    moreover have "distinct (map (hToken \<circ> hoHandle) (lwHolders s))" using H by (simp add: handles_ok_def)
    ultimately show ?thesis
      using assms(6,7) nth_eq_iff_index_eq [of "map (hToken \<circ> hoHandle) (lwHolders s)" i j] by simp
  qed
  moreover have "handle_at (hoHandle (lwHolders s ! i)) = handle_at (hoHandle (lwHolders s ! j))"
    using H assms(6-8) by (simp add: handles_ok_def)
  ultimately show ?thesis using H assms(7) unfolding handles_ok_def by blast
qed

theorem cluster_lock_exclusive_witness:
  "\<exists>s. lock_world_reachable demo_env (demo_world Replicated) s \<and> holding s (lwHolders s ! 1) \<and>
    \<not> holding s (lwHolders s ! 0) \<and> hFencing (hoHandle (lwHolders s ! 0)) < hFencing (hoHandle (lwHolders s ! 1))"
proof -
  obtain s where s: "lock_world_reachable demo_env (demo_world Replicated) s" "length (lwHolders s) = 2"
    "hKey (hoHandle (lwHolders s ! 0)) = ''__lock:k''" "hKey (hoHandle (lwHolders s ! 1)) = ''__lock:k''"
    "holding s (lwHolders s ! 1)" "length (lwUsed s) < 2 ^ 64"
    by (rule demo_run)
  show ?thesis
    using cluster_lock_exclusive [OF demo_clash_free2 demo_same_members demo_codec_ok(1) demo_fresh_engines s(1), of 0 1] s
    by (intro exI [of _ s]) auto
qed

text \<open>
  C12: A lock that nobody holds can be taken from every node: when the node that owns the lock listens and the
  network does not fail, \<open>TryLock\<close> at any open node of the cluster gets a handle for it.\<close>

theorem cluster_lock_available:
  assumes "clash_free v M" "same_members v M addr w" "codec_ok (eCodec env)" "key \<noteq> ''''"
    and "gm_get w self = Some c" "\<not> cClosed c"
    and "gm_get w (owner_node self (''__lock:'' @ key) c) = Some p" "\<not> cStopped p"
    and "\<not> IsHeld (clk 0 0) (''__lock:'' @ key) (cLocks p)" "ft 0 = NoFault"
  shows "\<exists>w' h. TryLock env clk random ft others self key ttl w = Some (w', Some h) \<and>
    hKey h = ''__lock:'' @ key \<and> handle_Token h = fencingSeq (cLocks p) + 1"
proof -
  obtain own where own: "one_owner own w" using same_members_one_owner_ex [OF assms(1,2)] by blast
  have o: "owner_node self (''__lock:'' @ key) c = own (''__lock:'' @ key)"
    using one_ownerD [OF own assms(5)] by (simp add: owner_node_def)
  have p: "gm_get w (own (''__lock:'' @ key)) = Some p" using assms(7) unfolding o .
  obtain w' h where h: "lock_attempt env (clk 0) (random 0) NoFault self (''__lock:'' @ key) ttl w = (w', Some (Inr h))"
    "hKey h = ''__lock:'' @ key" "hFencing h = fencingSeq (cLocks p) + 1"
    using lock_attempt_free [where clk = "clk 0", OF own assms(3,5) p assms(8,9)] by blast
  have "lock_loop env clk random ft others self (''__lock:'' @ key) \<lparr>loTTL = ttl, loRetryCount = 0, loRetryDelay = 0\<rparr> 0 0 w =
      Some (w', Inr h)"
    using h(1) assms(10) by (subst lock_loop.simps) (simp add: less64_def)
  moreover have "\<not> is_closed self w" using assms(5,6) by (simp add: is_closed_def)
  ultimately show ?thesis using h assms(4) by (simp add: TryLock_def Lock_def handle_Token_def)
qed

theorem cluster_lock_available_witness:
  "\<exists>w' h. TryLock demo_env (\<lambda>_ _. 5) (\<lambda>_. [1]) (\<lambda>_. NoFault) (\<lambda>_ w. w) ''a1'' ''k'' 10 (demo_world NearCache) =
     Some (w', Some h) \<and> handle_Token h = 1"
proof -
  let ?w = "demo_world NearCache"
  obtain c where c: "gm_get ?w ''a1'' = Some c" "\<not> cClosed c" by (simp add: demo_world_def demo_cache_def)
  have "owner_node ''a1'' (''__lock:'' @ ''k'') c = demo_addr (GetNode (''__lock:'' @ ''k'') demo_ring)"
    using one_ownerD [OF demo_one_owner c(1)] by (simp add: owner_node_def)
  then obtain p where p: "gm_get ?w (owner_node ''a1'' (''__lock:'' @ ''k'') c) = Some p" "\<not> cStopped p" "cLocks p = NewEngine"
    using demo_node by metis
  then have "\<not> IsHeld 5 (''__lock:'' @ ''k'') (cLocks p)" by (simp add: IsHeld_def NewEngine_def)
  then show ?thesis
    using cluster_lock_available [OF demo_clash_free2 demo_same_members demo_codec_ok(1) _ c p(1,2),
        of "\<lambda>_ _. 5" "\<lambda>_. NoFault" "\<lambda>_. [1]" "\<lambda>_ w. w" 10] p(3)
    by (simp add: NewEngine_def) blast
qed

text \<open>
  C11: \<open>Lock\<close> returns, whatever the network answers and whatever the other processes do between its attempts,
  if its number of retries is below the largest \<open>int\<close>, and it makes at most one attempt more than its number of
  retries: the clock, the random source, the network and the other processes beyond that attempt do not
  matter.\<close>

theorem Lock_returns:
  assumes "sint (loRetryCount opts) < 2 ^ 63 - 1"
  shows "\<exists>w' r. \<forall>clk' random' ft' others'.
    (\<forall>j. int j \<le> sint (loRetryCount opts) \<longrightarrow>
       clk' j = clk j \<and> random' j = random j \<and> ft' j = ft j \<and> others' j = others j) \<longrightarrow>
    Lock env clk' random' ft' others' self key opts w = Some (w', r)"
proof -
  obtain r where r: "\<And>clk' random' ft' others'.
    (\<forall>j. 0 \<le> j \<and> j < 0 + nat (sint (loRetryCount opts) - sint (0 :: int64) + 1) \<longrightarrow>
       clk' j = clk j \<and> random' j = random j \<and> ft' j = ft j \<and> others' j = others j) \<Longrightarrow>
    lock_loop env clk' random' ft' others' self (''__lock:'' @ key) opts 0 0 w = Some r"
    using lock_loop_returns [OF assms refl] by blast
  have loop: "lock_loop env clk' random' ft' others' self (''__lock:'' @ key) opts 0 0 w = Some r"
    if "\<forall>j. int j \<le> sint (loRetryCount opts) \<longrightarrow>
       clk' j = clk j \<and> random' j = random j \<and> ft' j = ft j \<and> others' j = others j" for clk' random' ft' others'
    by (rule r) (use that in auto)
  define res where "res = (if key = '''' then (w, Inl ErrKeyEmpty) else if is_closed self w then (w, Inl ErrShutdown) else r)"
  have "Lock env clk' random' ft' others' self key opts w = Some (fst res, snd res)"
    if "\<forall>j. int j \<le> sint (loRetryCount opts) \<longrightarrow>
       clk' j = clk j \<and> random' j = random j \<and> ft' j = ft j \<and> others' j = others j" for clk' random' ft' others'
    unfolding Lock_def loop [OF that] by (simp add: res_def)
  then show ?thesis by blast
qed

theorem Lock_returns_witness:
  "\<exists>w' r. Lock demo_env (\<lambda>_ _. 5) (\<lambda>_. [1]) (\<lambda>_. DialFails) (\<lambda>_ w. w) ''a1'' ''k''
     \<lparr>loTTL = 10, loRetryCount = 3, loRetryDelay = 1\<rparr> (demo_world Partitioned) = Some (w', r)"
proof -
  let ?opts = "\<lparr>loTTL = 10, loRetryCount = 3, loRetryDelay = 1\<rparr>"
  have "sint (loRetryCount ?opts) < 2 ^ 63 - 1" by simp
  from Lock_returns [OF this] show ?thesis by blast
qed

end
