(* ===== verification/Node_Inv.thy ===== *)
theory Node_Inv
  imports Api Partitioned
begin

text \<open>
  Well-formed nodes. \<open>node_inv\<close> collects the invariants of the parts of a node: its store, tag index and broker
  are well formed, every lock token is the hex form of 16 random bytes, ring and membership table are both
  there or both missing, the pending replication calls are no lock requests, and no call has panicked. \<open>New\<close>
  builds well-formed nodes, and every operation of the API, every request of another node, every tick of the
  background loops and every goroutine left behind keeps all nodes of the network well formed, in every mode
  and whatever the network does.
\<close>

section \<open>Definitions\<close>

definition hex_tokens :: "engine \<Rightarrow> bool" where
  "hex_tokens e \<longleftrightarrow> (\<forall>k en. gm_get (locks e) k = Some en \<longrightarrow> length (lToken en) = 32)"

definition node_inv :: "('d, 'v, 'x, 'w) env \<Rightarrow> 'd cache \<Rightarrow> bool" where
  "node_inv env c \<longleftrightarrow> st_inv (eApi env) (cStore c) \<and> tag_inv (cTags c) \<and> broker_inv (cBroker c) \<and>
     length (heap (cBroker c)) < 2 ^ 64 \<and> gm_wf (locks (cLocks c)) \<and> hex_tokens (cLocks c) \<and>
     (cRing c = None \<longleftrightarrow> cState c = None) \<and>
     (\<forall>(a, req) \<in> set (cSpawned c). rOp req \<noteq> opLockAcquire) \<and> \<not> cPanicked c"

definition world_inv :: "('d, 'v, 'x, 'w) env \<Rightarrow> 'd world \<Rightarrow> bool" where
  "world_inv env w \<longleftrightarrow> (\<forall>a c. gm_get w a = Some c \<longrightarrow> node_inv env c)"

text \<open>
  The steps of a network: every operation of the API at any node, with any arguments and any fault of the
  requests it sends, and the background work. Clock readings of one operation do not run backwards, a lock
  token is drawn from 16 bytes, and a node has fewer than 2^64 subscriptions. A call of \<open>Lock\<close> is the sequence of
  its attempts.
\<close>

inductive api_step :: "('d, 'v, 'x, 'w) env \<Rightarrow> 'd world \<Rightarrow> 'd world \<Rightarrow> bool" for env where
  api_Set: "mono clk \<Longrightarrow> api_step env w (fst (cache_Set env clk ts ft self key val ttl w))"
| api_Get: "mono clk \<Longrightarrow> api_step env w (fst (cache_Get env clk ft self key dest w))"
| api_Delete: "mono clk \<Longrightarrow> api_step env w (cache_Delete env clk ts ft self key w)"
| api_Exists: "mono clk \<Longrightarrow> api_step env w (fst (cache_Exists env clk ft self key w))"
| api_TTL: "mono clk \<Longrightarrow> api_step env w (fst (cache_TTL env clk self key w))"
| api_Incr: "mono clk \<Longrightarrow> api_step env w (fst (cache_Incr env clk ft self key delta w))"
| api_Decr: "mono clk \<Longrightarrow> api_step env w (fst (cache_Decr env clk ft self key delta w))"
| api_GetOrSet: "mono clk1 \<Longrightarrow> mono clk2 \<Longrightarrow>
    api_step env w (fst (cache_GetOrSet env clk1 clk2 ts ft1 ft2 self key dest ttl fn w))"
| api_MGet: "(\<And>i. mono (clk2 i)) \<Longrightarrow> api_step env w (fst (cache_MGet env clk2 fts self keys w))"
| api_MSet: "(\<And>i. mono (clk2 i)) \<Longrightarrow> api_step env w (fst (cache_MSet env clk2 tss fts self its w))"
| api_SetWithTags: "mono clk \<Longrightarrow> api_step env w (fst (SetWithTags env clk ts ft self key val ttl tags w))"
| api_InvalidateTag: "(\<And>i. mono (clk2 i)) \<Longrightarrow> api_step env w (InvalidateTag env clk2 tss fts self tag w)"
| api_lock_attempt: "mono clk \<Longrightarrow> length random = 16 \<Longrightarrow>
    api_step env w (fst (lock_attempt env clk random ft self key ttl w))"
| api_Release: "mono clk \<Longrightarrow> api_step env w (fst (handle_Release env clk ft h w))"
| api_Extend: "mono clk \<Longrightarrow> api_step env w (fst (handle_Extend env clk ft ttl h w))"
| api_RateLimit: "api_step env w (on_node self (\<lambda>c. fst (RateLimit env t key opts c)) w)"
| api_RateLimitSliding: "api_step env w (on_node self (\<lambda>c. fst (RateLimitSliding env t key sopts c)) w)"
| api_Subscribe: "gm_get w self = Some c \<Longrightarrow> Suc (length (heap (cBroker c))) < 2 ^ 64 \<Longrightarrow>
    api_step env w (gm_set self (fst (cache_Subscribe pattern c)) w)"
| api_Close: "gm_get w self = Some c \<Longrightarrow> r < length (heap (cBroker c)) \<Longrightarrow>
    api_step env w (gm_set self (subscription_Close r c) w)"
| api_recv: "gm_get w self = Some c \<Longrightarrow> r < length (heap (cBroker c)) \<Longrightarrow>
    api_step env w (gm_set self (fst (subscription_recv r c)) w)"
| api_hook: "f \<in> {cache_OnHit fn, cache_OnMiss fn, cache_OnEvict fn, cache_OnSet fn, cache_OnDelete fn} \<Longrightarrow>
    api_step env w (on_node self f w)"
| api_Shutdown: "api_step env w (cache_Shutdown self w)"
| api_gossip: "gm_get w self = Some c \<Longrightarrow> gossip unmarshal ev (m, c) = Some (m', c') \<Longrightarrow>
    api_step env w (gm_set self c' w)"
| api_sweep: "api_step env w (on_node self (sweeper_tick env clk tss) w)"
| api_evicted: "api_step env w (on_node self (run_evicted t i) w)"
| api_spawned: "mono clk \<Longrightarrow> api_step env w (run_spawned env clk ft self i w)"
| api_cleanup: "api_step env w (on_node self (\<lambda>c. c\<lparr>cLocks := cleanup_tick clk (cLocks c)\<rparr>) w)"

inductive api_reachable :: "('d, 'v, 'x, 'w) env \<Rightarrow> 'd world \<Rightarrow> 'd world \<Rightarrow> bool" for env w0 where
  api_init: "api_reachable env w0 w0"
| api_next: "api_reachable env w0 w \<Longrightarrow> api_step env w w' \<Longrightarrow> api_reachable env w0 w'"

section \<open>One node\<close>

lemma node_invI:
  assumes "st_inv (eApi env) (cStore c)" "tag_inv (cTags c)" "broker_inv (cBroker c)" "length (heap (cBroker c)) < 2 ^ 64"
    "gm_wf (locks (cLocks c))" "hex_tokens (cLocks c)" "cRing c = None \<longleftrightarrow> cState c = None"
    "\<forall>(a, req) \<in> set (cSpawned c). rOp req \<noteq> opLockAcquire" "\<not> cPanicked c"
  shows "node_inv env c"
  using assms unfolding node_inv_def by blast

lemma node_invD:
  assumes "node_inv env c"
  shows "st_inv (eApi env) (cStore c)" "tag_inv (cTags c)" "broker_inv (cBroker c)" "length (heap (cBroker c)) < 2 ^ 64"
    "gm_wf (locks (cLocks c))" "hex_tokens (cLocks c)" "cRing c = None \<longleftrightarrow> cState c = None"
    "\<forall>(a, req) \<in> set (cSpawned c). rOp req \<noteq> opLockAcquire" "\<not> cPanicked c"
  using assms unfolding node_inv_def by blast+

text \<open>Updates of one field.\<close>

lemma node_inv_updates:
  assumes "node_inv env c"
  shows "st_inv (eApi env) s \<Longrightarrow> node_inv env (c\<lparr>cStore := s\<rparr>)"
    "st_inv (eApi env) s \<Longrightarrow> node_inv env (c\<lparr>cStore := s, cEvicted := ev\<rparr>)"
    "node_inv env (c\<lparr>cEvicted := ev\<rparr>)" "node_inv env (c\<lparr>cConns := cs\<rparr>)" "node_inv env (c\<lparr>cCalls := cl\<rparr>)"
    "node_inv env (c\<lparr>cBuckets := tb\<rparr>)" "node_inv env (c\<lparr>cWindows := sw\<rparr>)" "node_inv env (c\<lparr>cClosed := b\<rparr>)"
    "node_inv env (c\<lparr>cStopped := b, cConns := cs\<rparr>)"
    "tag_inv ti \<Longrightarrow> node_inv env (c\<lparr>cTags := ti\<rparr>)"
    "gm_wf (locks e) \<Longrightarrow> hex_tokens e \<Longrightarrow> node_inv env (c\<lparr>cLocks := e\<rparr>)"
    "broker_inv br \<Longrightarrow> length (heap br) < 2 ^ 64 \<Longrightarrow> node_inv env (c\<lparr>cBroker := br\<rparr>)"
    "\<forall>(a, req) \<in> set sp. rOp req \<noteq> opLockAcquire \<Longrightarrow> node_inv env (c\<lparr>cSpawned := sp\<rparr>)"
  using assms by (simp_all add: node_inv_def)

lemma node_inv_publish:
  assumes "node_inv env c" shows "node_inv env (do_publish t ty k v c)"
proof -
  obtain b' where b': "Publish t \<lparr>evType = ty, evKey = k, evValue = v, evTimestamp = None, evNodeName = ''''\<rparr> (cBroker c) = Some b'"
    "broker_inv b'" and m: "map mailbox_of (heap b') = map (mb_accept (stamp t
      \<lparr>evType = ty, evKey = k, evValue = v, evTimestamp = None, evNodeName = ''''\<rparr>)) (map mailbox_of (heap (cBroker c)))"
    using Publish_ok [OF node_invD(3) [OF assms]] by metis
  have "length (heap b') = length (heap (cBroker c))" using arg_cong [OF m, of length] by simp
  then show ?thesis using assms b' node_invD(4) [OF assms] by (simp add: do_publish_def node_inv_updates)
qed

lemma node_inv_fire: "node_inv env c \<Longrightarrow> node_inv env (fire f c)"
  by (simp add: fire_def node_inv_updates)

lemma node_inv_untag: "node_inv env c \<Longrightarrow> node_inv env (c\<lparr>cTags := tag_Remove k (cTags c)\<rparr>)"
  by (simp add: node_inv_updates tag_inv_Remove node_invD)

lemma node_inv_tag: "node_inv env c \<Longrightarrow> node_inv env (c\<lparr>cTags := tag_Add k tags (cTags c)\<rparr>)"
  by (simp add: node_inv_updates tag_inv_Add node_invD)

lemma node_inv_closeConn: "node_inv env c \<Longrightarrow> node_inv env (closeConn a c)"
  by (simp add: closeConn_def node_inv_updates)

lemmas node_inv_parts = node_inv_publish node_inv_fire node_inv_untag node_inv_tag node_inv_closeConn

lemma node_inv_store_ops:
  assumes "node_inv env c"
  shows "node_inv env (node_Set env t k v d c)" "node_inv env (fst (node_Get env t k c))"
    "node_inv env (fst (node_Delete env k c))"
    "mono clk \<Longrightarrow> node_inv env (fst (node_Exists env clk k c))"
    "mono clk \<Longrightarrow> node_inv env (fst (node_TTL env clk k c))"
    "mono clk \<Longrightarrow> node_inv env (fst (node_Incr env clk k n c))"
proof -
  note i = node_invD(1) [OF assms]
  have le: "clk 0 \<le> clk 1" if "mono clk" for clk :: "nat \<Rightarrow> instant" using that by (rule monoD) simp
  show "node_inv env (node_Set env t k v d c)" "node_inv env (fst (node_Get env t k c))" "node_inv env (fst (node_Delete env k c))"
    using assms backend.inv_put [OF i] backend.inv_get [OF i] backend.inv_del [OF i]
    by (simp_all add: node_Set_def node_Get_def node_Delete_def case_prod_unfold Let_def node_inv_updates)
  show "mono clk \<Longrightarrow> node_inv env (fst (node_Exists env clk k c))" "mono clk \<Longrightarrow> node_inv env (fst (node_TTL env clk k c))"
    "mono clk \<Longrightarrow> node_inv env (fst (node_Incr env clk k n c))"
    using assms le [of clk] backend.inv_exi [OF i] backend.inv_ttl [OF i] 
      backend.inv_incr [OF i, where mp = "msgpack.truncate (eMsgpack env)", unfolded st_Incr_truncate]
    by (simp_all add: node_Exists_def node_TTL_def node_Incr_def case_prod_unfold Let_def node_inv_updates)
qed

lemma node_inv_on_evict: "node_inv env c \<Longrightarrow> node_inv env (on_evict t kv c)"
  by (simp add: on_evict_def Let_def case_prod_unfold node_inv_parts)

lemma node_inv_on_expire: "node_inv env c \<Longrightarrow> node_inv env (on_expire t kv c)"
  by (simp add: on_expire_def Let_def case_prod_unfold node_inv_parts)

lemma node_inv_expire_loop: "node_inv env c \<Longrightarrow> node_inv env (expire_loop clk i kvs c)"
  by (induction kvs arbitrary: i c) (simp_all add: node_inv_on_expire)

lemma node_inv_sweeper:
  assumes "node_inv env c" shows "node_inv env (sweeper_tick env clk ts c)"
  using assms backend.inv_sweep [OF node_invD(1) [OF assms], of clk]
  by (simp add: sweeper_tick_def case_prod_unfold Let_def node_inv_expire_loop node_inv_updates)

lemma node_inv_run_evicted: "node_inv env c \<Longrightarrow> node_inv env (run_evicted t i c)"
  by (simp add: run_evicted_def node_inv_on_evict node_inv_updates)

text \<open>The lock engine: tokens stay 32 digits long.\<close>

lemma hex_encode_length: "length (hex_encode bs) = 2 * length bs"
  by (induction bs rule: hex_encode.induct) simp_all

lemma hex_tokens_Acquire:
  "gm_wf (locks e) \<Longrightarrow> gm_wf (locks (fst (Acquire t1 t2 random k d own e)))"
  "hex_tokens e \<Longrightarrow> length random = 16 \<Longrightarrow> hex_tokens (fst (Acquire t1 t2 random k d own e))"
  by (auto simp: Acquire_def hex_tokens_def Let_def generateToken_def hex_encode_length split: option.split)

lemma hex_tokens_Release:
  "gm_wf (locks e) \<Longrightarrow> gm_wf (locks (fst (Release k tok e)))"
  "hex_tokens e \<Longrightarrow> hex_tokens (fst (Release k tok e))"
  by (auto simp: Release_def hex_tokens_def split: option.split)

lemma hex_tokens_Extend:
  "gm_wf (locks e) \<Longrightarrow> gm_wf (locks (fst (Extend t1 t2 k tok d e)))"
  "hex_tokens e \<Longrightarrow> hex_tokens (fst (Extend t1 t2 k tok d e))"
  by (auto simp: Extend_def hex_tokens_def split: option.split)

lemma hex_tokens_delete: "hex_tokens e \<Longrightarrow> hex_tokens (e\<lparr>locks := gm_del k (locks e)\<rparr>)"
  by (auto simp: hex_tokens_def)

lemma hex_tokens_cleanup_loop:
  "gm_wf (locks e) \<Longrightarrow> gm_wf (locks (cleanup_loop clk i kvs e))"
  "hex_tokens e \<Longrightarrow> hex_tokens (cleanup_loop clk i kvs e)"
  by (induction kvs arbitrary: i e) (auto simp: hex_tokens_delete)

lemma node_inv_cleanup: "node_inv env c \<Longrightarrow> node_inv env (c\<lparr>cLocks := cleanup_tick clk (cLocks c)\<rparr>)"
  using hex_tokens_cleanup_loop [of "cLocks c" clk 0 "locks (cLocks c)"]
  by (simp add: cleanup_tick_def node_inv_updates node_invD)

lemma node_inv_locks:
  assumes "node_inv env c"
  shows "length random = 16 \<Longrightarrow> node_inv env (c\<lparr>cLocks := fst (Acquire t1 t2 random k d own (cLocks c))\<rparr>)"
    "node_inv env (c\<lparr>cLocks := fst (Release k tok (cLocks c))\<rparr>)"
    "node_inv env (c\<lparr>cLocks := fst (Extend t1 t2 k tok d (cLocks c))\<rparr>)"
  using node_invD(5,6) [OF assms]
  by (simp_all add: node_inv_updates [OF assms] hex_tokens_Acquire hex_tokens_Release hex_tokens_Extend)

section \<open>Requests of other nodes\<close>

lemma node_inv_HandleSet: "node_inv env c \<Longrightarrow> node_inv env (HandleSet env t k v d tags c)"
  by (simp add: HandleSet_def Let_def node_inv_store_ops node_inv_tag)

lemma node_inv_HandleDelete: "node_inv env c \<Longrightarrow> node_inv env (fst (HandleDelete env k c))"
  by (simp add: HandleDelete_def node_inv_store_ops node_inv_untag)

lemma node_inv_HandleMGet_loop: "node_inv env c \<Longrightarrow> node_inv env (fst (HandleMGet_loop env clk i ks m c))"
proof (induction ks arbitrary: i m c)
  case (Cons k ks)
  then show ?case using node_inv_store_ops(2) [OF Cons.prems, of "clk i" k] by (simp add: Let_def case_prod_unfold)
qed simp

lemma node_inv_processRequest:
  assumes "node_inv env c" "mono clk" "rOp req = opLockAcquire \<Longrightarrow> length random = 16"
  shows "node_inv env (fst (processRequest env clk random req c))"
  using assms
  by (simp add: processRequest_def HandleGet_def HandleExists_def HandleMGet_def HandleIncr_def HandleLockAcquire_def
      HandleLockRelease_def HandleLockExtend_def Let_def case_prod_unfold node_inv_store_ops node_inv_HandleSet
      node_inv_HandleDelete node_inv_HandleMGet_loop node_inv_locks)

section \<open>The network\<close>

lemma world_invD: "world_inv env w \<Longrightarrow> gm_get w a = Some c \<Longrightarrow> node_inv env c"
  unfolding world_inv_def by blast

lemma world_inv_set: "world_inv env w \<Longrightarrow> node_inv env c \<Longrightarrow> world_inv env (gm_set a c w)"
  by (simp add: world_inv_def)

lemma world_inv_on_node: "world_inv env w \<Longrightarrow> (\<And>c. node_inv env c \<Longrightarrow> node_inv env (f c)) \<Longrightarrow> world_inv env (on_node a f w)"
  by (auto simp: on_node_def world_inv_set world_invD split: option.split)

lemma world_inv_serve:
  assumes "world_inv env w" "mono clk" "\<And>req. dec_request (eCodec env) m = Inr req \<Longrightarrow> rOp req = opLockAcquire \<Longrightarrow> length random = 16"
  shows "world_inv env (fst (serve env clk random addr m w))"
proof -
  have "world_inv env (gm_set addr (fst (processRequest env clk random req peer)) w)"
    if "gm_get w addr = Some peer" "dec_request (eCodec env) m = Inr req" for peer req
    using world_invD [OF assms(1) that(1)] assms that(2) by (intro world_inv_set node_inv_processRequest) auto
  then show ?thesis using assms(1)
    by (auto simp: serve_def Let_def case_prod_unfold split: option.split sum.split)
qed

lemma world_inv_call:
  assumes w: "world_inv env w" and ok: "codec_ok (eCodec env)" and clk: "mono clk"
    and op: "rOp req = opLockAcquire \<Longrightarrow> length random = 16"
  shows "world_inv env (fst (call env clk random ft self addr req w))"
proof (cases "\<exists>c c1. gm_get w self = Some c \<and> getConn ft addr w c = Some c1")
  case False
  then show ?thesis using w by (auto simp: call_def split: option.split)
next
  case True
  then obtain c c1 where c: "gm_get w self = Some c" "getConn ft addr w c = Some c1" by blast
  have "node_inv env c1"
    using world_invD [OF w c(1)] c(2) by (auto simp: getConn_def node_inv_updates split: if_splits option.splits)
  then have w1: "world_inv env (gm_set self c1 w)" using w by (simp add: world_inv_set)
  obtain m where m: "enc_request (eCodec env) req = Inr m" "dec_request (eCodec env) m = Inr req"
    using ok unfolding codec_ok_def by blast
  have w2: "world_inv env (fst (serve env clk random addr m (gm_set self c1 w)))"
    using w1 clk by (rule world_inv_serve) (use m(2) op in simp)
  have cl: "world_inv env v \<Longrightarrow> world_inv env (on_node self (closeConn addr) v)" for v
    by (rule world_inv_on_node) (simp_all add: node_inv_closeConn)
  show ?thesis
    using c m(1) cl [OF w1] cl [OF w2] w2
    by (auto simp: call_def Let_def case_prod_unfold split: option.split sum.split)
qed

lemma not_acquire [simp]:
  "rOp (set_request k v d tags) \<noteq> opLockAcquire" "rOp (delete_request k) \<noteq> opLockAcquire"
  "opGet \<noteq> opLockAcquire" "opExists \<noteq> opLockAcquire" "opIncr \<noteq> opLockAcquire" "opLockRelease \<noteq> opLockAcquire"
  "opLockExtend \<noteq> opLockAcquire"
  by (simp_all add: set_request_def delete_request_def op_codes)

lemma world_inv_remote:
  assumes "world_inv env w" "codec_ok (eCodec env)" "mono clk"
  shows "world_inv env (fst (RemoteSet env clk ft self addr k v d tags w))"
    "world_inv env (fst (RemoteGet env clk ft self addr k w))"
    "world_inv env (fst (RemoteDelete env clk ft self addr k w))"
    "world_inv env (fst (RemoteExists env clk ft self addr k w))"
    "world_inv env (fst (RemoteIncr env clk ft self addr k n w))"
    "world_inv env (fst (RemoteLockRelease env clk ft self addr k tok w))"
    "world_inv env (fst (RemoteLockExtend env clk ft self addr k tok d w))"
    "length random = 16 \<Longrightarrow> world_inv env (fst (RemoteLockAcquire env clk random ft self addr k d w))"
proof -
  have "world_inv env (fst (call env clk random ft self addr req w))" if "rOp req \<noteq> opLockAcquire \<or> length random = 16"
    for random ft self addr req
    by (rule world_inv_call [OF assms]) (use that in blast)
  then show "world_inv env (fst (RemoteSet env clk ft self addr k v d tags w))"
    "world_inv env (fst (RemoteGet env clk ft self addr k w))"
    "world_inv env (fst (RemoteDelete env clk ft self addr k w))"
    "world_inv env (fst (RemoteExists env clk ft self addr k w))"
    "world_inv env (fst (RemoteIncr env clk ft self addr k n w))"
    "world_inv env (fst (RemoteLockRelease env clk ft self addr k tok w))"
    "world_inv env (fst (RemoteLockExtend env clk ft self addr k tok d w))"
    "length random = 16 \<Longrightarrow> world_inv env (fst (RemoteLockAcquire env clk random ft self addr k d w))"
    by (simp_all add: RemoteSet_def RemoteGet_def RemoteDelete_def RemoteExists_def RemoteIncr_def RemoteLockRelease_def
        RemoteLockExtend_def RemoteLockAcquire_def case_prod_unfold split: sum.split)
qed

lemma mono_tail: "mono clk \<Longrightarrow> mono (\<lambda>i. clk (Suc i))" for clk :: "nat \<Rightarrow> instant"
  by (simp add: mono_def)

lemma node_inv_spawn:
  assumes "node_inv env c" "rOp req \<noteq> opLockAcquire" shows "node_inv env (spawn addrs req c)"
  unfolding spawn_def using node_invD(8) [OF assms(1)] assms(2) by (intro node_inv_updates(13) [OF assms(1)]) auto

lemma world_inv_distributedSet:
  assumes "world_inv env w" "codec_ok (eCodec env)" "mono clk"
  shows "world_inv env (fst (distributedSet env clk ft self k v d tags w))"
proof (cases "gm_get w self")
  case (Some c)
  note n = world_invD [OF assms(1) Some]
  have w1: "world_inv env (gm_set self (node_Set env (clk 0) k v d c) w)"
    using assms(1) n by (simp add: world_inv_set node_inv_store_ops)
  show ?thesis
    using Some n assms w1 world_inv_remote(1) [OF w1 assms(2) mono_tail [OF assms(3)]] world_inv_remote(1) [OF assms]
    by (simp add: distributedSet_def Let_def world_inv_set node_inv_store_ops node_inv_spawn split: Mode.split)
qed (simp add: distributedSet_def assms(1))

lemma world_inv_distributedGet:
  assumes "world_inv env w" "codec_ok (eCodec env)" "mono clk"
  shows "world_inv env (fst (distributedGet env clk ft self k w))"
proof (cases "gm_get w self")
  case (Some c)
  note n = world_invD [OF assms(1) Some]
  let ?w1 = "gm_set self (fst (node_Get env (clk 0) k c)) w"
  have w1: "world_inv env ?w1" using assms(1) n by (simp add: world_inv_set node_inv_store_ops)
  note r = world_inv_remote(2) [OF w1 assms(2) mono_tail [OF assms(3)]]
  have s: "world_inv env (on_node self (node_Set env t k v d) w')" if "world_inv env w'" for t v d w'
    using that by (rule world_inv_on_node) (simp add: node_inv_store_ops)
  show ?thesis
    using Some w1 r s [OF r] world_inv_remote(2) [OF assms]
    by (simp add: distributedGet_def Let_def case_prod_unfold split: Mode.split option.split sum.split)
qed (simp add: distributedGet_def assms(1))

lemma world_inv_distributedDelete:
  assumes "world_inv env w" "codec_ok (eCodec env)" "mono clk"
  shows "world_inv env (distributedDelete env clk ft self k w)"
proof (cases "gm_get w self")
  case (Some c)
  note n = world_invD [OF assms(1) Some]
  have w1: "world_inv env (gm_set self (fst (node_Delete env k c)) w)"
    using assms(1) n by (simp add: world_inv_set node_inv_store_ops)
  show ?thesis
    using Some n assms w1 world_inv_remote(3) [OF w1 assms(2,3)] world_inv_remote(3) [OF assms]
    by (simp add: distributedDelete_def Let_def world_inv_set node_inv_store_ops node_inv_spawn split: Mode.split)
qed (simp add: distributedDelete_def assms(1))

section \<open>The API\<close>

lemma world_inv_Set:
  assumes "world_inv env w" "codec_ok (eCodec env)" "mono clk"
  shows "world_inv env (fst (cache_Set env clk ts ft self key val ttl w))"
proof -
  have "world_inv env (on_node self (\<lambda>c. fire (FireSet key v) (do_publish ts EventSet key v c))
      (fst (distributedSet env clk ft self key v d [] w)))" for v d
    using world_inv_distributedSet [OF assms] by (rule world_inv_on_node) (simp add: node_inv_parts)
  then show ?thesis
    using assms(1) world_inv_distributedSet [OF assms]
    by (simp add: cache_Set_def Let_def case_prod_unfold split: sum.split option.split)
qed

lemma world_inv_Get:
  assumes "world_inv env w" "codec_ok (eCodec env)" "mono clk"
  shows "world_inv env (fst (cache_Get env clk ft self key dest w))"
proof -
  have "world_inv env (on_node self (fire f) (fst (distributedGet env clk ft self key w)))" for f
    using world_inv_distributedGet [OF assms] by (rule world_inv_on_node) (simp add: node_inv_parts)
  then show ?thesis
    using assms(1) world_inv_distributedGet [OF assms]
    by (simp add: cache_Get_def case_prod_unfold split: sum.split option.split)
qed

lemma world_inv_Delete:
  assumes "world_inv env w" "codec_ok (eCodec env)" "mono clk"
  shows "world_inv env (cache_Delete env clk ts ft self key w)"
proof -
  have "world_inv env (on_node self (\<lambda>c. let c1 = fire (FireDelete key) (do_publish ts EventDelete key [] c)
      in c1\<lparr>cTags := tag_Remove key (cTags c1)\<rparr>) (distributedDelete env clk ft self key w))"
    using world_inv_distributedDelete [OF assms] by (rule world_inv_on_node) (simp add: node_inv_parts Let_def)
  then show ?thesis using assms(1) by (simp add: cache_Delete_def)
qed

lemma world_inv_local:
  assumes "world_inv env w" "codec_ok (eCodec env)" "mono clk"
  shows "world_inv env (fst (cache_Exists env clk ft self key w))" "world_inv env (fst (cache_TTL env clk self key w))"
    "world_inv env (fst (cache_Incr env clk ft self key n w))" "world_inv env (fst (cache_Decr env clk ft self key n w))"
  using assms(1,3) world_inv_remote [OF assms] world_invD [OF assms(1), of self]
  by (auto simp: cache_Exists_def cache_TTL_def cache_Incr_def cache_Decr_def Let_def case_prod_unfold world_inv_set
      node_inv_store_ops split: option.split sum.split)

lemma world_inv_GetOrSet:
  assumes "world_inv env w" "codec_ok (eCodec env)" "mono clk1" "mono clk2"
  shows "world_inv env (fst (cache_GetOrSet env clk1 clk2 ts ft1 ft2 self key dest ttl fn w))"
  using assms(1) world_inv_Get [OF assms(1-3)] world_inv_Set [OF world_inv_Get [OF assms(1-3)] assms(2,4)]
  by (simp add: cache_GetOrSet_def case_prod_unfold split: option.split sum.split)

lemma world_inv_mget_loop:
  assumes "codec_ok (eCodec env)" "\<And>i. mono (clk i)"
  shows "world_inv env w \<Longrightarrow> world_inv env (fst (mget_loop env clk ft self i keys results w))"
proof (induction keys arbitrary: i results w)
  case (Cons k ks)
  note g = world_inv_distributedGet [OF Cons.prems assms(1) assms(2) [of i], of "ft i" self k]
  show ?case using Cons.IH Cons.prems g by (simp add: case_prod_unfold split: option.split)
qed simp

lemma world_inv_mset_loop:
  assumes "codec_ok (eCodec env)" "\<And>i. mono (clk i)"
  shows "world_inv env w \<Longrightarrow> world_inv env (fst (mset_loop env clk ts ft self i its w))"
proof (induction its arbitrary: i w)
  case (Cons it its)
  obtain k v d where it: "it = (k, v, d)" by (cases it)
  note g = world_inv_Set [OF Cons.prems assms(1) assms(2) [of i], of "ts i" "ft i" self k v d]
  show ?case using Cons.IH g by (simp add: it case_prod_unfold split: option.split)
qed simp

lemma world_inv_invalidate_loop:
  assumes "codec_ok (eCodec env)" "\<And>i. mono (clk i)"
  shows "world_inv env w \<Longrightarrow> world_inv env (invalidate_loop env clk ts ft self i keys w)"
  by (induction keys arbitrary: i w) (simp_all add: world_inv_Delete assms)

lemma world_inv_SetWithTags:
  assumes "world_inv env w" "codec_ok (eCodec env)" "mono clk"
  shows "world_inv env (fst (SetWithTags env clk ts ft self key val ttl tags w))"
proof -
  note s = world_inv_Set [OF assms]
  have "world_inv env (on_node self (\<lambda>c. c\<lparr>cTags := tag_Add key tags (cTags c)\<rparr>)
      (fst (cache_Set env clk ts ft self key val ttl w)))"
    using s by (rule world_inv_on_node) (simp add: node_inv_tag)
  then show ?thesis using s by (simp add: SetWithTags_def case_prod_unfold split: option.split)
qed

lemma world_inv_lock_ops:
  assumes "world_inv env w" "codec_ok (eCodec env)" "mono clk"
  shows "length random = 16 \<Longrightarrow> world_inv env (fst (lock_attempt env clk random ft self key ttl w))"
    "world_inv env (fst (handle_Release env clk ft h w))" "world_inv env (fst (handle_Extend env clk ft ttl h w))"
  using assms(1) world_inv_remote [OF assms] world_invD [OF assms(1)]
  by (auto simp: lock_attempt_def handle_Release_def handle_Extend_def Let_def case_prod_unfold world_inv_set node_inv_locks
      split: option.split sum.split)

lemma node_inv_broker:
  assumes "node_inv env c" "broker_inv b" "length (heap b) = length (heap (cBroker c))"
  shows "node_inv env (c\<lparr>cBroker := b\<rparr>)"
  using node_inv_updates(12) [OF assms(1,2)] node_invD(4) [OF assms(1)] assms(3) by simp

lemma node_inv_Subscribe:
  assumes "node_inv env c" "Suc (length (heap (cBroker c))) < 2 ^ 64"
  shows "node_inv env (fst (cache_Subscribe p c))"
proof -
  note s = Subscribe_ok [OF node_invD(3) [OF assms(1)] assms(2), of p]
  have "length (heap (snd (Subscribe p (cBroker c)))) = Suc (length (heap (cBroker c)))"
    using arg_cong [OF conjunct2 [OF s], of length] by simp
  then show ?thesis using s assms by (simp add: cache_Subscribe_def case_prod_unfold Let_def node_inv_updates)
qed

lemma node_inv_Close:
  assumes "node_inv env c" "r < length (heap (cBroker c))" shows "node_inv env (subscription_Close r c)"
proof -
  obtain b' where b': "client_Close r (cBroker c) = Some b'" "broker_inv b'"
    "map mailbox_of (heap b') = at_index r mb_close (map mailbox_of (heap (cBroker c)))"
    using client_Close_ok [OF node_invD(3) [OF assms(1)] assms(2)] by blast
  have "length (heap b') = length (heap (cBroker c))"
    using arg_cong [OF b'(3), of length] by (simp add: at_index_def split: if_splits)
  then show ?thesis using b'(1,2) assms(1) by (simp add: subscription_Close_def node_inv_broker)
qed

lemma node_inv_recv:
  assumes "node_inv env c" "r < length (heap (cBroker c))" shows "node_inv env (fst (subscription_recv r c))"
proof -
  note s = client_recv_ok [OF node_invD(3) [OF assms(1)] assms(2)]
  have "length (heap (snd (client_recv r (cBroker c)))) = length (heap (cBroker c))"
    using arg_cong [OF conjunct2 [OF s], of length] by (simp add: at_index_def)
  then show ?thesis using s assms(1) by (simp add: subscription_recv_def case_prod_unfold Let_def node_inv_broker)
qed

lemma broker_inv_cong:
  assumes "broker_inv b" "heap b' = heap b" "subscriptions b' = subscriptions b" "nextID b' = nextID b"
  shows "broker_inv b'"
  using assms(1) unfolding broker_inv_def assms(2-4) .

lemma node_inv_hooks:
  assumes "node_inv env c"
  shows "node_inv env (cache_OnHit fn c)" "node_inv env (cache_OnMiss fn c)" "node_inv env (cache_OnEvict fn c)"
    "node_inv env (cache_OnSet fn c)" "node_inv env (cache_OnDelete fn c)"
  unfolding cache_OnHit_def cache_OnMiss_def cache_OnEvict_def cache_OnSet_def cache_OnDelete_def
  by (intro node_inv_broker [OF assms] broker_inv_cong [OF node_invD(3) [OF assms]];
      simp add: OnHit_def OnMiss_def OnEvict_def OnSet_def OnDelete_def)+

lemma node_inv_shutdown_broker:
  assumes "node_inv env c" shows "\<exists>b. broker_Shutdown (cBroker c) = Some b \<and> node_inv env (c\<lparr>cBroker := b\<rparr>)"
proof -
  obtain b' where b': "broker_Shutdown (cBroker c) = Some b'" "broker_inv b'"
    "map mailbox_of (heap b') = map mb_close (map mailbox_of (heap (cBroker c)))"
    using Shutdown_ok [OF node_invD(3) [OF assms]] by blast
  have "length (heap b') = length (heap (cBroker c))" using arg_cong [OF b'(3), of length] by simp
  then show ?thesis using b'(1,2) assms by (simp add: node_inv_broker)
qed

lemma world_inv_Shutdown:
  assumes "world_inv env w" shows "world_inv env (cache_Shutdown self w)"
  unfolding cache_Shutdown_def using assms
proof (rule world_inv_on_node)
  fix c assume "node_inv env c"
  then have n: "node_inv env (c\<lparr>cClosed := True\<rparr>)" by (simp add: node_inv_updates)
  let ?c2 = "if cRing c = None then c\<lparr>cClosed := True\<rparr> else transport_Stop (c\<lparr>cClosed := True\<rparr>)"
  have "node_inv env ?c2" using n by (simp add: transport_Stop_def node_inv_updates)
  then obtain b where "broker_Shutdown (cBroker ?c2) = Some b" "node_inv env (?c2\<lparr>cBroker := b\<rparr>)"
    using node_inv_shutdown_broker by blast
  then show "node_inv env (if cClosed c then c else let c1 = c\<lparr>cClosed := True\<rparr>;
      c2 = if cRing c = None then c1 else transport_Stop c1
      in case broker_Shutdown (cBroker c2) of None \<Rightarrow> c2\<lparr>cPanicked := True\<rparr> | Some b \<Rightarrow> c2\<lparr>cBroker := b\<rparr>)"
    using \<open>node_inv env c\<close> by (simp add: Let_def)
qed

lemma world_inv_run_spawned:
  assumes "world_inv env w" "codec_ok (eCodec env)" "mono clk"
  shows "world_inv env (run_spawned env clk ft self i w)"
proof (cases "gm_get w self")
  case (Some c)
  note n = world_invD [OF assms(1) Some]
  let ?c = "c\<lparr>cSpawned := take i (cSpawned c) @ drop (Suc i) (cSpawned c)\<rparr>"
  have "node_inv env ?c" using node_invD(8) [OF n] by (intro node_inv_updates(13) [OF n]) (auto dest: in_set_takeD in_set_dropD)
  then have w: "world_inv env (gm_set self ?c w)" using assms(1) by (simp add: world_inv_set)
  have op: "rOp req \<noteq> opLockAcquire" if "cSpawned c ! i = (a, req)" "i < length (cSpawned c)" for a req
    using node_invD(8) [OF n] nth_mem [OF that(2)] that(1) by auto
  have "world_inv env (fst (call env clk [] ft self a req (gm_set self ?c w)))"
    if "cSpawned c ! i = (a, req)" "i < length (cSpawned c)" for a req
    by (rule world_inv_call [OF w assms(2,3)]) (use op [OF that] in blast)
  then show ?thesis using Some assms(1) by (simp add: run_spawned_def Let_def split: prod.split)
qed (simp add: run_spawned_def assms(1))

text \<open>Every step.\<close>

lemma node_inv_rate_limits:
  assumes "node_inv env c"
  shows "node_inv env (fst (RateLimit env t key opts c))" "node_inv env (fst (RateLimitSliding env t key sopts c))"
  using assms by (simp_all add: RateLimit_def RateLimitSliding_def case_prod_unfold Let_def node_inv_updates)

lemma node_inv_handle_events: "node_inv env c \<Longrightarrow> node_inv env (fold handle_event calls c)"
proof (induction calls arbitrary: c)
  case (Cons h calls)
  have "node_inv env (handle_event h c)" using Cons.prems by (cases h) (simp_all add: CloseConnection_def node_inv_closeConn)
  then show ?case using Cons.IH by simp
qed simp

lemma node_inv_gossip:
  assumes "node_inv env c" "gossip unmarshal ev (m, c) = Some (m', c')"
  shows "node_inv env c'"
proof -
  have "node_inv env (c\<lparr>cRing := Some r, cState := Some cs\<rparr>)" for r cs using assms(1) by (simp add: node_inv_def)
  then show ?thesis using assms(2) by (auto simp: gossip_def node_inv_handle_events split: option.splits)
qed

lemma world_inv_step:
  assumes "api_step env w w'" "world_inv env w" "codec_ok (eCodec env)"
  shows "world_inv env w'"
  using assms(1,2)
proof (cases rule: api_step.cases)
  case (api_MGet clk2 fts self keys)
  then show ?thesis using assms(2) world_inv_mget_loop [OF assms(3)] by (simp add: cache_MGet_def)
next
  case (api_MSet clk2 tss fts self its)
  then show ?thesis using assms(2) world_inv_mset_loop [OF assms(3)] by (simp add: cache_MSet_def)
next
  case (api_InvalidateTag clk2 tss fts self tag)
  then show ?thesis using assms(2) world_inv_invalidate_loop [OF assms(3)] by (simp add: InvalidateTag_def)
next
  case (api_hook f fn self)
  then show ?thesis using assms(2) node_inv_hooks by (auto intro!: world_inv_on_node)
next
  case (api_gossip self c unmarshal ev m m' c')
  show ?thesis
    unfolding api_gossip(1) using assms(2) by (rule world_inv_set) (rule node_inv_gossip [OF world_invD [OF assms(2) api_gossip(2)] api_gossip(3)])
next
  case (api_Subscribe self c pattern)
  then show ?thesis using assms(2) by (simp add: world_inv_set node_inv_Subscribe world_invD)
next
  case (api_Close self c r)
  then show ?thesis using assms(2) by (simp add: world_inv_set node_inv_Close world_invD)
next
  case (api_recv self c r)
  then show ?thesis using assms(2) by (simp add: world_inv_set node_inv_recv world_invD)
qed (simp_all add: assms(2,3) world_inv_Set world_inv_Get world_inv_Delete world_inv_local world_inv_GetOrSet
    world_inv_SetWithTags world_inv_lock_ops world_inv_Shutdown world_inv_run_spawned world_inv_on_node
    node_inv_rate_limits node_inv_sweeper node_inv_run_evicted node_inv_cleanup)

lemma world_inv_reachable:
  assumes "api_reachable env w0 w" "world_inv env w0" "codec_ok (eCodec env)"
  shows "world_inv env w"
  using assms(1) by induction (use assms(2,3) world_inv_step in blast)+

section \<open>New nodes\<close>

lemma validate_shards:
  assumes "validate config0 = Inr config" "storageMode config = Memory"
  shows "\<exists>k. unat (NumShards config) = 2 ^ k \<and> sint (NumShards config) = 2 ^ k"
proof -
  have "pos64 (256 :: int64)" by (simp add: pos64_def)
  then have "pos64 (NumShards config)" "NumShards config AND (NumShards config - 1) = 0"
    using assms by (auto simp: validate_def Let_def split: StorageMode.splits if_splits)
  then show ?thesis using power_of_two_word by metis
qed

lemma hex_tokens_new: "hex_tokens NewEngine" "gm_wf (locks NewEngine)"
  by (simp_all add: hex_tokens_def NewEngine_def)

text \<open>The store that \<open>New\<close> opens, and the parts of the node around it.\<close>

definition opened_store :: "'d pebble_api \<Rightarrow> string + 'd \<Rightarrow> Config \<Rightarrow> string + 'd any_store" where
  "opened_store api opened config =
     (case storageMode config of
        Disk \<Rightarrow> map_sum (\<lambda>err. ''cachegrid: failed to open disk store: '' @ err) DiskStore (NewPebbleStore api opened)
      | Memory \<Rightarrow> Inr (MemStore (NewMemoryStore (unat (NumShards config)) (perShardMax config))))"

lemma New_cases:
  assumes "New api hostname opened listenErr created t config0 = Inr (c, m)"
  obtains config1 store0 where "validate config0 = Inr config1" "opened_store api opened config1 = Inr store0"
    "cStore c = st_SetOnExpire True (st_SetOnEvict True store0)" "cLocks c = NewEngine" "cBroker c = NewBroker"
    "cTags c = newTagIndex" "cSpawned c = []" "\<not> cPanicked c" "cRing c = None \<longleftrightarrow> m = None" "cState c = None \<longleftrightarrow> m = None"
proof -
  obtain config1 where v: "validate config0 = Inr config1" using assms by (cases "validate config0") (auto simp: New_def)
  define config where "config = (if NodeName config1 = ''''
     then config1\<lparr>NodeName := (if hostname = '''' then ''node-1'' else hostname)\<rparr> else config1)"
  have o: "opened_store api opened config = opened_store api opened config1"
    by (simp add: opened_store_def config_def perShardMax_def cong: StorageMode.case_cong)
  note e = assms [unfolded New_def v sum.case Let_def, folded config_def, folded opened_store_def]
  obtain store0 where s: "opened_store api opened config = Inr store0"
    using e by (cases "opened_store api opened config") simp_all
  show ?thesis
    by (rule that [OF v s [unfolded o]])
      (use e in \<open>auto simp: s split: if_splits sum.splits prod.splits option.splits\<close>)
qed

lemma opened_store_inv:
  assumes v: "validate config0 = Inr config" and s: "opened_store api opened config = Inr store0"
    and ok: "pebble_ok api" and few: "sint (NumShards config0) \<le> 2 ^ 32"
  shows "st_inv api (st_SetOnExpire True (st_SetOnEvict True store0))"
proof (cases "storageMode config")
  case Disk
  then obtain p where "store0 = DiskStore p"
    using s by (cases "NewPebbleStore api opened") (auto simp: opened_store_def)
  then show ?thesis using ok by (simp add: st_inv_def st_SetOnExpire_def st_SetOnEvict_def)
next
  case Memory
  obtain k where k: "unat (NumShards config) = 2 ^ k" "sint (NumShards config) = 2 ^ k" using validate_shards [OF v Memory] by blast
  have n: "sint (NumShards config) \<le> 2 ^ 32"
    using v few Memory by (auto simp: validate_def Let_def pos64_def split: StorageMode.splits if_splits)
  have "int (unat (NumShards config)) \<le> int (2 ^ 32)" using n(1) k by simp
  then have "unat (NumShards config) \<le> 2 ^ 32" by (simp only: of_nat_le_iff)
  then have "ms_inv (fresh_store (unat (NumShards config)) (perShardMax config) True True)"
    using k by (intro fresh_store_inv) simp_all
  then show ?thesis
    using s Memory by (auto simp: opened_store_def st_inv_def st_SetOnExpire_def st_SetOnEvict_def fresh_store_def)
qed

lemma new_node_inv:
  fixes env :: "('d, 'v, 'x, 'w) env"
  assumes new: "New (eApi env) hostname opened listenErr created t config0 = Inr (c, m)"
    and ok: "pebble_ok (eApi env)" and few: "sint (NumShards config0) \<le> 2 ^ 32"
  shows "node_inv env c"
  using new
proof (rule New_cases)
  fix config1 store0
  assume c: "validate config0 = Inr config1" "opened_store (eApi env) opened config1 = Inr store0"
    "cStore c = st_SetOnExpire True (st_SetOnEvict True store0)" "cLocks c = NewEngine" "cBroker c = NewBroker"
    "cTags c = newTagIndex" "cSpawned c = []" "\<not> cPanicked c" "cRing c = None \<longleftrightarrow> m = None" "cState c = None \<longleftrightarrow> m = None"
  have h: "length (heap NewBroker) < 2 ^ 64" by (simp add: NewBroker_def)
  show ?thesis
    by (rule node_invI)
      (use c h opened_store_inv [OF c(1,2) ok few] in \<open>simp_all add: tag_inv_new broker_inv_new hex_tokens_new\<close>)
qed

end
