(* ===== verification/Node_Props.thy ===== *)
theory Node_Props
  imports Node_Inv Cluster_Props
begin

text \<open>Nodes built by \<open>New\<close> stay well formed and never panic.\<close>

definition built_by_New :: "('d, 'v, 'x, 'w) env \<Rightarrow> 'd world \<Rightarrow> bool" where
  "built_by_New env w \<longleftrightarrow>
     (\<forall>a c. gm_get w a = Some c \<longrightarrow>
        (\<exists>hostname opened listenErr created t config m.
           New (eApi env) hostname opened listenErr created t config = Inr (c, m) \<and> sint (NumShards config) \<le> 2 ^ 32))"


lemma demo_world_inv_api: "eApi env = list_pebble \<Longrightarrow> world_inv env (demo_world md)"
  using tag_inv_new broker_inv_new hex_tokens_new
  by (auto simp: world_inv_def demo_world_def node_inv_def demo_cache_def st_inv_def pebble_ok_list NewBroker_def
      split: if_splits)

lemma demo_world_inv: "world_inv demo_env (demo_world md)"
  by (rule demo_world_inv_api) (simp add: demo_env_def)

lemma demo_New: "\<exists>c. New api ''h'' opened None created 0 DefaultConfig = Inr (c, None)"
proof -
  have "validate DefaultConfig = Inr DefaultConfig"
    by (simp add: validate_def DefaultConfig_def pos64_def less64_def second_def Let_def)
  then show ?thesis by (simp add: New_def DefaultConfig_def Let_def)
qed


end
