(* ===== verification/Http_Props.thy ===== *)
theory Http_Props
  imports Server Node_Props
begin

text \<open>
  The HTTP server end to end: a value put through the server of one node is read through the server of any
  other node, locks taken over HTTP, and the event stream.
\<close>

section \<open>Lemmas\<close>

lemma add_headers_simps [simp]:
  "sStatus (add_headers hs resp) = sStatus resp" "sBody (add_headers hs resp) = sBody resp"
  by (simp_all add: add_headers_def)

text \<open>The middleware around a request that does not panic.\<close>

lemma server_ok:
  assumes "mux_ServeHTTP env x self False r w = Some (w', resp)" "hMethod r \<noteq> ''OPTIONS''"
    and "world_inv env w'"
  shows "server_ServeHTTP env x self r w = Some (w', add_headers cors_headers resp)"
proof -
  have "\<not> node_at self w' cPanicked False"
    using world_invD [OF assms(3)] node_invD(9) by (auto simp: node_at_def split: option.split)
  then show ?thesis
    using assms(1,2)
    by (simp add: server_ServeHTTP_def withMiddleware_def recoveryMiddleware_def corsMiddleware_def loggingMiddleware_def)
qed

lemma route_cache:
  "key \<noteq> '''' \<Longrightarrow> registerRoutes ''PUT'' [''cache'', key] = CacheSet key"
  "key \<noteq> '''' \<Longrightarrow> registerRoutes ''GET'' [''cache'', key] = CacheGet key"
  by (simp_all add: registerRoutes_def by_method_def cache_routes_def)

lemma handleCacheSet_ok:
  assumes r: "routed own w" and ok: "codec_ok (eCodec env)" and inv: "world_inv env w" and clk: "mono clk"
    and l: "listening own k w" and k: "k \<noteq> ''''" and open_: "\<not> is_closed self w" and s: "stores w (own k) = Some s"
    and read: "\<not> hReadFails rq"
  shows "\<exists>w'. handleCacheSet env PD clk ts NoFault self k rq w = (w', only_status 204) \<and> roles w' = roles w \<and> world_inv env w' \<and>
    stores w' (own k) = Some (fst (st_Set (eApi env) (clk 0) k (take (10 * 2 ^ 20) (hBody rq))
      (set_ttl self (parseTTL PD (hHeader rq ''X-TTL'')) w) s))"
proof -
  let ?b = "take (10 * 2 ^ 20) (hBody rq)" and ?ttl = "parseTTL PD (hHeader rq ''X-TTL'')"
  let ?tags = "parseTags (hHeader rq ''X-Tags'')"
  have "Serialize (marshal_any (eMsgpack env)) (GBytes ?b) = Inr ?b" by simp
  then obtain w1 where w1: "cache_Set env clk ts NoFault self k (GBytes ?b) ?ttl w = (w1, None)" "roles w1 = roles w"
    "stores w1 = (stores w)(own k \<mapsto> fst (st_Set (eApi env) (clk 0) k ?b (set_ttl self ?ttl w) s))"
    using cache_Set_ok [OF r ok l k open_ _ s] by blast
  have i1: "world_inv env w1" using world_inv_Set [OF inv ok clk, of ts NoFault self k "GBytes ?b" ?ttl] w1(1) by simp
  show ?thesis
  proof (cases "?tags = []")
    case True
    then show ?thesis using w1 i1 k read by (simp add: handleCacheSet_def)
  next
    case False
    let ?w2 = "on_node self (\<lambda>c. c\<lparr>cTags := tag_Add k ?tags (cTags c)\<rparr>) w1"
    have st: "SetWithTags env clk ts NoFault self k (GBytes ?b) ?ttl ?tags w = (?w2, None)"
      using w1(1) False by (simp add: SetWithTags_def)
    have "world_inv env ?w2" using i1 by (rule world_inv_on_node) (rule node_inv_tag)
    moreover have "roles ?w2 = roles w" using w1(2) by (simp add: roles_on_node)
    moreover have "stores ?w2 = stores w1" by (simp add: stores_on_node)
    ultimately show ?thesis using st False w1(3) k read by (simp add: handleCacheSet_def)
  qed
qed

section \<open>Properties\<close>

text \<open>
  C3: Round trip over HTTP. In a partitioned cluster of well-formed nodes that agree on its members, a
  \<open>PUT /cache/key\<close> at the server of one node is answered with 204, and a later \<open>GET /cache/key\<close> at the server
  of any other node with 200 and the bytes of the body, up to the limit of 10 MB, until the entry expires, and
  with 404 afterwards.\<close>

theorem http_put_get:
  assumes "clash_free v M" "agreed v M addr w" "codec_ok (eCodec env)" "world_inv env w"
    and "\<not> is_closed self w" "\<not> is_closed self' w" "key \<noteq> ''''"
    and "gm_get w self = Some c" "gm_get w (owner_node self key c) = Some p" "\<not> cStopped p"
    and "hMethod r = ''PUT''" "hPath r = [''cache'', key]" "\<not> hReadFails r"
    and "hMethod r' = ''GET''" "hPath r' = [''cache'', key]"
    and "xFault x 0 = NoFault" "mono (xClk x 0)" "xFault x' 0 = NoFault" "mono (xClk x' 0)" "mono (xClk x' 1)"
    and "b = take (10 * 2 ^ 20) (hBody r)" "d = set_ttl self (parseTTL (xParse x) (hHeader r ''X-TTL'')) w"
    and "st_keeps (cStore p) (xClk x 0 0) key b d" "nano_clock (xClk x' 0 0)"
  shows "\<exists>w1 resp w2 resp'. server_ServeHTTP env x self r w = Some (w1, resp) \<and> sStatus resp = 204 \<and>
    server_ServeHTTP env x' self' r' w1 = Some (w2, resp') \<and>
    (if pos64 d \<and> time_add (xClk x 0 0) d < xClk x' 0 0 then sStatus resp' = 404
     else sStatus resp' = 200 \<and> sBody resp' = Raw b)"
proof -
  obtain own where r: "routed own w" using agreed_routed_ex [OF assms(1,2)] by blast
  have o: "owner_node self key c = own key" by (rule owner_node_routed [OF r assms(8)])
  have l: "listening own key w" using assms(9,10) by (simp add: listening_def o)
  have s: "stores w (own key) = Some (cStore p)" using assms(9) by (simp add: o views_at)
  have inv: "st_inv (eApi env) (cStore p)" using world_invD [OF assms(4,9)] by (rule node_invD(1))
  let ?s' = "fst (st_Set (eApi env) (xClk x 0 0) key b d (cStore p))"
  obtain w1 where w1: "handleCacheSet env (xParse x) (xClk x 0) (xTs x) NoFault self key r w = (w1, only_status 204)"
    "roles w1 = roles w" "world_inv env w1" "stores w1 (own key) = Some ?s'"
    using handleCacheSet_ok [OF r assms(3,4,17) l assms(7,5) s assms(13)] unfolding assms(21,22) by blast
  have m1: "mux_ServeHTTP env x self False r w = Some (w1, only_status 204)"
    using w1(1) assms(7,11,12,16) by (simp add: mux_ServeHTTP_def route_cache)
  have s1: "server_ServeHTTP env x self r w = Some (w1, add_headers cors_headers (only_status 204))"
    by (rule server_ok [OF m1 _ w1(3)]) (simp add: assms(11))
  have st: "snd (st_Get (eApi env) (xClk x' 0 0) key ?s') =
      (if pos64 d \<and> time_add (xClk x 0 0) d < xClk x' 0 0 then None else Some b)"
    by (rule backend.get_after_put [OF inv assms(24,23)])
  have l': "listening own key w1" and open': "\<not> is_closed self' w1"
    using listening_roles [OF w1(2)] is_closed_roles [OF w1(2)] l assms(6) by simp_all
  let ?get = "cache_Get env (xClk x' 0) NoFault self' key DestBytes w1"
  have g: "snd ?get = (if pos64 d \<and> time_add (xClk x 0 0) d < xClk x' 0 0 then None else Some (GBytes b))"
    unfolding cache_Get_ok [OF routed_roles [OF r w1(2)] assms(3) l' assms(7) open' w1(4)] st by simp
  let ?h = "handleCacheGet env (xClk x' 0) (xClk x' 1) NoFault self' key w1"
  have i2: "world_inv env (fst ?get)" by (rule world_inv_Get [OF w1(3) assms(3,19)])
  have i3: "world_inv env (fst ?h)"
    using i2 world_inv_local(2) [OF i2 assms(3,20), of self' key] assms(7)
    by (simp add: handleCacheGet_def case_prod_unfold Let_def split: option.split)
  have m2: "mux_ServeHTTP env x' self' False r' w1 = Some (fst ?h, snd ?h)"
    using assms(7,14,15,18) by (simp add: mux_ServeHTTP_def route_cache)
  have s2: "server_ServeHTTP env x' self' r' w1 = Some (fst ?h, add_headers cors_headers (snd ?h))"
    by (rule server_ok [OF m2 _ i3]) (simp add: assms(14))
  have "if pos64 d \<and> time_add (xClk x 0 0) d < xClk x' 0 0 then sStatus (snd ?h) = 404
      else sStatus (snd ?h) = 200 \<and> sBody (snd ?h) = Raw b"
    using g assms(7) by (simp add: handleCacheGet_def case_prod_unfold Let_def writeError_def writeJSON_def split: if_splits)
  then show ?thesis using s1 s2 by (simp add: only_status_def split: if_splits)
qed

definition demo_http :: "instant \<Rightarrow> 'd http_env" where
  "demo_http t =
     \<lparr>xClk = (\<lambda>_ _. t), xTs = t, xFault = (\<lambda>_. NoFault), xRandom = (\<lambda>_. replicate 16 0), xOthers = (\<lambda>_ w. w),
      xParse = (\<lambda>_. None), xKeys = (\<lambda>_. None), xLock = (\<lambda>_. None), xTTL = (\<lambda>_. None), xLimit = (\<lambda>_. None),
      xStart = 0, xRuntime = (0, 0, 0), xSched = [CtxDone]\<rparr>"

definition demo_request :: "string \<Rightarrow> string list \<Rightarrow> bytes \<Rightarrow> http_request" where
  "demo_request m path body =
     \<lparr>hMethod = m, hPath = path, hHeader = (\<lambda>_. ''''), hBody = body, hReadFails = False, hRemoteAddr = '''', hURL = ''''\<rparr>"

theorem http_put_get_witness:
  "\<exists>w1 resp w2 resp'. server_ServeHTTP demo_env (demo_http 5) ''a1'' (demo_request ''PUT'' [''cache'', ''k''] [1, 2]) (demo_world Partitioned) =
      Some (w1, resp) \<and> sStatus resp = 204 \<and>
    server_ServeHTTP demo_env (demo_http 9) ''a2'' (demo_request ''GET'' [''cache'', ''k''] []) w1 = Some (w2, resp') \<and>
    sStatus resp' = 200 \<and> sBody resp' = Raw [1, 2]"
proof -
  let ?w = "demo_world Partitioned"
  obtain c where c: "gm_get ?w ''a1'' = Some c" and cl: "\<not> is_closed ''a1'' ?w" "\<not> is_closed ''a2'' ?w"
    by (simp add: demo_world_def is_closed_def demo_cache_def)
  have "routed (\<lambda>k. demo_addr (GetNode k demo_ring)) ?w"
    by (rule agreed_routed [OF demo_clash_free2 demo_agreed demo_ring_of])
  then have "owner_node ''a1'' ''k'' c = demo_addr (GetNode ''k'' demo_ring)" using c by (rule owner_node_routed)
  then obtain s where p: "gm_get ?w (owner_node ''a1'' ''k'' c) = Some (demo_cache Partitioned s)"
    by (auto simp: demo_addr_def demo_world_def split: if_splits)
  have st: "\<not> cStopped (demo_cache Partitioned s)" "st_keeps (cStore (demo_cache Partitioned s)) 5 ''k'' [1, 2] 0"
    by (simp_all add: demo_cache_def st_keeps_def ps_fits_def nano_clock_def time_add_def)
  have "set_ttl ''a1'' (parseTTL (xParse (demo_http 5)) '''') ?w = 0"
    by (simp add: set_ttl_def parseTTL_def node_at_def demo_world_def demo_cache_def DefaultConfig_def)
  then show ?thesis
    using http_put_get [OF demo_clash_free2 demo_agreed demo_codec_ok(1) demo_world_inv cl _ c p st(1),
        of "demo_request ''PUT'' [''cache'', ''k''] [1, 2]" "demo_request ''GET'' [''cache'', ''k''] []" "demo_http 5" "demo_http 9" "[1, 2]" 0] st(2)
    by (simp add: demo_http_def demo_request_def mono_def nano_clock_def pos64_def)
qed

text \<open>Decimal numbers of 64 bits are shorter than the tokens of the engine.\<close>

lemma itoa_length: "n < 10 ^ Suc k \<Longrightarrow> length (itoa n) \<le> Suc k"
proof (induction k arbitrary: n)
  case 0
  then show ?case by (subst itoa.simps) simp
next
  case (Suc k)
  have "n div 10 < 10 ^ Suc k" using Suc.prems by (simp add: div_less_iff_less_mult)
  then show ?case using Suc.IH [of "n div 10"] by (subst itoa.simps) simp
qed

lemma fencing_is_no_token:
  assumes "hex_tokens e" "gm_get (locks e) k = Some en"
  shows "lToken en \<noteq> Itoa (uint (f :: uint64))"
proof -
  have "unat f < 2 ^ 64" using unsigned_less [of f] by simp
  then have "nat (uint f) < 10 ^ Suc 19" by simp
  then have "length (Itoa (uint f)) \<le> 20" using itoa_length [of "nat (uint f)" 19] by (simp add: Itoa_def)
  then show ?thesis using assms unfolding hex_tokens_def by fastforce
qed

lemma locks_unchanged [simp]: "c\<lparr>cLocks := cLocks c\<rparr> = (c :: 'd cache)"
  by simp

text \<open>
  C35: A lock taken over HTTP cannot be given back or extended over HTTP. The answer of \<open>POST /locks/key\<close>
  carries the fencing number as its token, while \<open>DELETE\<close> and \<open>PUT\<close> compare the header \<open>X-Lock-Token\<close> with
  the 32-digit token of the engine: with the token from the answer, both are refused with 409 at every
  well-formed node and change nothing.\<close>

theorem http_lock_not_releasable:
  fixes c :: "'d cache"
  assumes "handleLockAcquire env PD clk random ft others self key req w = Some (w1, resp)" "sStatus resp = 200"
    and "sBody resp = Json (JObj entries)" "map_of entries ''token'' = Some (JNum n)"
    and "hHeader r ''X-Lock-Token'' = Itoa n" "hex_tokens (cLocks c)"
  shows "fst (handleLockRelease key r c) = c \<and> sStatus (snd (handleLockRelease key r c)) = 409 \<and>
    fst (handleLockExtend PD clk' key r (Some ttl) c) = c \<and> sStatus (snd (handleLockExtend PD clk' key r (Some ttl) c)) = 409"
proof -
  have k: "key \<noteq> ''''" using assms(1,2) by (auto simp: handleLockAcquire_def key_required_def writeError_def writeJSON_def)
  obtain f :: uint64 where n: "n = uint f"
    using assms(1-4)
    by (auto simp: handleLockAcquire_def key_required_def writeError_def writeJSON_def split: if_splits option.splits sum.splits)
  have t: "hHeader r ''X-Lock-Token'' \<noteq> ''''" using assms(5) by (simp add: Itoa_def n)
  have ne: "lToken en \<noteq> hHeader r ''X-Lock-Token''" if "gm_get (locks (cLocks c)) k' = Some en" for k' en
    using fencing_is_no_token [OF assms(6) that] assms(5) n by simp
  have "Release (''__lock:'' @ key) (hHeader r ''X-Lock-Token'') (cLocks c) = (cLocks c, False)"
    using ne by (simp add: Release_def split: option.split)
  moreover have "Extend (clk' 0) (clk' 1) (''__lock:'' @ key) (hHeader r ''X-Lock-Token'') d (cLocks c) = (cLocks c, False)" for d
    using ne by (simp add: Extend_def split: option.split)
  ultimately show ?thesis using k t by (simp add: handleLockRelease_def handleLockExtend_def writeJSON_def Let_def)
qed

definition demo_solo :: "(string, bytes) gomap cache" where
  "demo_solo = (demo_cache Partitioned ''n1'')\<lparr>cRing := None, cState := None\<rparr>"

theorem http_lock_not_releasable_witness:
  "\<exists>w1 c resp. handleLockAcquire demo_env (\<lambda>_. None) (\<lambda>_ _. 5) (\<lambda>_. replicate 16 0) (\<lambda>_. NoFault) (\<lambda>_ w. w) ''a1'' ''k''
     (Some \<lparr>lbTTL = '''', lbRetryCount = 0, lbRetryDelay = ''''\<rparr>) [(''a1'', demo_solo)] = Some (w1, resp) \<and>
     sStatus resp = 200 \<and> gm_get w1 ''a1'' = Some c \<and> IsHeld 5 ''__lock:k'' (cLocks c) \<and>
     sStatus (snd (handleLockRelease ''k'' ((demo_request ''DELETE'' [] [])\<lparr>hHeader := (\<lambda>_. Itoa 1)\<rparr>) c)) = 409"
proof -
  let ?r = "(demo_request ''DELETE'' [] [])\<lparr>hHeader := (\<lambda>_. Itoa 1)\<rparr>"
  let ?b = "\<lparr>lbTTL = '''', lbRetryCount = 0, lbRetryDelay = ''''\<rparr>"
  let ?acq = "Acquire 5 5 (replicate 16 0) ''__lock:k'' (30 * second) '''' NewEngine"
  let ?c = "demo_solo\<lparr>cLocks := fst ?acq\<rparr>"
  have "lock_attempt demo_env (\<lambda>_. 5) (replicate 16 0) NoFault ''a1'' ''__lock:k'' (30 * second) [(''a1'', demo_solo)] =
      ([(''a1'', ?c)], Some (Inr \<lparr>hCache = ''a1'', hKey = ''__lock:k'', hToken = generateToken (replicate 16 0), hFencing = 1,
        hOwnerAddr = ''''\<rparr>))"
    by (simp add: lock_attempt_def ownerAddr_def demo_solo_def demo_cache_def lock_owner_def Acquire_def NewEngine_def Let_def)
  then have "Lock demo_env (\<lambda>_ _. 5) (\<lambda>_. replicate 16 0) (\<lambda>_. NoFault) (\<lambda>_ w. w) ''a1'' ''k''
      \<lparr>loTTL = 30 * second, loRetryCount = 0, loRetryDelay = 0\<rparr> [(''a1'', demo_solo)] =
      Some ([(''a1'', ?c)], Inr \<lparr>hCache = ''a1'', hKey = ''__lock:k'', hToken = generateToken (replicate 16 0), hFencing = 1,
        hOwnerAddr = ''''\<rparr>)"
    by (simp add: Lock_def is_closed_def demo_solo_def demo_cache_def) (subst lock_loop.simps, simp add: less64_def)
  then obtain resp where resp: "handleLockAcquire demo_env (\<lambda>_. None) (\<lambda>_ _. 5) (\<lambda>_. replicate 16 0) (\<lambda>_. NoFault) (\<lambda>_ w. w)
      ''a1'' ''k'' (Some ?b) [(''a1'', demo_solo)] = Some ([(''a1'', ?c)], resp)" "sStatus resp = 200"
      "sBody resp = Json (JObj [(''acquired'', JBool True), (''token'', JNum 1), (''fencing_token'', JNum 1)])"
    by (simp add: handleLockAcquire_def lock_ttl_def pos64_def Let_def writeJSON_def handle_Token_def)
  have hex: "hex_tokens (cLocks ?c)"
    using hex_tokens_Acquire(2) [OF hex_tokens_new(1)] by simp
  have held: "IsHeld 5 ''__lock:k'' (cLocks ?c)"
    by (simp add: Acquire_def NewEngine_def IsHeld_def lock_IsExpired_def time_add_def second_def Let_def)
  have "sStatus (snd (handleLockRelease ''k'' ?r ?c)) = 409"
    using http_lock_not_releasable [OF resp, of 1 ?r ?c] hex by simp
  then show ?thesis using resp(1,2) held by (intro exI [of _ "[(''a1'', ?c)]"] exI [of _ ?c] exI [of _ resp]) simp
qed

text \<open>
  \<open>GET /subscribe\<close> never streams: behind the middleware of the server the response writer has lost its
  \<open>Flush\<close> method, so every request is answered with 500 and subscribes to nothing, although the same handler
  without the middleware subscribes and streams.\<close>

lemma subscribe_never_streams:
  assumes "hMethod r = ''GET''" "hPath r = ''subscribe'' # seg # segs" "gm_get w self = Some c" "\<not> cPanicked c"
  shows "(\<exists>w' resp. server_ServeHTTP env x self r w = Some (w', resp) \<and> sStatus resp = 500 \<and> gm_get w' = gm_get w) \<and>
    (\<exists>w' resp. mux_ServeHTTP env (x\<lparr>xSched := [CtxDone]\<rparr>) self True r w = Some (w', resp) \<and> sStatus resp = 200)"
proof
  have route: "registerRoutes (hMethod r) (hPath r) = SubscribeTo (join_path (seg # segs))"
    using assms(1,2) by (simp add: registerRoutes_def by_method_def)
  have "mux_ServeHTTP env x self False r w = Some (gm_set self c w, writeError 500 ''streaming not supported'')"
    using assms(3) unfolding mux_ServeHTTP_def route by (simp add: local_handler_def handleSubscribeSSE_def)
  then have "server_ServeHTTP env x self r w =
      Some (gm_set self c w, add_headers cors_headers (writeError 500 ''streaming not supported''))"
    using assms(1,4)
    by (simp add: server_ServeHTTP_def withMiddleware_def recoveryMiddleware_def corsMiddleware_def loggingMiddleware_def
        node_at_def)
  moreover have "gm_get (gm_set self c w) = gm_get w" using assms(3) by (auto simp: fun_eq_iff)
  moreover have "sStatus (add_headers cors_headers (writeError 500 ''streaming not supported'')) = 500"
    by (simp add: writeError_def writeJSON_def)
  ultimately show "\<exists>w' resp. server_ServeHTTP env x self r w = Some (w', resp) \<and> sStatus resp = 500 \<and> gm_get w' = gm_get w"
    by blast
  show "\<exists>w' resp. mux_ServeHTTP env (x\<lparr>xSched := [CtxDone]\<rparr>) self True r w = Some (w', resp) \<and> sStatus resp = 200"
    using assms(3) unfolding mux_ServeHTTP_def route
    by (simp add: local_handler_def handleSubscribeSSE_def Let_def case_prod_unfold)
qed

end
