(* ===== verification/Tag_Props.thy ===== *)
theory Tag_Props
  imports Node_Props
begin

text \<open>
  Tags in a cluster (\<open>src/tags.go\<close>): the tags of a key are kept by the node where it was set, and invalidating
  a tag at that node deletes the key everywhere, while invalidating it at any other node does nothing.
\<close>

section \<open>Definitions\<close>

text \<open>No value of the key is left at its owner.\<close>

definition gone :: "('d, 'v, 'x, 'w) env \<Rightarrow> (string \<Rightarrow> string) \<Rightarrow> string \<Rightarrow> 'd world \<Rightarrow> bool" where
  "gone env own k w \<longleftrightarrow> (\<forall>s t. stores w (own k) = Some s \<longrightarrow> st_look (eApi env) t s k = None)"

text \<open>Every member of the cluster runs and listens.\<close>

definition all_up :: "string set \<Rightarrow> (string \<Rightarrow> string) \<Rightarrow> 'd world \<Rightarrow> bool" where
  "all_up M addr w \<longleftrightarrow> (\<forall>n\<in>M. \<exists>c. gm_get w (addr n) = Some c \<and> \<not> cStopped c)"

section \<open>Lemmas\<close>

lemma world_inv_store: "world_inv env w \<Longrightarrow> stores w a = Some s \<Longrightarrow> st_inv (eApi env) s"
  using world_invD node_invD(1) by (fastforce simp: stores_def)

lemma gone_Get:
  assumes r: "routed own w" and ok: "codec_ok (eCodec env)" and inv: "world_inv env w" and g: "gone env own k w"
  shows "snd (cache_Get env clk ft self k dest w) = None"
proof (cases "snd (cache_Get env clk ft self k dest w)")
  case (Some v)
  obtain s b where s: "stores w (own k) = Some s" "snd (st_Get (eApi env) (clk 0) k s) = Some b"
    using cache_Get_effect [OF r ok surjective_pairing, of clk ft self k dest] Some by auto
  then have "st_look (eApi env) (clk 0) s k = Some b" using backend.get_look [OF world_inv_store [OF inv s(1)]] by simp
  then show ?thesis using g s(1) by (simp add: gone_def)
qed simp

lemma gone_at_owner_delete:
  assumes "at_owner own k' (\<lambda>s. fst (st_Delete (eApi env) k' s)) (stores w) (stores w')" "world_inv env w"
    and "k = k' \<or> gone env own k w"
  shows "gone env own k w'"
proof -
  obtain s where s: "stores w (own k') = Some s" "stores w' = (stores w)(own k' \<mapsto> fst (st_Delete (eApi env) k' s))"
    using assms(1) by (auto simp: at_owner_def)
  have "st_look (eApi env) t (fst (st_Delete (eApi env) k' s)) = (st_look (eApi env) t s)(k' := None)" for t
    by (rule backend.del_look [OF world_inv_store [OF assms(2) s(1)]])
  then show ?thesis using assms(3) s by (auto simp: gone_def)
qed

lemma cache_Delete_gone:
  assumes r: "routed own w" and ok: "codec_ok (eCodec env)" and inv: "world_inv env w" and g: "gone env own k w"
  shows "gone env own k (cache_Delete env clk ts ft self k' w)"
  using cache_Delete_effect [OF r ok, of clk ts ft self k'] gone_at_owner_delete [OF _ inv, of own k'] g
  by (metis gone_def)

lemma cache_Delete_deletes:
  assumes r: "routed own w" and ok: "codec_ok (eCodec env)" and inv: "world_inv env w"
    and l: "listening own k w" and k: "k \<noteq> ''''" and open_: "\<not> is_closed self w"
  shows "gone env own k (cache_Delete env clk ts NoFault self k w)"
proof -
  obtain c where c: "gm_get w self = Some c" using not_closed [OF open_] by blast
  have "stores (cache_Delete env clk ts NoFault self k w) = stores (distributedDelete env clk NoFault self k w)"
    using k open_ by (simp add: cache_Delete_def Let_def stores_on_node)
  then show ?thesis using gone_at_owner_delete [OF _ inv] distributedDelete_ok [OF r ok c l, of clk] by metis
qed

lemma invalidate_loop_gone:
  assumes ok: "codec_ok (eCodec env)" and clk: "\<And>i. mono (clk i)" and k: "k \<noteq> ''''"
  shows "routed own w \<Longrightarrow> world_inv env w \<Longrightarrow> listening own k w \<Longrightarrow> \<not> is_closed self w \<Longrightarrow> k \<in> set keys \<or> gone env own k w \<Longrightarrow>
    routed own (invalidate_loop env clk ts (\<lambda>_. NoFault) self i keys w) \<and>
    world_inv env (invalidate_loop env clk ts (\<lambda>_. NoFault) self i keys w) \<and>
    gone env own k (invalidate_loop env clk ts (\<lambda>_. NoFault) self i keys w)"
proof (induction keys arbitrary: i w)
  case (Cons k' keys)
  let ?w = "cache_Delete env (clk i) (ts i) NoFault self k' w"
  have roles: "roles ?w = roles w" using cache_Delete_effect [OF Cons.prems(1) ok] by blast
  have "k \<in> set keys \<or> gone env own k ?w"
    using Cons.prems cache_Delete_deletes [OF Cons.prems(1) ok Cons.prems(2,3) k Cons.prems(4)]
      cache_Delete_gone [OF Cons.prems(1) ok Cons.prems(2)] by auto
  moreover have "routed own ?w" using routed_roles [OF Cons.prems(1) roles] .
  moreover have "world_inv env ?w" by (rule world_inv_Delete [OF Cons.prems(2) ok clk])
  moreover have "listening own k ?w" "\<not> is_closed self ?w"
    using listening_roles [OF roles] is_closed_roles [OF roles] Cons.prems(3,4) by simp_all
  ultimately show ?case using Cons.IH [of ?w "Suc i"] by simp
qed simp

text \<open>A write leaves the tags of the other nodes alone.\<close>

lemma tags_conns: "cTags (c\<lparr>cConns := cs\<rparr>) = cTags c"
  by simp

lemma RemoteSet_tags:
  assumes "codec_ok (eCodec env)" "self \<noteq> addr"
  shows "views cTags (fst (RemoteSet env clk ft self addr k v d [] w)) = views cTags w"
proof -
  obtain w' q where q: "call env clk [] ft self addr (set_request k v d []) w = (w', q)"
    by (cases "call env clk [] ft self addr (set_request k v d []) w")
  have "cTags (fst (processRequest env clk [] (set_request k v d []) p)) = cTags p" for p
    by (simp add: process_set HandleSet_def node_Set_def case_prod_unfold Let_def)
  then have "views cTags w' = views cTags w"
    using call_view [where V = cTags, OF tags_conns assms q] views_same by (metis (no_types, lifting))
  then show ?thesis using q by (simp add: RemoteSet_def split: sum.split)
qed

lemma node_Set_tags [simp]: "cTags (node_Set env t k v d c) = cTags c" "cTags (spawn addrs req c) = cTags c"
  "cTags (fire f c) = cTags c" "cTags (do_publish t ty k v c) = cTags c"
  by (simp_all add: node_Set_def spawn_def fire_def do_publish_def case_prod_unfold Let_def split: option.split)

lemma distributedSet_tags:
  assumes own: "one_owner own w" and ok: "codec_ok (eCodec env)"
  shows "views cTags (fst (distributedSet env clk ft self k v d [] w)) = views cTags w"
proof (cases "gm_get w self")
  case (Some c)
  have ne: "ownerAddr k c \<noteq> '''' \<Longrightarrow> self \<noteq> ownerAddr k c" using own Some by (auto simp: one_owner_def)
  show ?thesis
    using Some ne views_same [OF Some, of cTags] RemoteSet_tags [OF ok, of self "ownerAddr k c"]
    by (cases "ownerAddr k c = ''''") (simp_all add: distributedSet_def Let_def split: Mode.split)
qed (simp add: distributedSet_def)

lemma SetWithTags_tags:
  assumes own: "one_owner own w" and ok: "codec_ok (eCodec env)" and ne: "self' \<noteq> self"
  shows "views cTags (fst (SetWithTags env clk ts ft self k v d tags w)) self' = views cTags w self'"
proof -
  have "views cTags (fst (cache_Set env clk ts ft self k v d w)) = views cTags w"
    using distributedSet_tags [OF own ok]
    by (simp add: cache_Set_def Let_def case_prod_unfold views_on_node split: sum.split option.split)
  moreover have "views cTags (on_node self f w') self' = views cTags w' self'" for f and w' :: "'a world"
    using ne by (simp add: on_node_def split: option.split)
  ultimately show ?thesis by (simp add: SetWithTags_def case_prod_unfold split: option.split)
qed

section \<open>Properties\<close>

text \<open>
  C22: Invalidating a tag deletes what it was given to. In a partitioned cluster of well-formed nodes that agree
  on its members, all of them up, a key stored with \<open>SetWithTags\<close> is missing at every node after \<open>InvalidateTag\<close>
  of one of its tags at the node that stored it.\<close>

theorem invalidate_tag_deletes:
  assumes "clash_free v M" "agreed v M addr w" "codec_ok (eCodec env)" "world_inv env w" "all_up M addr w"
    and "\<not> is_closed self w" "mono clk" "\<And>i. mono (clk1 i)"
    and "SetWithTags env clk ts ft self key val ttl tags w = (w1, None)" "tag \<in> set tags"
  shows "snd (cache_Get env clk' ft' self' key dest (InvalidateTag env clk1 ts1 (\<lambda>_. NoFault) self tag w1)) = None"
proof -
  obtain c where c: "gm_get w self = Some c" using not_closed [OF assms(6)] by blast
  obtain r0 where r0: "ring_of v M r0" using assms(2) c unfolding agreed_def same_members_def by blast
  define own where "own = (\<lambda>k. addr (GetNode k r0))"
  have r: "routed own w" unfolding own_def by (rule agreed_routed [OF assms(1,2) r0])
  have "M \<noteq> {}" using assms(2) unfolding agreed_def same_members_def by blast
  then have "GetNode key r0 \<in> M" using ring_of_GetNode [OF r0] by blast
  then have l: "listening own key w" using assms(5) by (auto simp: all_up_def listening_def own_def)
  obtain w0 where s: "cache_Set env clk ts ft self key val ttl w = (w0, None)"
    and w1: "w1 = on_node self (\<lambda>c. c\<lparr>cTags := tag_Add key tags (cTags c)\<rparr>) w0"
    using assms(9,10) by (auto simp: SetWithTags_def split: prod.splits option.splits if_splits)
  have k: "key \<noteq> ''''" using s by (auto simp: cache_Set_def)
  have roles: "roles w1 = roles w" using cache_Set_effect [OF r assms(3) s] by (simp add: w1 roles_on_node)
  have inv1: "world_inv env w1" using world_inv_SetWithTags [OF assms(4,3,7), of ts ft self key val ttl tags] assms(9) by simp
  have r1: "routed own w1" by (rule routed_roles [OF r roles])
  have l1: "listening own key w1" "\<not> is_closed self w1"
    using listening_roles [OF roles] is_closed_roles [OF roles] l assms(6) by simp_all
  obtain c1 where c1: "gm_get w1 self = Some c1" using not_closed [OF l1(2)] by blast
  then obtain ti where ti: "cTags c1 = tag_Add key tags ti" by (auto simp: w1 on_node_def split: option.splits)
  have "tag_inv (cTags c1)" using world_invD [OF inv1 c1] by (rule node_invD(2))
  then have "key \<in> set (GetKeysByTag tag (cTags c1))"
    using GetKeysByTag_inv(2) assms(10) by (auto simp: ti tag_Add_spec tagged_def)
  then have mem: "key \<in> set (node_at self w1 (\<lambda>c. GetKeysByTag tag (cTags c)) [])" using c1 by (simp add: node_at_def)
  have "routed own (InvalidateTag env clk1 ts1 (\<lambda>_. NoFault) self tag w1) \<and>
      world_inv env (InvalidateTag env clk1 ts1 (\<lambda>_. NoFault) self tag w1) \<and>
      gone env own key (InvalidateTag env clk1 ts1 (\<lambda>_. NoFault) self tag w1)"
    unfolding InvalidateTag_def
    by (rule invalidate_loop_gone [OF assms(3) assms(8) k r1 inv1 l1 disjI1 [OF mem]])
  then show ?thesis using gone_Get [OF _ assms(3)] by blast
qed

theorem invalidate_tag_deletes_witness:
  "\<exists>w1. SetWithTags demo_env (\<lambda>_. 5) 5 NoFault ''a1'' ''k'' (GBytes [1]) 0 [''t''] (demo_world Partitioned) = (w1, None) \<and>
     snd (cache_Get demo_env (\<lambda>_. 9) NoFault ''a2'' ''k'' DestBytes
       (InvalidateTag demo_env (\<lambda>_ _. 7) (\<lambda>_. 7) (\<lambda>_. NoFault) ''a1'' ''t'' w1)) = None"
proof -
  let ?w = "demo_world Partitioned" and ?own = "\<lambda>k. demo_addr (GetNode k demo_ring)"
  have up: "all_up {''n1'', ''n2''} demo_addr ?w" and cl: "\<not> is_closed ''a1'' ?w"
    by (simp_all add: all_up_def demo_addr_def demo_world_def demo_cache_def is_closed_def)
  have r: "routed ?own ?w" by (rule agreed_routed [OF demo_clash_free2 demo_agreed demo_ring_of])
  obtain c where c: "gm_get ?w (?own ''k'') = Some c" "\<not> cStopped c"
    using demo_node by blast
  have l: "listening ?own ''k'' ?w" using c by (simp add: listening_def)
  obtain w0 where "cache_Set demo_env (\<lambda>_. 5) 5 NoFault ''a1'' ''k'' (GBytes [1]) 0 ?w = (w0, None)"
    using cache_Set_ok [OF r demo_codec_ok(1) l _ cl _ views_at(1) [OF c(1)], of "GBytes [1]" "[1]" "\<lambda>_. 5" 5 0] by auto
  then obtain w1 where w1: "SetWithTags demo_env (\<lambda>_. 5) 5 NoFault ''a1'' ''k'' (GBytes [1]) 0 [''t''] ?w = (w1, None)"
    by (simp add: SetWithTags_def)
  have "snd (cache_Get demo_env (\<lambda>_. 9) NoFault ''a2'' ''k'' DestBytes
       (InvalidateTag demo_env (\<lambda>_ _. 7) (\<lambda>_. 7) (\<lambda>_. NoFault) ''a1'' ''t'' w1)) = None"
    by (rule invalidate_tag_deletes [OF demo_clash_free2 demo_agreed demo_codec_ok(1) demo_world_inv up cl _ _ w1])
      (simp_all add: mono_def)
  then show ?thesis using w1 by blast
qed

text \<open>
  C34: Tags are local to a node. Whatever a node stores with \<open>SetWithTags\<close>, in any mode, \<open>InvalidateTag\<close> at
  another node that has not given the tag to keys of its own does nothing: the tagged entries stay.\<close>

theorem invalidate_tag_elsewhere:
  assumes "clash_free v M" "same_members v M addr w" "codec_ok (eCodec env)" "self' \<noteq> self"
    and "gm_get w self' = Some c" "GetKeysByTag tag (cTags c) = []"
    and "SetWithTags env clk ts ft self key val ttl tags w = (w1, res)"
  shows "InvalidateTag env clk1 ts1 fts self' tag w1 = w1"
proof -
  obtain own where own: "one_owner own w" using same_members_one_owner_ex [OF assms(1,2)] by blast
  have "views cTags w1 self' = Some (cTags c)"
    using SetWithTags_tags [OF own assms(3,4), of clk ts ft key val ttl tags] views_get [OF assms(5), of cTags] assms(7) by simp
  then have "node_at self' w1 (\<lambda>c. GetKeysByTag tag (cTags c)) [] = []"
    using assms(6) by (auto simp: views_def node_at_def)
  then show ?thesis by (simp add: InvalidateTag_def)
qed

theorem invalidate_tag_elsewhere_witness:
  "InvalidateTag demo_env (\<lambda>_ _. 7) (\<lambda>_. 7) (\<lambda>_. NoFault) ''a2'' ''t''
     (fst (SetWithTags demo_env (\<lambda>_. 5) 5 NoFault ''a1'' ''k'' (GBytes [1]) 0 [''t''] (demo_world Replicated))) =
   fst (SetWithTags demo_env (\<lambda>_. 5) 5 NoFault ''a1'' ''k'' (GBytes [1]) 0 [''t''] (demo_world Replicated))"
proof -
  have "gm_get (demo_world Replicated) ''a2'' = Some (demo_cache Replicated ''n2'')"
    "GetKeysByTag ''t'' (cTags (demo_cache Replicated ''n2'')) = []"
    by (simp_all add: demo_world_def demo_cache_def GetKeysByTag_def newTagIndex_def)
  from invalidate_tag_elsewhere [OF demo_clash_free2 demo_same_members demo_codec_ok(1) _ this surjective_pairing]
  show ?thesis by simp
qed

end
