(* ===== verification/Middleware_Props.thy ===== *)
theory Middleware_Props
  imports Middleware Node_Props
begin

text \<open>
  The HTTP middleware over a cluster: \<open>HTTPCache\<close> replays the response of another node, and \<open>HTTPRateLimit\<close>
  tells IPv6 clients apart by the first group of their address only.
\<close>

section \<open>Lemmas\<close>

lemma cache_Get_views:
  assumes "routed own w" "codec_ok (eCodec env)" "world_inv env w" "mono clk"
  shows "roles (fst (cache_Get env clk ft self k dest w)) = roles w" "world_inv env (fst (cache_Get env clk ft self k dest w))"
    "stores w (own k) = Some s \<Longrightarrow> \<exists>s'. stores (fst (cache_Get env clk ft self k dest w)) (own k) = Some s' \<and>
       st_inv (eApi env) s' \<and> (s' = s \<or> s' = fst (st_Get (eApi env) (clk 0) k s))"
proof -
  note e = cache_Get_effect [OF assms(1,2) surjective_pairing, of clk ft self k dest]
  show "roles (fst (cache_Get env clk ft self k dest w)) = roles w" using e by blast
  show inv: "world_inv env (fst (cache_Get env clk ft self k dest w))" by (rule world_inv_Get [OF assms(3,2,4)])
  assume s: "stores w (own k) = Some s"
  have "\<exists>s'. stores (fst (cache_Get env clk ft self k dest w)) (own k) = Some s' \<and> (s' = s \<or> s' = fst (st_Get (eApi env) (clk 0) k s))"
    using e s by (auto simp: at_owner_def)
  then show "\<exists>s'. stores (fst (cache_Get env clk ft self k dest w)) (own k) = Some s' \<and> st_inv (eApi env) s' \<and>
      (s' = s \<or> s' = fst (st_Get (eApi env) (clk 0) k s))"
    using world_invD [OF inv] node_invD(1) by (fastforce simp: stores_def)
qed

section \<open>Properties\<close>

text \<open>
  C24: \<open>HTTPCache\<close> serves what it stored. In a partitioned cluster of well-formed nodes that agree on its
  members, let a \<open>GET\<close> request miss at one node, its handler leave the cache alone and answer with a status
  from 200 to 399. Until the entry expires, every \<open>GET\<close> request for the same URL at any node is answered
  with the stored status and body and \<open>X-Cache: HIT\<close>, and the handler behind it is not called.\<close>

theorem http_cache_replays:
  fixes next' :: "('s, 'd) app_handler"
  assumes "clash_free v M" "agreed v M addr w" "codec_ok (eCodec env)" "world_inv env w"
    and "\<not> is_closed self w" "\<not> is_closed self' w" "\<And>i. mono (clk i)"
    and "hMethod r = ''GET''" "hMethod r' = ''GET''" "hURL r' = hURL r" "key = ''httpcache:'' @ hashRequest sha256_hex r"
    and "gm_get w self = Some c" "gm_get w (owner_node self key c) = Some p" "\<not> cStopped p"
    and "ft 1 = NoFault" "ft' 0 = NoFault" "cache_Get env (clk 0) (ft 0) self key (DestVal ()) w = (w1, None)"
    and "next_h False r st w1 = Some (st2, w1, resp)" "200 \<le> sStatus resp" "sStatus resp < 400"
    and "cached = \<lparr>crStatusCode = sStatus resp, crBody = sBody resp, crHeaders = sHeaders (add_headers outer resp)\<rparr>"
    and "marshal_any (eMsgpack env) cached = Inr b" "unmarshal_any (eMsgpack env) b () = Inr cached"
    and "d = set_ttl self ttl w" "\<And>s. s = cStore p \<or> s = fst (st_Get (eApi env) (clk 0 0) key (cStore p)) \<Longrightarrow> st_keeps s (clk 1 0) key b d"
    and "nano_clock (clk' 0 0)" "\<not> (pos64 d \<and> time_add (clk 1 0) d < clk' 0 0)"
  shows "\<exists>w2. HTTPCache env sha256_hex clk ts ft self ttl outer next_h flusher r st w = Some (st2, w2, resp) \<and>
    (\<exists>w3. HTTPCache env sha256_hex clk' ts' ft' self' ttl' outer' next' flusher' r' st' w2 =
       Some (st', w3, \<lparr>sStatus = sStatus resp, sHeaders = gm_set ''X-Cache'' (FStr ''HIT'') (sHeaders (add_headers outer resp)),
                  sBody = sBody resp\<rparr>))"
proof -
  obtain own where r: "routed own w" using agreed_routed_ex [OF assms(1,2)] by blast
  have o: "owner_node self key c = own key" by (rule owner_node_routed [OF r assms(12)])
  have l: "listening own key w" using assms(13,14) by (simp add: listening_def o)
  have s: "stores w (own key) = Some (cStore p)" using assms(13) by (simp add: o views_at)
  have k: "key \<noteq> ''''" by (simp add: assms(11))
  have g: "fst (cache_Get env (clk 0) (ft 0) self key (DestVal ()) w) = w1" using assms(17) by simp
  note V = cache_Get_views [OF r assms(3,4) assms(7) [of 0], where ft = "ft 0" and self = self and k = key and dest = "DestVal ()", unfolded g]
  obtain s1 where s1: "stores w1 (own key) = Some s1" "st_inv (eApi env) s1"
    "s1 = cStore p \<or> s1 = fst (st_Get (eApi env) (clk 0 0) key (cStore p))"
    using V(3) [OF s] by blast
  have r1: "routed own w1" by (rule routed_roles [OF r V(1)])
  have l1: "listening own key w1" "\<not> is_closed self w1" "\<not> is_closed self' w1"
    using listening_roles [OF V(1)] is_closed_roles [OF V(1)] l assms(5,6) by simp_all
  have d1: "set_ttl self ttl w1 = d" using set_ttl_roles [OF V(1)] assms(24) by simp
  have b: "Serialize (marshal_any (eMsgpack env)) (GVal cached) = Inr b" using assms(22) by simp
  let ?s2 = "fst (st_Set (eApi env) (clk 1 0) key b d s1)"
  obtain w2 where w2: "cache_Set env (clk 1) ts NoFault self key (GVal cached) ttl w1 = (w2, None)" "roles w2 = roles w1"
    "stores w2 = (stores w1)(own key \<mapsto> ?s2)"
    using cache_Set_ok [OF r1 assms(3) l1(1) k l1(2) b s1(1)] d1 by blast
  have h1: "HTTPCache env sha256_hex clk ts ft self ttl outer next_h flusher r st w = Some (st2, w2, resp)"
    unfolding HTTPCache_def assms(11) [symmetric] Let_def using assms(8,15,17-20) w2(1) by (simp add: assms(21))
  have "snd (st_Get (eApi env) (clk' 0 0) key ?s2) = Some b"
    using backend.get_after_put [OF s1(2) assms(26) assms(25) [OF s1(3)]] assms(27) by simp
  moreover have "routed own w2" by (rule routed_roles [OF r1 w2(2)])
  moreover have "listening own key w2" "\<not> is_closed self' w2"
    using listening_roles [OF w2(2)] is_closed_roles [OF w2(2)] l1 by simp_all
  moreover have "stores w2 (own key) = Some ?s2" using w2(3) by simp
  ultimately have g2: "snd (cache_Get env (clk' 0) NoFault self' key (DestVal ()) w2) = Some (GVal cached)"
    using cache_Get_ok [OF _ assms(3) _ k, of own w2 self' ?s2 "clk' 0" "DestVal ()"] assms(23) by simp
  have key': "''httpcache:'' @ hashRequest sha256_hex r' = key" by (simp add: assms(8-11) hashRequest_def)
  obtain w3 where "cache_Get env (clk' 0) NoFault self' key (DestVal ()) w2 = (w3, Some (GVal cached))"
    using g2 by (metis prod.collapse)
  then have "HTTPCache env sha256_hex clk' ts' ft' self' ttl' outer' next' flusher' r' st' w2 =
      Some (st', w3, \<lparr>sStatus = crStatusCode cached, sHeaders = gm_set ''X-Cache'' (FStr ''HIT'') (crHeaders cached), sBody = crBody cached\<rparr>)"
    using assms(9,16) unfolding HTTPCache_def key' Let_def by simp
  then show ?thesis using h1 by (simp add: assms(21))
qed

definition demo_cached :: cachedResponse where
  "demo_cached = \<lparr>crStatusCode = 200, crBody = Text ''hi'', crHeaders = []\<rparr>"

definition demo_http_env :: "((string, bytes) gomap, cachedResponse, unit, request + response) env" where
  "demo_http_env =
     \<lparr>eApi = list_pebble,
      eMsgpack = msgpack.extend fixed_msgpack
        \<lparr>marshal_any = (\<lambda>_. Inr [7]), unmarshal_any = (\<lambda>b d. if b = [7] then Inr demo_cached else Inl ''invalid code'')\<rparr>,
      eCodec = plain_codec, eConv = (\<lambda>_. 0)\<rparr>"

definition demo_page :: http_request where
  "demo_page = \<lparr>hMethod = ''GET'', hPath = [], hHeader = (\<lambda>_. ''''), hBody = [], hReadFails = False,
     hRemoteAddr = JoinHostPort ''::1'' ''80'', hURL = ''/''\<rparr>"

definition demo_next :: "(unit, (string, bytes) gomap) app_handler" where
  "demo_next flusher r st w = Some (st, w, \<lparr>sStatus = 200, sHeaders = [], sBody = Text ''hi''\<rparr>)"

theorem http_cache_replays_witness:
  "\<exists>w2 resp. HTTPCache demo_http_env (\<lambda>_. ''0'') (\<lambda>_ _. 5) 5 (\<lambda>_. NoFault) ''a1'' 10 [] demo_next True demo_page ()
      (demo_world Partitioned) = Some ((), w2, resp) \<and>
    (\<exists>w3 resp'. HTTPCache demo_http_env (\<lambda>_. ''0'') (\<lambda>_ _. 9) 9 (\<lambda>_. NoFault) ''a2'' 10 [] (\<lambda>_ _ _ _. None) True demo_page () w2 =
       Some ((), w3, resp') \<and> sBody resp' = Text ''hi'')"
proof -
  let ?w = "demo_world Partitioned" and ?own = "\<lambda>k. demo_addr (GetNode k demo_ring)" and ?e = demo_http_env
  let ?resp = "\<lparr>sStatus = 200, sHeaders = [], sBody = Text ''hi''\<rparr> :: http_response"
  define key where "key = ''httpcache:'' @ hashRequest (\<lambda>_. ''0'') demo_page"
  have ok: "codec_ok (eCodec ?e)" and api: "eApi ?e = list_pebble"
    by (simp_all add: demo_http_env_def plain_codec_ok)
  note inv = demo_world_inv_api [OF api]
  obtain c where c: "gm_get ?w ''a1'' = Some c" and cl: "\<not> is_closed ''a1'' ?w" "\<not> is_closed ''a2'' ?w"
    by (simp add: demo_world_def is_closed_def demo_cache_def)
  have r: "routed ?own ?w" by (rule agreed_routed [OF demo_clash_free2 demo_agreed demo_ring_of])
  have o: "owner_node ''a1'' key c = ?own key" by (rule owner_node_routed [OF r c])
  obtain p where p: "gm_get ?w (?own key) = Some p" "\<not> cStopped p" "cStore p = DiskStore \<lparr>db = [], pcount = 0, ponEvict = True, ponExpire = True\<rparr>"
    using demo_node [of Partitioned "GetNode key demo_ring"] by (auto simp: demo_world_def demo_cache_def split: if_splits)
  have l: "listening ?own key ?w" using p by (simp add: listening_def)
  have ne: "key \<noteq> ''''" by (simp add: key_def)
  have empty: "snd (st_Get list_pebble t key (cStore p)) = None" for t
    unfolding p(3) by (simp add: st_Get_def ps_Get_def list_pebble_def split: prod.split)
  have "snd (cache_Get ?e (\<lambda>_. 5) NoFault ''a1'' key (DestVal ()) ?w) = None"
    unfolding cache_Get_ok [OF r ok l ne cl(1) views_at(1) [OF p(1)]] api empty by simp
  then obtain w1 where w1: "cache_Get ?e (\<lambda>_. 5) NoFault ''a1'' key (DestVal ()) ?w = (w1, None)" by (metis prod.collapse)
  have keeps: "st_keeps s 5 key [7] 10" if "s = cStore p \<or> s = fst (st_Get (eApi ?e) 5 key (cStore p))" for s
    using that unfolding p(3) by (auto simp: st_keeps_def st_Get_def ps_fits_def nano_clock_def time_add_def split: prod.split)
  have m: "marshal_any (eMsgpack ?e) demo_cached = Inr [7]" "unmarshal_any (eMsgpack ?e) [7] () = Inr demo_cached"
    by (simp_all add: demo_http_env_def msgpack.defs)
  have ca: "demo_cached = \<lparr>crStatusCode = sStatus ?resp, crBody = sBody ?resp, crHeaders = sHeaders (add_headers [] ?resp)\<rparr>"
    by (simp add: demo_cached_def add_headers_def)
  have d: "(10 :: duration) = set_ttl ''a1'' 10 ?w" by (simp add: set_ttl_def)
  have "\<exists>w2. HTTPCache ?e (\<lambda>_. ''0'') (\<lambda>_ _. 5) 5 (\<lambda>_. NoFault) ''a1'' 10 [] demo_next True demo_page () ?w = Some ((), w2, ?resp) \<and>
    (\<exists>w3. HTTPCache ?e (\<lambda>_. ''0'') (\<lambda>_ _. 9) 9 (\<lambda>_. NoFault) ''a2'' 10 [] (\<lambda>_ _ _ _. None) True demo_page () w2 =
       Some ((), w3, \<lparr>sStatus = sStatus ?resp, sHeaders = gm_set ''X-Cache'' (FStr ''HIT'') (sHeaders (add_headers [] ?resp)),
                  sBody = sBody ?resp\<rparr>))"
    by (rule http_cache_replays [where clk = "\<lambda>_ _. 5" and clk' = "\<lambda>_ _. 9" and ft = "\<lambda>_. NoFault" and ft' = "\<lambda>_. NoFault",
          OF demo_clash_free2 demo_agreed ok inv cl _ _ _ _ key_def c p(1) [folded o] p(2) _ _ w1 _ _ _ ca m d keeps])
      (simp_all add: mono_def demo_page_def demo_next_def nano_clock_def time_add_def)
  then show ?thesis by auto
qed

text \<open>
  The rate limit by client address merges IPv6 clients. When no proxy header is set, two clients whose IPv6
  addresses agree up to the first colon, such as \<open>::1\<close> and \<open>::2\<close>, are one client for \<open>HTTPRateLimit\<close>, whatever
  the rest of their addresses and their ports are.\<close>

lemma ipv6_clients_share_limit:
  assumes "hHeader r ''X-Forwarded-For'' = ''''" "hHeader r ''X-Real-IP'' = ''''"
    and "hHeader r' ''X-Forwarded-For'' = ''''" "hHeader r' ''X-Real-IP'' = ''''" "CHR '':'' \<notin> set g"
    and "hRemoteAddr r = JoinHostPort (g @ '':'' @ rest) port" "hRemoteAddr r' = JoinHostPort (g @ '':'' @ rest') port'"
  shows "clientIP r = ''['' @ g \<and>
    HTTPRateLimit env t self limit win (\<lambda>fl _. h fl) flusher r st w = HTTPRateLimit env t self limit win (\<lambda>fl _. h fl) flusher r' st w"
proof -
  have ip: "clientIP q = ''['' @ g"
    if "hHeader q ''X-Forwarded-For'' = ''''" "hHeader q ''X-Real-IP'' = ''''" "hRemoteAddr q = JoinHostPort (g @ '':'' @ x) y"
    for q x y
  proof -
    have "hRemoteAddr q = (''['' @ g) @ CHR '':'' # x @ '']:'' @ y" using that(3) by (simp add: JoinHostPort_def)
    moreover have "takeWhile (\<lambda>x. x \<noteq> CHR '':'') ((''['' @ g) @ CHR '':'' # x @ '']:'' @ y) = ''['' @ g"
      using assms(5) by (subst takeWhile_append2) auto
    ultimately show ?thesis using that(1,2) unfolding clientIP_def until_char_def by simp
  qed
  show ?thesis unfolding HTTPRateLimit_def ip [OF assms(1,2,6)] ip [OF assms(3,4,7)] by simp
qed

end
