(* ===== verification/Embedded.thy ===== *)
theory Embedded
  imports Api Fleet
begin

text \<open>
  A cache that is not part of a cluster, as \<open>NewMemory\<close> and \<open>NewDisk\<close> make it: the effect of the operations of
  the public API on the store of such a node. No request leaves the process, so the faults of the network do
  not matter.
\<close>

section \<open>Definitions\<close>

definition embedded :: "string \<Rightarrow> 'd world \<Rightarrow> bool" where
  "embedded self w \<longleftrightarrow>
     (\<exists>c. gm_get w self = Some c \<and> cRing c = None \<and> mode (cConfig c) = Partitioned \<and> \<not> cClosed c)"

section \<open>Lemmas\<close>

lemma embedded_role:
  "embedded self w \<longleftrightarrow> (\<exists>cf cs st. roles w self = Some (cf, None, cs, False, st) \<and> mode cf = Partitioned)"
  by (auto simp: embedded_def roles_def role_def)

lemma embedded_roles: "roles w' self = roles w self \<Longrightarrow> embedded self w' = embedded self w"
  by (simp add: embedded_role)

lemma embeddedE:
  assumes "embedded self w"
  obtains c where "gm_get w self = Some c" "\<And>k. ownerAddr k c = ''''" "mode (cConfig c) = Partitioned" "\<not> cClosed c"
  using assms by (auto simp: embedded_def ownerAddr_def)

lemma embedded_open: "embedded self w \<Longrightarrow> \<not> is_closed self w"
  by (auto simp: embedded_def is_closed_def)

lemma embedded_Set:
  assumes "embedded self w" "k \<noteq> ''''" "Serialize (marshal_any (eMsgpack env)) v = Inr b" "stores w self = Some s"
  obtains w' where "cache_Set env clk ts ft self k v ttl w = (w', None)" "roles w' = roles w"
    "stores w' = (stores w)(self \<mapsto> fst (st_Set (eApi env) (clk 0) k b (set_ttl self ttl w) s))"
proof -
  obtain c where c: "gm_get w self = Some c" "\<And>k. ownerAddr k c = ''''" "mode (cConfig c) = Partitioned" "\<not> cClosed c"
    by (rule embeddedE [OF assms(1)]) blast
  let ?f = "\<lambda>c. fire (FireSet k b) (do_publish ts EventSet k b c)"
  let ?w = "on_node self ?f (gm_set self (node_Set env (clk 0) k b (set_ttl self ttl w) c) w)"
  have s: "cStore c = s" using assms(4) c(1) by (simp add: stores_def)
  have "cache_Set env clk ts ft self k v ttl w = (?w, None)"
    using assms(2,3) c embedded_open [OF assms(1)] by (simp add: cache_Set_def distributedSet_def set_ttl_def Let_def)
  moreover have "roles ?w = roles w" by (subst roles_on_node) (simp_all add: same_node(2) [OF c(1)])
  moreover have "stores ?w = (stores w)(self \<mapsto> fst (st_Set (eApi env) (clk 0) k b (set_ttl self ttl w) s))"
    by (subst stores_on_node) (simp_all add: s)
  ultimately show ?thesis by (rule that)
qed

lemma embedded_Get:
  assumes "embedded self w" "k \<noteq> ''''" "stores w self = Some s"
  obtains w' where
    "cache_Get env clk ft self k dest w =
       (w', Option.bind (snd (st_Get (eApi env) (clk 0) k s))
          (\<lambda>b. case Deserialize (unmarshal_any (eMsgpack env)) b dest of Inl err \<Rightarrow> None | Inr v \<Rightarrow> Some v))"
    "roles w' = roles w" "stores w' = (stores w)(self \<mapsto> fst (st_Get (eApi env) (clk 0) k s))"
proof -
  obtain c where c: "gm_get w self = Some c" "\<And>k. ownerAddr k c = ''''" "mode (cConfig c) = Partitioned" "\<not> cClosed c"
    by (rule embeddedE [OF assms(1)]) blast
  have s: "cStore c = s" using assms(3) c(1) by (simp add: stores_def)
  obtain c' r where g: "node_Get env (clk 0) k c = (c', r)" by (cases "node_Get env (clk 0) k c")
  have v: "role c' = role c" "cStore c' = fst (st_Get (eApi env) (clk 0) k s)" "r = snd (st_Get (eApi env) (clk 0) k s)"
    using role_node_ops(2) [of env "clk 0" k c] store_node_ops(2,3) [of env "clk 0" k c] g s by simp_all
  have d: "distributedGet env clk ft self k w = (gm_set self c' w, r)"
    using c g by (simp add: distributedGet_def)
  let ?r = "Option.bind r (\<lambda>b. case Deserialize (unmarshal_any (eMsgpack env)) b dest of Inl err \<Rightarrow> None | Inr v \<Rightarrow> Some v)"
  have "\<exists>f. cache_Get env clk ft self k dest w = (on_node self (\<lambda>c. c\<lparr>cCalls := cCalls c @ f c\<rparr>) (gm_set self c' w), ?r)"
    using assms(2) embedded_open [OF assms(1)] d
    by (cases r; cases "Deserialize (unmarshal_any (eMsgpack env)) (the r) dest")
      (auto simp: cache_Get_def fire_def on_node_def intro: exI [of _ "\<lambda>_. []"])
  then obtain f where f: "cache_Get env clk ft self k dest w = (on_node self (\<lambda>c. c\<lparr>cCalls := cCalls c @ f c\<rparr>) (gm_set self c' w), ?r)" ..
  have views: "role (c\<lparr>cCalls := x\<rparr>) = role c" for c :: "'a cache" and x by (simp add: role_def)
  show ?thesis
  proof (rule that)
    show "cache_Get env clk ft self k dest w = (on_node self (\<lambda>c. c\<lparr>cCalls := cCalls c @ f c\<rparr>) (gm_set self c' w),
        Option.bind (snd (st_Get (eApi env) (clk 0) k s))
          (\<lambda>b. case Deserialize (unmarshal_any (eMsgpack env)) b dest of Inl err \<Rightarrow> None | Inr v \<Rightarrow> Some v))"
      using f v(3) by simp
    show "roles (on_node self (\<lambda>c. c\<lparr>cCalls := cCalls c @ f c\<rparr>) (gm_set self c' w)) = roles w"
      by (subst roles_on_node) (simp_all add: views v same_node(2) [OF c(1)])
    show "stores (on_node self (\<lambda>c. c\<lparr>cCalls := cCalls c @ f c\<rparr>) (gm_set self c' w)) =
        (stores w)(self \<mapsto> fst (st_Get (eApi env) (clk 0) k s))"
      by (subst stores_on_node) (simp_all add: v)
  qed
qed

lemma embedded_Delete:
  assumes "embedded self w" "k \<noteq> ''''" "stores w self = Some s"
  shows "roles (cache_Delete env clk ts ft self k w) = roles w"
    "stores (cache_Delete env clk ts ft self k w) = (stores w)(self \<mapsto> fst (st_Delete (eApi env) k s))"
proof -
  obtain c where c: "gm_get w self = Some c" "\<And>k. ownerAddr k c = ''''" "mode (cConfig c) = Partitioned" "\<not> cClosed c"
    by (rule embeddedE [OF assms(1)]) blast
  have s: "cStore c = s" using assms(3) c(1) by (simp add: stores_def)
  have e: "cache_Delete env clk ts ft self k w =
      on_node self (\<lambda>c. let c1 = fire (FireDelete k) (do_publish ts EventDelete k [] c) in c1\<lparr>cTags := tag_Remove k (cTags c1)\<rparr>)
        (gm_set self (fst (node_Delete env k c)) w)"
    using assms(2) c embedded_open [OF assms(1)] by (simp add: cache_Delete_def distributedDelete_def)
  show "roles (cache_Delete env clk ts ft self k w) = roles w"
    unfolding e by (subst roles_on_node) (simp_all add: Let_def same_node(2) [OF c(1)])
  show "stores (cache_Delete env clk ts ft self k w) = (stores w)(self \<mapsto> fst (st_Delete (eApi env) k s))"
    unfolding e by (subst stores_on_node) (simp_all add: Let_def s)
qed

lemma embedded_Incr:
  assumes "embedded self w" "k \<noteq> ''''" "stores w self = Some s" "d = set_ttl self 0 w"
    "st_Incr (eApi env) (eMsgpack env) (clk 0) (clk 1) (clk 2) k n d s = (s', cbs, r)"
  obtains w' where "cache_Incr env clk ft self k n w = (w', map_sum ErrValue (\<lambda>m. m) r)" "roles w' = roles w"
    "stores w' = (stores w)(self \<mapsto> s')"
proof -
  obtain c where c: "gm_get w self = Some c" "\<And>k. ownerAddr k c = ''''" "mode (cConfig c) = Partitioned" "\<not> cClosed c"
    by (rule embeddedE [OF assms(1)]) blast
  have s: "cStore c = s" using assms(3) c(1) by (simp add: stores_def)
  have d: "DefaultTTL (cConfig c) = d" using assms(4) c(1) by (simp add: set_ttl_def node_at_def)
  let ?c = "c\<lparr>cStore := s', cEvicted := cEvicted c @ cbs\<rparr>"
  have i: "node_Incr env clk k n c = (?c, r)" using assms(5) by (simp add: node_Incr_def s d)
  have "cache_Incr env clk ft self k n w = (gm_set self ?c w, map_sum ErrValue (\<lambda>m. m) r)"
    using assms(2) c i by (simp add: cache_Incr_def split: sum.split)
  then show ?thesis by (rule that) (simp_all add: same_node(2) [OF c(1)])
qed

lemma cache_Decr_Incr: "cache_Decr env clk ft self k n w = cache_Incr env clk ft self k (- n) w"
  by (simp add: cache_Decr_def cache_Incr_def)

lemma NewDisk_embedded:
  assumes "NewDisk api hostname (Inr d) listenErr created t path = Inr (c, m)"
  shows "embedded self [(self, c)]" "set_ttl self 0 [(self, c)] = 0"
    "\<exists>n. cStore c = DiskStore \<lparr>db = d, pcount = n, ponEvict = True, ponExpire = True\<rparr>"
  using assms
  by (auto simp: NewDisk_def New_def validate_def DefaultConfig_def pos64_def second_def Let_def NewPebbleStore_def
      st_SetOnExpire_def st_SetOnEvict_def ps_SetOnExpire_def ps_SetOnEvict_def embedded_def set_ttl_def node_at_def
      split: if_splits)

end
