(* ===== verification/Sessions.thy ===== *)
theory Sessions
  imports Middleware Embedded
begin

text \<open>
  The session store \<open>src/examples/sessions/main.go\<close>: an HTTP application over a cache on disk. The cache is the
  node \<open>self\<close> of a world and the cache of the rate limiter the node \<open>login\<close>. What the JSON decoder makes of a
  body is an argument. Of the environment of a request, \<open>xClk x i\<close> are the clock readings of the \<open>i\<close>-th call of
  the cache, \<open>xClk x 2\<close> those of the handler itself, and \<open>xOthers x 0\<close> is what other requests do between the
  check of \<open>requireAuth\<close> and the handler behind it.

  The specification is a table from tokens to sessions with a deadline, and a counter. Requests that do not
  overlap are answered as the specification answers them, across sweeps and restarts of the process.
\<close>

section \<open>Definitions\<close>

record Session =
  ssUserID :: string
  ssUsername :: string
  ssCreatedAt :: instant
  ssLastSeen :: instant

text \<open>\<open>24 * time.Hour\<close>\<close>

definition sessionTTL :: duration where
  "sessionTTL = 24 * (60 * minute)"

definition session_json :: "Session \<Rightarrow> json" where
  "session_json s =
     JObj [(''user_id'', JStr (ssUserID s)), (''username'', JStr (ssUsername s)),
           (''created_at'', JTime (ssCreatedAt s)), (''last_seen'', JTime (ssLastSeen s))]"

definition error_body :: "string \<Rightarrow> body" where
  "error_body msg = Json (JObj [(''error'', JStr msg)])"

definition extractToken :: "http_request \<Rightarrow> string" where
  "extractToken r =
     (let auth = hHeader r ''Authorization''
      in if take 7 auth = ''Bearer '' then drop 7 auth else '''')"

definition session_token :: "bytes \<Rightarrow> string" where
  "session_token b = hex_encode b"

definition new_session :: "instant \<Rightarrow> instant \<Rightarrow> string \<Rightarrow> Session" where
  "new_session t1 t2 username =
     \<lparr>ssUserID = ''user-'' @ username, ssUsername = username, ssCreatedAt = t1, ssLastSeen = t2\<rparr>"

definition login_response :: "string \<Rightarrow> http_response" where
  "login_response token =
     writeJSON 200 (JObj [(''token'', JStr token), (''expires_in'', JDuration sessionTTL),
       (''message'', JStr (''Login successful. Use Authorization: Bearer '' @ token))])"

definition handleLogin ::
    "('d, Session, unit, 'w) env \<Rightarrow> (bytes \<Rightarrow> string option) \<Rightarrow> 'd http_env \<Rightarrow> string \<Rightarrow> http_request \<Rightarrow> 'd world \<Rightarrow>
     'd world \<times> http_response" where
  "handleLogin env decode x self r w =
     (case decode (hBody r) of
        None \<Rightarrow> (w, http_Error 400 (error_body ''username required''))
      | Some username \<Rightarrow>
          if username = '''' then (w, http_Error 400 (error_body ''username required''))
          else
            (let token = session_token (xRandom x 0);
                 session = new_session (xClk x 2 0) (xClk x 2 1) username
             in case cache_Set env (xClk x 0) (xTs x) (xFault x 0) self (''session:'' @ token) (GVal session) sessionTTL w of
                  (w1, Some err) \<Rightarrow> (w1, http_Error 500 (error_body ''failed to create session''))
                | (w1, None) \<Rightarrow>
                    (fst (cache_Incr env (xClk x 1) (xFault x 1) self ''stats:active_sessions'' 1 w1), login_response token)))"

definition handleMe ::
    "('d, Session, unit, 'w) env \<Rightarrow> 'd http_env \<Rightarrow> string \<Rightarrow> http_request \<Rightarrow> Session \<Rightarrow> 'd world \<Rightarrow>
     'd world \<times> http_response" where
  "handleMe env x self r session w =
     (let session' = session\<lparr>ssLastSeen := xClk x 2 0\<rparr>
      in (fst (cache_Set env (xClk x 1) (xTs x) (xFault x 1) self (''session:'' @ extractToken r) (GVal session') sessionTTL w),
          writeJSON 200 (session_json session')))"

definition logout_response :: http_response where
  "logout_response = writeJSON 200 (JObj [(''message'', JStr ''Logged out successfully'')])"

definition handleLogout ::
    "('d, Session, unit, 'w) env \<Rightarrow> 'd http_env \<Rightarrow> string \<Rightarrow> http_request \<Rightarrow> Session \<Rightarrow> 'd world \<Rightarrow>
     'd world \<times> http_response" where
  "handleLogout env x self r session w =
     (let w1 = cache_Delete env (xClk x 1) (xTs x) (xFault x 1) self (''session:'' @ extractToken r) w
      in (fst (cache_Decr env (xClk x 3) (xFault x 3) self ''stats:active_sessions'' 1 w1), logout_response))"

definition count_response :: "int64 \<Rightarrow> http_response" where
  "count_response n =
     writeJSON 200 (JObj [(''active_sessions'', JNum (sint n)), (''storage'', JStr ''disk (PebbleDB)'')])"

definition handleSessionCount ::
    "('d, Session, unit, 'w) env \<Rightarrow> 'd http_env \<Rightarrow> string \<Rightarrow> 'd world \<Rightarrow> 'd world \<times> http_response" where
  "handleSessionCount env x self w =
     (let (w1, res) = cache_Incr env (xClk x 0) (xFault x 0) self ''stats:active_sessions'' 0 w
      in (w1, count_response (case res of Inl err \<Rightarrow> 0 | Inr n \<Rightarrow> n)))"

definition requireAuth ::
    "('d, Session, unit, 'w) env \<Rightarrow> 'd http_env \<Rightarrow> string \<Rightarrow>
     (http_request \<Rightarrow> Session \<Rightarrow> 'd world \<Rightarrow> 'd world \<times> http_response) \<Rightarrow> http_request \<Rightarrow> 'd world \<Rightarrow> 'd world \<times> http_response" where
  "requireAuth env x self next_h r w =
     (let token = extractToken r
      in if token = '''' then (w, http_Error 401 (error_body ''missing Authorization header''))
         else case cache_Get env (xClk x 0) (xFault x 0) self (''session:'' @ token) (DestVal ()) w of
                (w1, Some (GVal session)) \<Rightarrow> next_h r session (xOthers x 0 w1)
              | (w1, _) \<Rightarrow> (w1, http_Error 401 (error_body ''invalid or expired session'')))"

datatype session_route = Login | Me | Logout | SessionCount | NoRoute | WrongMethod

definition sessions_route :: "string \<Rightarrow> string list \<Rightarrow> session_route" where
  "sessions_route m path =
     (if path = [''login''] then (if m = ''POST'' then Login else WrongMethod)
      else if path = [''me''] then (if m = ''GET'' \<or> m = ''HEAD'' then Me else WrongMethod)
      else if path = [''logout''] then (if m = ''POST'' then Logout else WrongMethod)
      else if path = [''sessions'', ''count''] then (if m = ''GET'' \<or> m = ''HEAD'' then SessionCount else WrongMethod)
      else NoRoute)"

definition sessions_mux ::
    "('d, Session, unit, 'w) env \<Rightarrow> (bytes \<Rightarrow> string option) \<Rightarrow> 'd http_env \<Rightarrow> string \<Rightarrow> http_request \<Rightarrow> 'd world \<Rightarrow>
     'd world \<times> http_response" where
  "sessions_mux env decode x self r w =
     (case sessions_route (hMethod r) (hPath r) of
        Login \<Rightarrow> handleLogin env decode x self r w
      | Me \<Rightarrow> requireAuth env x self (handleMe env x self) r w
      | Logout \<Rightarrow> requireAuth env x self (handleLogout env x self) r w
      | SessionCount \<Rightarrow> handleSessionCount env x self w
      | NoRoute \<Rightarrow> (w, not_found)
      | WrongMethod \<Rightarrow> (w, wrong_method))"

text \<open>The handler that \<open>main\<close> starts.\<close>

definition sessions_ServeHTTP ::
    "('d, Session, unit, 'w) env \<Rightarrow> (bytes \<Rightarrow> string option) \<Rightarrow> 'd http_env \<Rightarrow> string \<Rightarrow> string \<Rightarrow> (unit, 'd) app_handler" where
  "sessions_ServeHTTP env decode x self login =
     HTTPRateLimit env (xClk x 4 0) login 10 minute (\<lambda>flusher r st w. Some ((), sessions_mux env decode x self r w))"

text \<open>
  A restart of the process: \<open>main\<close> opens the cache with \<open>NewDisk\<close> on the database that the last process left.
\<close>

definition sessions_restart ::
    "('d, Session, unit, 'w) env \<Rightarrow> string \<Rightarrow> instant \<Rightarrow> string \<Rightarrow> 'd world \<Rightarrow> 'd world" where
  "sessions_restart env hostname t self w =
     (case gm_get w self of
        Some c \<Rightarrow>
          (case cStore c of
             DiskStore p \<Rightarrow>
               (case NewDisk (eApi env) hostname (Inr (db p)) None (Inr ()) t ''./session-data'' of
                  Inr (c', m) \<Rightarrow> gm_set self c' w
                | Inl err \<Rightarrow> w)
           | MemStore m \<Rightarrow> w)
      | None \<Rightarrow> w)"

section \<open>Runs\<close>

datatype 'd session_step =
    Request "'d http_env" http_request
  | Sweep "nat \<Rightarrow> instant" "nat \<Rightarrow> instant"
  | Restart string instant

fun session_run ::
    "('d, Session, unit, 'w) env \<Rightarrow> (bytes \<Rightarrow> string option) \<Rightarrow> string \<Rightarrow> (instant \<times> 'd session_step) list \<Rightarrow> 'd world \<Rightarrow>
     'd world \<times> http_response list" where
  "session_run env decode self [] w = (w, [])"
| "session_run env decode self ((t, Request x r) # ops) w =
     (let (w1, resp) = sessions_mux env decode x self r w; (w2, resps) = session_run env decode self ops w1
      in (w2, resp # resps))"
| "session_run env decode self ((t, Sweep clk stamps) # ops) w =
     session_run env decode self ops (on_node self (sweeper_tick env clk stamps) w)"
| "session_run env decode self ((t, Restart hostname t') # ops) w =
     session_run env decode self ops (sessions_restart env hostname t' self w)"

section \<open>The specification\<close>

record session_table =
  stSessions :: "string \<rightharpoonup> Session \<times> instant"
  stCount :: int64

definition day :: int where
  "day = 86400000000000"

definition live_session :: "instant \<Rightarrow> string \<Rightarrow> session_table \<Rightarrow> Session option" where
  "live_session t token st =
     (case stSessions st token of None \<Rightarrow> None | Some (s, deadline) \<Rightarrow> if deadline < t then None else Some s)"

definition authorized ::
    "'d http_env \<Rightarrow> (http_request \<Rightarrow> Session \<Rightarrow> session_table \<Rightarrow> session_table \<times> http_response) \<Rightarrow> http_request \<Rightarrow>
     session_table \<Rightarrow> session_table \<times> http_response" where
  "authorized x next_h r st =
     (if extractToken r = '''' then (st, http_Error 401 (error_body ''missing Authorization header''))
      else case live_session (xClk x 0 0) (extractToken r) st of
             None \<Rightarrow> (st, http_Error 401 (error_body ''invalid or expired session''))
           | Some s \<Rightarrow> next_h r s st)"

definition table_login :: "(bytes \<Rightarrow> string option) \<Rightarrow> 'd http_env \<Rightarrow> http_request \<Rightarrow> session_table \<Rightarrow> session_table \<times> http_response" where
  "table_login decode x r st =
     (case decode (hBody r) of
        None \<Rightarrow> (st, http_Error 400 (error_body ''username required''))
      | Some username \<Rightarrow>
          if username = '''' then (st, http_Error 400 (error_body ''username required''))
          else
            (let token = session_token (xRandom x 0);
                 session = new_session (xClk x 2 0) (xClk x 2 1) username
             in (st\<lparr>stSessions := (stSessions st)(token \<mapsto> (session, xClk x 0 0 + day)), stCount := stCount st + 1\<rparr>,
                 login_response token)))"

definition table_me :: "'d http_env \<Rightarrow> http_request \<Rightarrow> Session \<Rightarrow> session_table \<Rightarrow> session_table \<times> http_response" where
  "table_me x r s st =
     (let s' = s\<lparr>ssLastSeen := xClk x 2 0\<rparr>
      in (st\<lparr>stSessions := (stSessions st)(extractToken r \<mapsto> (s', xClk x 1 0 + day))\<rparr>, writeJSON 200 (session_json s')))"

definition table_logout :: "http_request \<Rightarrow> Session \<Rightarrow> session_table \<Rightarrow> session_table \<times> http_response" where
  "table_logout r s st =
     (st\<lparr>stSessions := (stSessions st)(extractToken r := None), stCount := stCount st - 1\<rparr>, logout_response)"

definition table_request :: "(bytes \<Rightarrow> string option) \<Rightarrow> 'd http_env \<Rightarrow> http_request \<Rightarrow> session_table \<Rightarrow> session_table \<times> http_response" where
  "table_request decode x r st =
     (case sessions_route (hMethod r) (hPath r) of
        Login \<Rightarrow> table_login decode x r st
      | Me \<Rightarrow> authorized x (table_me x) r st
      | Logout \<Rightarrow> authorized x table_logout r st
      | SessionCount \<Rightarrow> (st, count_response (stCount st))
      | NoRoute \<Rightarrow> (st, not_found)
      | WrongMethod \<Rightarrow> (st, wrong_method))"

fun table_run :: "(bytes \<Rightarrow> string option) \<Rightarrow> (instant \<times> 'd session_step) list \<Rightarrow> session_table \<Rightarrow> session_table \<times> http_response list" where
  "table_run decode [] st = (st, [])"
| "table_run decode ((t, Request x r) # ops) st =
     (let (st1, resp) = table_request decode x r st; (st2, resps) = table_run decode ops st1 in (st2, resp # resps))"
| "table_run decode ((t, step) # ops) st = table_run decode ops st"

text \<open>
  One step after the other: the clock readings of a step lie between the end of the step before and its own
  end, nothing runs inside it, and the deadlines are instants that the disk format can hold.
\<close>

fun serial :: "instant \<Rightarrow> instant \<Rightarrow> 'd session_step \<Rightarrow> bool" where
  "serial now t (Request x r) \<longleftrightarrow> (\<forall>i j. now \<le> xClk x i j \<and> xClk x i j \<le> t) \<and> (\<forall>w. xOthers x 0 w = w)"
| "serial now t (Sweep clk stamps) \<longleftrightarrow> (\<forall>i. now \<le> clk i \<and> clk i \<le> t)"
| "serial now t (Restart hostname t') \<longleftrightarrow> True"

fun in_order :: "instant \<Rightarrow> (instant \<times> 'd session_step) list \<Rightarrow> bool" where
  "in_order now [] \<longleftrightarrow> True"
| "in_order now ((t, step) # ops) \<longleftrightarrow> now \<le> t \<and> t + day < 2 ^ 63 \<and> serial now t step \<and> in_order t ops"

text \<open>Documented behaviour of msgpack on sessions.\<close>

definition session_codec_ok :: "(Session, unit) msgpack_any \<Rightarrow> bool" where
  "session_codec_ok mp \<longleftrightarrow> msgpack_int_ok mp \<and> (\<forall>s. \<exists>b. marshal_any mp s = Inr b \<and> unmarshal_any mp b () = Inr s)"

end
