(* ===== verification/Session_Props.thy ===== *)
theory Session_Props
  imports Sessions
begin

text \<open>
  The session store refines its specification, and what happens when a logout runs inside another request.
\<close>

section \<open>The relation between the disk and the table\<close>

definition session_at :: "('d, Session, unit, 'w) env \<Rightarrow> instant \<Rightarrow> 'd pebble_store \<Rightarrow> string \<Rightarrow> Session option" where
  "session_at env t p token =
     Option.bind (ps_look (eApi env) t p (''session:'' @ token))
       (\<lambda>b. case unmarshal_any (eMsgpack env) b () of Inl err \<Rightarrow> None | Inr s \<Rightarrow> Some s)"

definition counts :: "('d, Session, unit, 'w) env \<Rightarrow> 'd pebble_store \<Rightarrow> int64 \<Rightarrow> bool" where
  "counts env p n \<longleftrightarrow>
     content (eApi env) p ''stats:active_sessions'' = None \<and> n = 0 \<or>
     (\<exists>t b. content (eApi env) p ''stats:active_sessions'' = Some (ps_encode t b 0) \<and>
        unmarshal_int64 (eMsgpack env) b = Inr n)"

definition disk_rel :: "('d, Session, unit, 'w) env \<Rightarrow> instant \<Rightarrow> session_table \<Rightarrow> 'd pebble_store \<Rightarrow> bool" where
  "disk_rel env now st p \<longleftrightarrow>
     (\<forall>t token. now \<le> t \<and> nano_clock t \<longrightarrow> session_at env t p token = live_session t token st) \<and> counts env p (stCount st)"

definition session_rel :: "('d, Session, unit, 'w) env \<Rightarrow> string \<Rightarrow> instant \<Rightarrow> session_table \<Rightarrow> 'd world \<Rightarrow> bool" where
  "session_rel env self now st w \<longleftrightarrow>
     embedded self w \<and> set_ttl self 0 w = 0 \<and> (\<exists>p. stores w self = Some (DiskStore p) \<and> disk_rel env now st p)"

section \<open>Lemmas: the disk\<close>

lemma sessionTTL_day: "sint sessionTTL = day"
  by (simp add: sessionTTL_def minute_def second_def day_def)

lemma sessionTTL_pos: "pos64 sessionTTL" "sessionTTL \<noteq> 0"
  using sessionTTL_day by (auto simp: pos64_def day_def)

lemma session_deadline: "time_add t sessionTTL = t + day"
  by (simp add: time_add_def sessionTTL_day)

lemma disk_rel_mono: "disk_rel env now st p \<Longrightarrow> now \<le> now' \<Longrightarrow> disk_rel env now' st p"
  by (simp add: disk_rel_def)

lemma counts_content:
  "content (eApi env) p' ''stats:active_sessions'' = content (eApi env) p ''stats:active_sessions'' \<Longrightarrow> counts env p' n = counts env p n"
  by (simp add: counts_def)

lemma disk_rel_Set:
  assumes ok: "pebble_ok (eApi env)" and r: "disk_rel env now st p" and t: "0 \<le> t0" "t0 + day < 2 ^ 63"
    and b: "unmarshal_any (eMsgpack env) b () = Inr s"
  shows "disk_rel env now (st\<lparr>stSessions := (stSessions st)(token \<mapsto> (s, t0 + day))\<rparr>)
    (ps_Set (eApi env) t0 (''session:'' @ token) b sessionTTL p)"
proof -
  let ?p = "ps_Set (eApi env) t0 (''session:'' @ token) b sessionTTL p"
  have fits: "ps_fits t0 sessionTTL" using t by (simp add: ps_fits_def session_deadline nano_clock_def day_def)
  have "session_at env t ?p token' = live_session t token' (st\<lparr>stSessions := (stSessions st)(token \<mapsto> (s, t0 + day))\<rparr>)"
    if h: "now \<le> t" "nano_clock t" for t token'
  proof (cases "token' = token")
    case True
    then show ?thesis
      using raw_look_encode [OF h(2) fits, of b] b sessionTTL_pos
      by (simp add: session_at_def ps_look_content content_Set [OF ok] live_session_def session_deadline)
  next
    case False
    then show ?thesis
      using r h by (simp add: session_at_def ps_look_content content_Set [OF ok] live_session_def disk_rel_def)
  qed
  moreover have "counts env ?p (stCount st)"
    using r counts_content [of env ?p p] by (simp add: disk_rel_def content_Set [OF ok])
  ultimately show ?thesis by (simp add: disk_rel_def)
qed

lemma disk_rel_Get:
  assumes ok: "pebble_ok (eApi env)" and r: "disk_rel env now st p" and t: "now \<le> t0" "nano_clock t0"
  shows "disk_rel env t0 st (fst (ps_Get (eApi env) t0 (''session:'' @ token) p))"
proof -
  let ?p = "fst (ps_Get (eApi env) t0 (''session:'' @ token) p)"
  have "ps_look (eApi env) t ?p = ps_look (eApi env) t p" if "t0 \<le> t" "nano_clock t" for t
    by (rule look_purged [OF content_Get [OF ok]]) (use look_mono [OF t(2) that(2,1)] in blast)
  then have "session_at env t ?p token' = live_session t token' st" if "t0 \<le> t" "nano_clock t" for t token'
    using r that t(1) by (simp add: session_at_def disk_rel_def)
  moreover have "counts env ?p (stCount st)"
    using r counts_content [of env ?p p] by (simp add: disk_rel_def content_Get [OF ok])
  ultimately show ?thesis by (simp add: disk_rel_def)
qed

lemma disk_rel_Delete:
  assumes ok: "pebble_ok (eApi env)" and r: "disk_rel env now st p"
  shows "disk_rel env now (st\<lparr>stSessions := (stSessions st)(token := None)\<rparr>) (fst (ps_Delete (eApi env) (''session:'' @ token) p))"
proof -
  let ?p = "fst (ps_Delete (eApi env) (''session:'' @ token) p)"
  have "session_at env t ?p token' = live_session t token' (st\<lparr>stSessions := (stSessions st)(token := None)\<rparr>)"
    if "now \<le> t" "nano_clock t" for t token'
    using r that by (simp add: session_at_def ps_look_content content_Delete [OF ok] live_session_def disk_rel_def)
  moreover have "counts env ?p (stCount st)"
    using r counts_content [of env ?p p] by (simp add: disk_rel_def content_Delete [OF ok])
  ultimately show ?thesis by (simp add: disk_rel_def)
qed

lemma disk_rel_Sweep:
  assumes ok: "pebble_ok (eApi env)" and r: "disk_rel env now st p" and t: "now \<le> t0" "nano_clock t0"
  shows "disk_rel env t0 st (fst (ps_DeleteExpired (eApi env) t0 p))"
proof -
  let ?p = "fst (ps_DeleteExpired (eApi env) t0 p)"
  have "ps_look (eApi env) t ?p k = ps_look (eApi env) t p k" if "t0 \<le> t" "nano_clock t" for t k
    using look_mono [OF t(2) that(2,1), of "eApi env" p k] by (auto simp: ps_look_content content_DeleteExpired [OF ok])
  then have "session_at env t ?p token = live_session t token st" if "t0 \<le> t" "nano_clock t" for t token
    using r that t(1) by (simp add: session_at_def disk_rel_def)
  moreover have "counts env ?p (stCount st)"
    using r by (auto simp: disk_rel_def counts_def content_DeleteExpired [OF ok] ps_look_content raw_look_def
        ps_decode_encode ps_isExpired_def)
  ultimately show ?thesis by (simp add: disk_rel_def)
qed

lemma counts_Incr:
  assumes ok: "pebble_ok (eApi env)" "msgpack_int_ok (eMsgpack env)" and r: "counts env p n"
  shows "\<exists>b. ps_Incr (eApi env) (eMsgpack env) t1 t2 t3 ''stats:active_sessions'' d 0 p =
      (ps_Set (eApi env) t3 ''stats:active_sessions'' b 0 p, Inr (n + d)) \<and> unmarshal_int64 (eMsgpack env) b = Inr (n + d)"
proof -
  obtain b where b: "marshal_int64 (eMsgpack env) (n + d) = Inr b" "unmarshal_int64 (eMsgpack env) b = Inr (n + d)"
    using ok(2) unfolding msgpack_int_ok_def by blast
  consider "content (eApi env) p ''stats:active_sessions'' = None" "n = 0"
    | t c where "content (eApi env) p ''stats:active_sessions'' = Some (ps_encode t c 0)" "unmarshal_int64 (eMsgpack env) c = Inr n"
    using r unfolding counts_def by (elim disjE exE conjE)
  then show ?thesis
  proof cases
    case 1
    then show ?thesis using b by (intro exI [of _ b]) (simp add: ps_Incr_def content_def incr_store_result [OF ok(1)])
  next
    case 2
    then show ?thesis
      using b
      by (intro exI [of _ b]) (simp add: ps_Incr_def content_def incr_store_result [OF ok(1)] ps_decode_encode ps_isExpired_def)
  qed
qed

lemma disk_rel_Incr:
  assumes ok: "pebble_ok (eApi env)" "msgpack_int_ok (eMsgpack env)" and r: "disk_rel env now st p"
  obtains p' where "ps_Incr (eApi env) (eMsgpack env) t1 t2 t3 ''stats:active_sessions'' d 0 p = (p', Inr (stCount st + d))"
    "disk_rel env now (st\<lparr>stCount := stCount st + d\<rparr>) p'"
proof -
  obtain b where b: "ps_Incr (eApi env) (eMsgpack env) t1 t2 t3 ''stats:active_sessions'' d 0 p =
      (ps_Set (eApi env) t3 ''stats:active_sessions'' b 0 p, Inr (stCount st + d))" "unmarshal_int64 (eMsgpack env) b = Inr (stCount st + d)"
    using counts_Incr [OF ok, of p "stCount st" t1 t2 t3 d] r unfolding disk_rel_def by blast
  let ?p = "ps_Set (eApi env) t3 ''stats:active_sessions'' b 0 p"
  have "counts env ?p (stCount st + d)" using b(2) by (auto simp: counts_def content_Set [OF ok(1)])
  moreover have "session_at env t ?p token = session_at env t p token" for t token
    by (simp add: session_at_def ps_look_content content_Set [OF ok(1)])
  ultimately have "disk_rel env now (st\<lparr>stCount := stCount st + d\<rparr>) ?p"
    using r by (simp add: disk_rel_def live_session_def)
  with b(1) show ?thesis by (rule that)
qed

section \<open>Lemmas: the cache\<close>

lemma session_relE:
  assumes "session_rel env self now st w"
  obtains p where "embedded self w" "set_ttl self 0 w = 0" "stores w self = Some (DiskStore p)" "disk_rel env now st p"
  using assms unfolding session_rel_def by (elim conjE exE)

lemma session_relI:
  assumes "session_rel env self now st w" "roles w' = roles w" "stores w' self = Some (DiskStore p)" "disk_rel env now' st' p"
  shows "session_rel env self now' st' w'"
  using assms embedded_roles [of w' self w] set_ttl_roles [OF assms(2)] by (simp add: session_rel_def)

lemma session_rel_mono: "session_rel env self now st w \<Longrightarrow> now \<le> now' \<Longrightarrow> session_rel env self now' st w"
  unfolding session_rel_def using disk_rel_mono by fastforce

lemma bind_GVal:
  "Option.bind o' (\<lambda>b. case Deserialize um b (DestVal d) of Inl err \<Rightarrow> None | Inr v \<Rightarrow> Some v) =
     map_option GVal (Option.bind o' (\<lambda>b. case um b d of Inl err \<Rightarrow> None | Inr s \<Rightarrow> Some s))"
  by (cases o') (auto split: sum.split)

lemma session_rel_Set:
  assumes ok: "pebble_ok (eApi env)" "session_codec_ok (eMsgpack env)" and r: "session_rel env self now st w"
    and t: "0 \<le> clk 0" "clk 0 + day < 2 ^ 63"
  obtains w' where "cache_Set env clk ts ft self (''session:'' @ token) (GVal s) sessionTTL w = (w', None)"
    "session_rel env self now (st\<lparr>stSessions := (stSessions st)(token \<mapsto> (s, clk 0 + day))\<rparr>) w'"
proof -
  obtain p where p: "embedded self w" "set_ttl self 0 w = 0" "stores w self = Some (DiskStore p)" "disk_rel env now st p"
    by (rule session_relE [OF r])
  obtain b where b: "marshal_any (eMsgpack env) s = Inr b" "unmarshal_any (eMsgpack env) b () = Inr s"
    using ok(2) unfolding session_codec_ok_def by blast
  have ser: "Serialize (marshal_any (eMsgpack env)) (GVal s) = Inr b" using b(1) by simp
  have ttl: "set_ttl self sessionTTL w = sessionTTL" using sessionTTL_pos(2) by (simp add: set_ttl_def)
  have k: "''session:'' @ token \<noteq> ''''" by simp
  obtain w' where w': "cache_Set env clk ts ft self (''session:'' @ token) (GVal s) sessionTTL w = (w', None)" "roles w' = roles w"
    "stores w' = (stores w)(self \<mapsto> fst (st_Set (eApi env) (clk 0) (''session:'' @ token) b (set_ttl self sessionTTL w) (DiskStore p)))"
    by (rule embedded_Set [OF p(1) k ser p(3)])
  have "stores w' self = Some (DiskStore (ps_Set (eApi env) (clk 0) (''session:'' @ token) b sessionTTL p))"
    using w'(3) by (simp add: st_Set_def ttl)
  then have "session_rel env self now (st\<lparr>stSessions := (stSessions st)(token \<mapsto> (s, clk 0 + day))\<rparr>) w'"
    by (rule session_relI [OF r w'(2) _ disk_rel_Set [OF ok(1) p(4) t b(2)]])
  with w'(1) show ?thesis by (rule that)
qed

lemma session_rel_Get:
  assumes ok: "pebble_ok (eApi env)" and r: "session_rel env self now st w" and t: "now \<le> clk 0" "nano_clock (clk 0)"
  obtains w' where "cache_Get env clk ft self (''session:'' @ token) (DestVal ()) w = (w', map_option GVal (live_session (clk 0) token st))"
    "session_rel env self (clk 0) st w'"
proof -
  obtain p where p: "embedded self w" "set_ttl self 0 w = 0" "stores w self = Some (DiskStore p)" "disk_rel env now st p"
    by (rule session_relE [OF r])
  have k: "''session:'' @ token \<noteq> ''''" by simp
  obtain w' where w': "cache_Get env clk ft self (''session:'' @ token) (DestVal ()) w =
       (w', Option.bind (snd (st_Get (eApi env) (clk 0) (''session:'' @ token) (DiskStore p)))
          (\<lambda>b. case Deserialize (unmarshal_any (eMsgpack env)) b (DestVal ()) of Inl err \<Rightarrow> None | Inr v \<Rightarrow> Some v))"
    "roles w' = roles w" "stores w' = (stores w)(self \<mapsto> fst (st_Get (eApi env) (clk 0) (''session:'' @ token) (DiskStore p)))"
    by (rule embedded_Get [OF p(1) k p(3)])
  have "snd (st_Get (eApi env) (clk 0) (''session:'' @ token) (DiskStore p)) = ps_look (eApi env) (clk 0) p (''session:'' @ token)"
    using disk.get_look [OF ok, of "clk 0" "''session:'' @ token" p] by (simp add: st_Get_def)
  moreover have "session_at env (clk 0) p token = live_session (clk 0) token st" using p(4) t by (simp add: disk_rel_def)
  ultimately have "cache_Get env clk ft self (''session:'' @ token) (DestVal ()) w = (w', map_option GVal (live_session (clk 0) token st))"
    using w'(1) by (simp add: session_at_def bind_GVal del: Deserialize.simps append.simps)
  moreover have "stores w' self = Some (DiskStore (fst (ps_Get (eApi env) (clk 0) (''session:'' @ token) p)))"
    using w'(3) by (simp add: st_Get_def)
  then have "session_rel env self (clk 0) st w'"
    by (rule session_relI [OF r w'(2) _ disk_rel_Get [OF ok p(4) t]])
  ultimately show ?thesis by (rule that)
qed

lemma session_rel_Delete:
  assumes ok: "pebble_ok (eApi env)" and r: "session_rel env self now st w"
  shows "session_rel env self now (st\<lparr>stSessions := (stSessions st)(token := None)\<rparr>)
    (cache_Delete env clk ts ft self (''session:'' @ token) w)"
proof -
  obtain p where p: "embedded self w" "set_ttl self 0 w = 0" "stores w self = Some (DiskStore p)" "disk_rel env now st p"
    by (rule session_relE [OF r])
  have k: "''session:'' @ token \<noteq> ''''" by simp
  note d = embedded_Delete [OF p(1) k p(3), of env clk ts ft]
  have "stores (cache_Delete env clk ts ft self (''session:'' @ token) w) self =
      Some (DiskStore (fst (ps_Delete (eApi env) (''session:'' @ token) p)))"
    using d(2) by (simp add: st_Delete_def)
  then show ?thesis by (rule session_relI [OF r d(1) _ disk_rel_Delete [OF ok p(4)]])
qed

lemma session_rel_Incr:
  assumes ok: "pebble_ok (eApi env)" "session_codec_ok (eMsgpack env)" and r: "session_rel env self now st w"
  obtains w' where "cache_Incr env clk ft self ''stats:active_sessions'' d w = (w', Inr (stCount st + d))"
    "session_rel env self now (st\<lparr>stCount := stCount st + d\<rparr>) w'"
proof -
  obtain p where p: "embedded self w" "set_ttl self 0 w = 0" "stores w self = Some (DiskStore p)" "disk_rel env now st p"
    by (rule session_relE [OF r])
  have mp: "msgpack_int_ok (eMsgpack env)" using ok(2) by (simp add: session_codec_ok_def)
  obtain p' where p': "ps_Incr (eApi env) (eMsgpack env) (clk 0) (clk 1) (clk 2) ''stats:active_sessions'' d 0 p = (p', Inr (stCount st + d))"
    "disk_rel env now (st\<lparr>stCount := stCount st + d\<rparr>) p'"
    by (rule disk_rel_Incr [OF ok(1) mp p(4)])
  have i: "st_Incr (eApi env) (eMsgpack env) (clk 0) (clk 1) (clk 2) ''stats:active_sessions'' d 0 (DiskStore p) =
      (DiskStore p', [], Inr (stCount st + d))"
    using p'(1) by (simp add: st_Incr_def)
  have k: "''stats:active_sessions'' \<noteq> ''''" by simp
  obtain w' where w': "cache_Incr env clk ft self ''stats:active_sessions'' d w = (w', map_sum ErrValue (\<lambda>m. m) (Inr (stCount st + d)))"
    "roles w' = roles w" "stores w' = (stores w)(self \<mapsto> DiskStore p')"
    by (rule embedded_Incr [OF p(1) k p(3) p(2) [symmetric] i])
  have "session_rel env self now (st\<lparr>stCount := stCount st + d\<rparr>) w'"
    by (rule session_relI [OF r w'(2) _ p'(2)]) (simp add: w'(3))
  then show ?thesis using w'(1) by (intro that) simp_all
qed

section \<open>Lemmas: requests\<close>

lemma session_rel_login:
  assumes ok: "pebble_ok (eApi env)" "session_codec_ok (eMsgpack env)" and r: "session_rel env self now st w"
    and t: "0 \<le> xClk x 0 0" "xClk x 0 0 + day < 2 ^ 63"
  shows "snd (handleLogin env decode x self q w) = snd (table_login decode x q st) \<and>
    session_rel env self now (fst (table_login decode x q st)) (fst (handleLogin env decode x self q w))"
proof (cases "decode (hBody q) = None \<or> decode (hBody q) = Some ''''")
  case True
  then show ?thesis using r by (auto simp: handleLogin_def table_login_def)
next
  case False
  then obtain name where name: "decode (hBody q) = Some name" "name \<noteq> ''''" by auto
  let ?token = "session_token (xRandom x 0)" and ?s = "new_session (xClk x 2 0) (xClk x 2 1) name"
  let ?st = "st\<lparr>stSessions := (stSessions st)(?token \<mapsto> (?s, xClk x 0 0 + day))\<rparr>"
  obtain w1 where w1: "cache_Set env (xClk x 0) (xTs x) (xFault x 0) self (''session:'' @ ?token) (GVal ?s) sessionTTL w = (w1, None)"
    "session_rel env self now ?st w1"
    by (rule session_rel_Set [where clk = "xClk x 0", OF ok r t])
  obtain w2 where w2: "cache_Incr env (xClk x 1) (xFault x 1) self ''stats:active_sessions'' 1 w1 = (w2, Inr (stCount ?st + 1))"
    "session_rel env self now (?st\<lparr>stCount := stCount ?st + 1\<rparr>) w2"
    by (rule session_rel_Incr [OF ok w1(2)])
  show ?thesis using name w1(1) w2 by (simp add: handleLogin_def table_login_def Let_def)
qed

lemma session_rel_auth:
  assumes ok: "pebble_ok (eApi env)" and r: "session_rel env self now st w"
    and t: "now \<le> xClk x 0 0" "nano_clock (xClk x 0 0)" and o: "\<And>w. xOthers x 0 w = w"
    and n: "\<And>s w1. session_rel env self (xClk x 0 0) st w1 \<Longrightarrow>
      snd (next_h q s w1) = snd (tab q s st) \<and> session_rel env self (xClk x 0 0) (fst (tab q s st)) (fst (next_h q s w1))"
  shows "snd (requireAuth env x self next_h q w) = snd (authorized x tab q st) \<and>
    session_rel env self (xClk x 0 0) (fst (authorized x tab q st)) (fst (requireAuth env x self next_h q w))"
proof (cases "extractToken q = ''''")
  case True
  then show ?thesis using session_rel_mono [OF r t(1)] by (simp add: requireAuth_def authorized_def)
next
  case False
  obtain w1 where "cache_Get env (xClk x 0) (xFault x 0) self (''session:'' @ extractToken q) (DestVal ()) w =
      (w1, map_option GVal (live_session (xClk x 0 0) (extractToken q) st))" "session_rel env self (xClk x 0 0) st w1"
    by (rule session_rel_Get [where clk = "xClk x 0", OF ok r t])
  then show ?thesis
    using False n [of w1] by (cases "live_session (xClk x 0 0) (extractToken q) st")
      (simp_all add: requireAuth_def authorized_def Let_def o)
qed

lemma session_rel_me:
  assumes ok: "pebble_ok (eApi env)" "session_codec_ok (eMsgpack env)" and r: "session_rel env self now st w"
    and t: "0 \<le> xClk x 1 0" "xClk x 1 0 + day < 2 ^ 63"
  shows "snd (handleMe env x self q s w) = snd (table_me x q s st) \<and>
    session_rel env self now (fst (table_me x q s st)) (fst (handleMe env x self q s w))"
proof -
  let ?s = "s\<lparr>ssLastSeen := xClk x 2 0\<rparr>"
  obtain w1 where "cache_Set env (xClk x 1) (xTs x) (xFault x 1) self (''session:'' @ extractToken q) (GVal ?s) sessionTTL w = (w1, None)"
    "session_rel env self now (st\<lparr>stSessions := (stSessions st)(extractToken q \<mapsto> (?s, xClk x 1 0 + day))\<rparr>) w1"
    by (rule session_rel_Set [where clk = "xClk x 1", OF ok r t])
  then show ?thesis by (simp add: handleMe_def table_me_def Let_def)
qed

lemma session_rel_logout:
  assumes ok: "pebble_ok (eApi env)" "session_codec_ok (eMsgpack env)" and r: "session_rel env self now st w"
  shows "snd (handleLogout env x self q s w) = snd (table_logout q s st) \<and>
    session_rel env self now (fst (table_logout q s st)) (fst (handleLogout env x self q s w))"
proof -
  let ?st = "st\<lparr>stSessions := (stSessions st)(extractToken q := None)\<rparr>"
  let ?w = "cache_Delete env (xClk x 1) (xTs x) (xFault x 1) self (''session:'' @ extractToken q) w"
  obtain w1 where "cache_Incr env (xClk x 3) (xFault x 3) self ''stats:active_sessions'' (- 1) ?w = (w1, Inr (stCount ?st + - 1))"
    "session_rel env self now (?st\<lparr>stCount := stCount ?st + - 1\<rparr>) w1"
    by (rule session_rel_Incr [OF ok session_rel_Delete [OF ok(1) r]])
  then show ?thesis by (simp add: handleLogout_def table_logout_def Let_def cache_Decr_Incr)
qed

lemma session_rel_count:
  assumes ok: "pebble_ok (eApi env)" "session_codec_ok (eMsgpack env)" and r: "session_rel env self now st w"
  shows "snd (handleSessionCount env x self w) = count_response (stCount st) \<and>
    session_rel env self now st (fst (handleSessionCount env x self w))"
proof -
  obtain w1 where "cache_Incr env (xClk x 0) (xFault x 0) self ''stats:active_sessions'' 0 w = (w1, Inr (stCount st + 0))"
    "session_rel env self now (st\<lparr>stCount := stCount st + 0\<rparr>) w1"
    by (rule session_rel_Incr [OF ok r])
  then show ?thesis by (simp add: handleSessionCount_def)
qed


lemma session_rel_request:
  assumes ok: "pebble_ok (eApi env)" "session_codec_ok (eMsgpack env)" and r: "session_rel env self now st w"
    and now: "0 \<le> now" "now \<le> t" "t + day < 2 ^ 63" and s: "serial now t (Request x q)"
  shows "snd (sessions_mux env decode x self q w) = snd (table_request decode x q st) \<and>
    session_rel env self t (fst (table_request decode x q st)) (fst (sessions_mux env decode x self q w))"
proof -
  have le: "now \<le> xClk x i j" "xClk x i j \<le> t" for i j using s by simp_all
  have c: "0 \<le> xClk x i j" "xClk x i j + day < 2 ^ 63" "nano_clock (xClk x i j)" for i j
    using le [of i j] now by (simp_all add: nano_clock_def day_def)
  have o: "xOthers x 0 w = w" for w using s by simp
  have me: "snd (requireAuth env x self (handleMe env x self) q w) = snd (authorized x (table_me x) q st) \<and>
      session_rel env self (xClk x 0 0) (fst (authorized x (table_me x) q st)) (fst (requireAuth env x self (handleMe env x self) q w))"
    by (rule session_rel_auth [OF ok(1) r le(1) c(3) o]) (rule session_rel_me [OF ok _ c(1,2)])
  have out: "snd (requireAuth env x self (handleLogout env x self) q w) = snd (authorized x table_logout q st) \<and>
      session_rel env self (xClk x 0 0) (fst (authorized x table_logout q st)) (fst (requireAuth env x self (handleLogout env x self) q w))"
    by (rule session_rel_auth [OF ok(1) r le(1) c(3) o]) (rule session_rel_logout [OF ok])
  note login = session_rel_login [OF ok r c(1,2), of decode q] and count = session_rel_count [OF ok r, of x]
  show ?thesis
  proof (cases "sessions_route (hMethod q) (hPath q)")
    case Login
    then show ?thesis using login session_rel_mono now(2) by (auto simp: sessions_mux_def table_request_def)
  next
    case Me
    then show ?thesis using me session_rel_mono [OF _ le(2) [of 0 0]] by (auto simp: sessions_mux_def table_request_def)
  next
    case Logout
    then show ?thesis using out session_rel_mono [OF _ le(2) [of 0 0]] by (auto simp: sessions_mux_def table_request_def)
  next
    case SessionCount
    then show ?thesis using count session_rel_mono now(2) by (auto simp: sessions_mux_def table_request_def)
  qed (use session_rel_mono [OF r now(2)] in \<open>simp_all add: sessions_mux_def table_request_def\<close>)
qed

lemma session_rel_sweep:
  assumes ok: "pebble_ok (eApi env)" and r: "session_rel env self now st w"
    and now: "now \<le> clk 0" "clk 0 \<le> t" "nano_clock (clk 0)"
  shows "session_rel env self t st (on_node self (sweeper_tick env clk stamps) w)"
proof -
  obtain p where p: "embedded self w" "set_ttl self 0 w = 0" "stores w self = Some (DiskStore p)" "disk_rel env now st p"
    by (rule session_relE [OF r])
  obtain c where c: "gm_get w self = Some c" "cStore c = DiskStore p" using p(3) by (auto simp: stores_def)
  let ?w = "on_node self (sweeper_tick env clk stamps) w"
  have "roles ?w = roles w" by (rule roles_on_node) simp
  moreover have "stores ?w self = Some (DiskStore (fst (ps_DeleteExpired (eApi env) (clk 0) p)))"
    using c by (simp add: on_node_def st_DeleteExpired_def)
  ultimately show ?thesis
    using session_relI [OF r] disk_rel_mono [OF disk_rel_Sweep [OF ok p(4) now(1,3)] now(2)] by blast
qed

lemma disk_rel_content:
  assumes "content (eApi env) p' = content (eApi env) p" "disk_rel env now st p" shows "disk_rel env now st p'"
  using assms by (simp add: disk_rel_def counts_def session_at_def ps_look_content)

lemma NewDisk_opens: "\<exists>c m. NewDisk api hostname (Inr d) None (Inr ()) t ''./session-data'' = Inr (c, m)"
  by (simp add: NewDisk_def New_def validate_def DefaultConfig_def pos64_def second_def Let_def NewPebbleStore_def)

lemma session_rel_NewDisk:
  assumes "NewDisk (eApi env) hostname (Inr d) None (Inr ()) t path = Inr (c, m)" "content (eApi env) p = db_Get (eApi env) d"
    "disk_rel env now st p"
  shows "session_rel env self now st (gm_set self c w)"
proof -
  obtain n where n: "cStore c = DiskStore \<lparr>db = d, pcount = n, ponEvict = True, ponExpire = True\<rparr>"
    using NewDisk_embedded(3) [OF assms(1)] by blast
  have "disk_rel env now st \<lparr>db = d, pcount = n, ponEvict = True, ponExpire = True\<rparr>"
    by (rule disk_rel_content [OF _ assms(3)]) (simp add: content_def [of _ "\<lparr>db = d, pcount = n, ponEvict = True, ponExpire = True\<rparr>"] assms(2))
  moreover have "embedded self (gm_set self c w)" "set_ttl self 0 (gm_set self c w) = 0"
    using NewDisk_embedded(1,2) [OF assms(1), of self] by (simp_all add: embedded_def set_ttl_def node_at_def)
  ultimately show ?thesis by (simp add: session_rel_def n)
qed

lemma session_rel_start:
  assumes "db_Get (eApi env) d = Map.empty" "NewDisk (eApi env) hostname (Inr d) None (Inr ()) t path = Inr (c, m)"
  shows "session_rel env self now \<lparr>stSessions = Map.empty, stCount = 0\<rparr> [(self, c)]"
proof -
  let ?st = "\<lparr>stSessions = Map.empty, stCount = 0\<rparr>" and ?p = "\<lparr>db = d, pcount = 0, ponEvict = True, ponExpire = True\<rparr>"
  have "disk_rel env now ?st ?p"
    by (simp add: disk_rel_def counts_def session_at_def ps_look_content content_def assms(1) live_session_def)
  then have "session_rel env self now ?st (gm_set self c [])"
    by (intro session_rel_NewDisk [OF assms(2), of ?p]) (simp_all add: content_def)
  then show ?thesis by simp
qed

lemma session_rel_restart:
  assumes r: "session_rel env self now st w" shows "session_rel env self now st (sessions_restart env hostname t self w)"
proof -
  obtain p where p: "embedded self w" "set_ttl self 0 w = 0" "stores w self = Some (DiskStore p)" "disk_rel env now st p"
    by (rule session_relE [OF r])
  obtain c where c: "gm_get w self = Some c" "cStore c = DiskStore p" using p(3) by (auto simp: stores_def)
  obtain c' m where n: "NewDisk (eApi env) hostname (Inr (db p)) None (Inr ()) t ''./session-data'' = Inr (c', m)"
    using NewDisk_opens [of "eApi env" hostname "db p" t] by (elim exE)
  have "sessions_restart env hostname t self w = gm_set self c' w" using c n by (simp add: sessions_restart_def)
  then show ?thesis using session_rel_NewDisk [OF n _ p(4)] by (simp add: content_def)
qed

lemma session_run_refines:
  assumes ok: "pebble_ok (eApi env)" "session_codec_ok (eMsgpack env)"
    and "session_rel env self now st w" "0 \<le> now" "in_order now ops"
  shows "snd (session_run env decode self ops w) = snd (table_run decode ops st)"
  using assms(3-)
proof (induction ops arbitrary: now st w)
  case (Cons op ops)
  obtain t step where op: "op = (t, step)" by (cases op)
  with Cons.prems have t: "now \<le> t" "t + day < 2 ^ 63" "serial now t step" "in_order t ops" by simp_all
  have t0: "0 \<le> t" using t(1) Cons.prems(2) by simp
  show ?case
  proof (cases step)
    case (Request x q)
    note s = session_rel_request [OF ok Cons.prems(1,2) t(1,2) t(3) [unfolded Request], of decode]
    have "snd (session_run env decode self ops (fst (sessions_mux env decode x self q w))) =
        snd (table_run decode ops (fst (table_request decode x q st)))"
      using Cons.IH s t0 t(4) by blast
    then show ?thesis using s by (simp add: op Request case_prod_unfold Let_def)
  next
    case (Sweep clk stamps)
    then have c: "now \<le> clk 0" "clk 0 \<le> t" using t(3) by simp_all
    then have "nano_clock (clk 0)" using t(2) Cons.prems(2) by (simp add: nano_clock_def day_def)
    note s = session_rel_sweep [where clk = clk and stamps = stamps, OF ok(1) Cons.prems(1) c this]
    show ?thesis using Cons.IH [OF s t0 t(4)] by (simp add: op Sweep)
  next
    case (Restart hostname t')
    note s = session_rel_mono [OF session_rel_restart [OF Cons.prems(1)] t(1)]
    show ?thesis using Cons.IH [OF s t0 t(4)] by (simp add: op Restart)
  qed
qed simp

section \<open>Properties\<close>

text \<open>
  C14: The session store implements its specification. Start the application on an empty database and let
  requests be served one after the other, mixed with sweeps of the cache and restarts of the process. All
  answers are those of a table from tokens to sessions: a login creates a session, \<open>GET /me\<close> answers it and
  moves its deadline to 24 hours later, a token is refused without a login, after a logout and after its
  deadline, and the counter is the number of logins minus the number of logouts. A restart loses nothing.\<close>

theorem session_store_refines:
  assumes "pebble_ok (eApi env)" "session_codec_ok (eMsgpack env)" "db_Get (eApi env) d = Map.empty"
    and "NewDisk (eApi env) hostname (Inr d) None (Inr ()) t ''./session-data'' = Inr (c, m)"
    and "0 \<le> now" "in_order now ops"
  shows "snd (session_run env decode self ops [(self, c)]) =
    snd (table_run decode ops \<lparr>stSessions = Map.empty, stCount = 0\<rparr>)"
  by (rule session_run_refines [OF assms(1,2) session_rel_start [OF assms(3,4)] assms(5,6)])


text \<open>A concrete encoding of sessions, for the witnesses: numbers in unary, strings with their length.\<close>

definition put_nat :: "nat \<Rightarrow> bytes" where
  "put_nat n = replicate n 1 @ [0]"

definition get_nat :: "bytes \<Rightarrow> nat \<times> bytes" where
  "get_nat b = (let n = length (takeWhile (\<lambda>x. x = 1) b) in (n, drop (Suc n) b))"

definition put_int :: "int \<Rightarrow> bytes" where
  "put_int i = put_nat (if i < 0 then 1 else 0) @ put_nat (nat \<bar>i\<bar>)"

definition get_int :: "bytes \<Rightarrow> int \<times> bytes" where
  "get_int b = (let (s, b1) = get_nat b; (n, b2) = get_nat b1 in (if s = 0 then int n else - int n, b2))"

definition put_str :: "string \<Rightarrow> bytes" where
  "put_str s = put_nat (length s) @ map (\<lambda>c. of_nat (of_char c)) s"

definition get_str :: "bytes \<Rightarrow> string \<times> bytes" where
  "get_str b = (let (n, b1) = get_nat b in (map (\<lambda>x. char_of (unat x)) (take n b1), drop n b1))"

definition put_session :: "Session \<Rightarrow> bytes" where
  "put_session s = put_str (ssUserID s) @ put_str (ssUsername s) @ put_int (ssCreatedAt s) @ put_int (ssLastSeen s)"

definition get_session :: "bytes \<Rightarrow> Session" where
  "get_session b =
     (let (u, b1) = get_str b; (n, b2) = get_str b1; (c, b3) = get_int b2; (l, b4) = get_int b3
      in \<lparr>ssUserID = u, ssUsername = n, ssCreatedAt = c, ssLastSeen = l\<rparr>)"

lemma get_put_nat: "get_nat (put_nat n @ b) = (n, b)"
proof -
  have "takeWhile (\<lambda>x. x = 1) (replicate n 1 @ (0 :: byte) # b) = replicate n 1" by (induction n) simp_all
  then show ?thesis by (simp add: get_nat_def put_nat_def)
qed

lemma get_put_int: "get_int (put_int i @ b) = (i, b)"
  by (simp add: get_int_def put_int_def get_put_nat)

lemma char_of_byte: "char_of (unat (of_nat (of_char c) :: byte)) = c"
  by (simp add: unat_of_nat)

lemma get_put_str: "get_str (put_str s @ b) = (s, b)"
  by (simp add: get_str_def put_str_def get_put_nat o_def char_of_byte)

lemma get_put_session: "get_session (put_session s) = s"
  using get_put_int [of "ssLastSeen s" "[]"] by (simp add: get_session_def put_session_def get_put_str get_put_int)

definition demo_session_env :: "((string, bytes) gomap, Session, unit, request + response) env" where
  "demo_session_env =
     \<lparr>eApi = list_pebble,
      eMsgpack = msgpack.extend fixed_msgpack \<lparr>marshal_any = (\<lambda>s. Inr (put_session s)), unmarshal_any = (\<lambda>b d. Inr (get_session b))\<rparr>,
      eCodec = plain_codec, eConv = (\<lambda>_. 0)\<rparr>"


lemma demo_session_ok:
  "pebble_ok (eApi demo_session_env)" "session_codec_ok (eMsgpack demo_session_env)"
proof -
  show "pebble_ok (eApi demo_session_env)" by (simp add: demo_session_env_def pebble_ok_list)
  show "session_codec_ok (eMsgpack demo_session_env)"
    using msgpack_int_ok_fixed by (simp add: session_codec_ok_def demo_session_env_def msgpack.defs msgpack_int_ok_def get_put_session)
qed

definition demo_session_http :: "instant \<Rightarrow> (string, bytes) gomap http_env" where
  "demo_session_http t =
     \<lparr>xClk = (\<lambda>_ _. t), xTs = t, xFault = (\<lambda>_. NoFault), xRandom = (\<lambda>_. [7]), xOthers = (\<lambda>_ w. w),
      xParse = (\<lambda>_. None), xKeys = (\<lambda>_. None), xLock = (\<lambda>_. None), xTTL = (\<lambda>_. None), xLimit = (\<lambda>_. None),
      xStart = 0, xRuntime = (0, 0, 0), xSched = []\<rparr>"

definition demo_session_request :: "string \<Rightarrow> string \<Rightarrow> http_request" where
  "demo_session_request m path =
     \<lparr>hMethod = m, hPath = [path], hHeader = (\<lambda>h. if h = ''Authorization'' then ''Bearer 07'' else ''''), hBody = [],
      hReadFails = False, hRemoteAddr = '''', hURL = ''''\<rparr>"

definition demo_session_ops :: "(instant \<times> (string, bytes) gomap session_step) list" where
  "demo_session_ops =
     [(1, Request (demo_session_http 1) (demo_session_request ''POST'' ''login'')),
      (2, Request (demo_session_http 2) (demo_session_request ''GET'' ''me'')),
      (3, Restart ''h'' 3),
      (4, Request (demo_session_http 4) (demo_session_request ''GET'' ''me'')),
      (5, Request (demo_session_http 5) (demo_session_request ''POST'' ''logout'')),
      (6, Request (demo_session_http 6) (demo_session_request ''GET'' ''me''))]"

theorem session_store_refines_witness:
  "\<exists>c m. NewDisk list_pebble ''h'' (Inr []) None (Inr ()) 0 ''./session-data'' = Inr (c, m) \<and>
     map sStatus (snd (session_run demo_session_env (\<lambda>_. Some ''alice'') ''s'' demo_session_ops [(''s'', c)])) =
       [200, 200, 200, 200, 401]"
proof -
  obtain c m where c: "NewDisk list_pebble ''h'' (Inr []) None (Inr ()) 0 ''./session-data'' = Inr (c, m)"
    using NewDisk_opens [of list_pebble "''h''" "[]" 0] by (elim exE)
  have api: "eApi demo_session_env = list_pebble" by (simp add: demo_session_env_def)
  have o: "in_order 0 demo_session_ops" by (simp add: demo_session_ops_def demo_session_http_def day_def)
  have e: "db_Get (eApi demo_session_env) [] = Map.empty" by (simp add: api list_pebble_def)
  have t: "map sStatus (snd (table_run (\<lambda>_. Some ''alice'') demo_session_ops \<lparr>stSessions = Map.empty, stCount = 0\<rparr>)) =
      [200, 200, 200, 200, 401]"
    by (simp add: demo_session_ops_def table_request_def sessions_route_def demo_session_request_def table_login_def
        authorized_def live_session_def table_me_def table_logout_def extractToken_def session_token_def
        demo_session_http_def hex_digit_def day_def writeJSON_def login_response_def logout_response_def http_Error_def Let_def)
  show ?thesis
    using c session_store_refines [OF demo_session_ok e c [folded api] order_refl o, of "\<lambda>_. Some ''alice''" "''s''"] t
    by (intro exI conjI) (assumption, simp)
qed


text \<open>
  C37: A logout can be undone by a request that is already running. The check of a token and the update of
  \<open>last_seen\<close> are two calls of the cache. Let a user log in, and let a \<open>POST /logout\<close> with the token run between
  the two calls of a \<open>GET /me\<close>. The logout is answered with success, and yet \<open>GET /me\<close> stores the session again:
  the token is accepted for another 24 hours.\<close>

theorem session_logout_race:
  assumes ok: "pebble_ok (eApi env)" "session_codec_ok (eMsgpack env)" and empty: "db_Get (eApi env) d = Map.empty"
    and new: "NewDisk (eApi env) hostname (Inr d) None (Inr ()) t ''./session-data'' = Inr (c, m)"
    and login: "sessions_route (hMethod q1) (hPath q1) = Login" "decode (hBody q1) = Some name" "name \<noteq> ''''"
      "token = session_token (xRandom x1 0)" "token \<noteq> ''''"
    and me: "sessions_route (hMethod q2) (hPath q2) = Me" "extractToken q2 = token"
    and logout: "sessions_route (hMethod q3) (hPath q3) = Logout" "extractToken q3 = token"
    and inside: "\<And>w. xOthers x2 0 w = fst (sessions_mux env decode x3 self q3 w)"
    and order: "in_order 0 [(t1, Request x1 q1)]" "t1 \<le> xClk x2 0 0" "in_order (xClk x2 0 0) [(t3, Request x3 q3)]"
      "t3 \<le> xClk x2 1 0" "in_order (xClk x2 1 0) [(t4, Request x4 q2)]"
    and alive: "xClk x2 0 0 \<le> xClk x1 0 0 + day" "xClk x3 0 0 \<le> xClk x1 0 0 + day" "xClk x4 0 0 \<le> xClk x2 1 0 + day"
    and worlds: "w1 = fst (sessions_mux env decode x1 self q1 [(self, c)])"
      "w2 = fst (cache_Get env (xClk x2 0) (xFault x2 0) self (''session:'' @ token) (DestVal ()) w1)"
      "w3 = fst (sessions_mux env decode x2 self q2 w1)"
  shows "snd (sessions_mux env decode x3 self q3 w2) = logout_response \<and>
    sStatus (snd (sessions_mux env decode x2 self q2 w1)) = 200 \<and> sStatus (snd (sessions_mux env decode x4 self q2 w3)) = 200"
proof -
  let ?st0 = "\<lparr>stSessions = Map.empty, stCount = 0\<rparr>"
  let ?s1 = "new_session (xClk x1 2 0) (xClk x1 2 1) name"
  note r0 = session_rel_start [where self = self and now = 0, OF empty new]
  have s1: "0 \<le> t1" "t1 + day < 2 ^ 63" "serial 0 t1 (Request x1 q1)" using order(1) by simp_all
  define st1 where "st1 = fst (table_request decode x1 q1 ?st0)"
  have r1: "session_rel env self t1 st1 w1"
    using session_rel_request [OF ok r0 order_refl s1, of decode] by (simp add: st1_def worlds(1))
  have st1: "stSessions st1 token = Some (?s1, xClk x1 0 0 + day)"
    using login by (simp add: st1_def table_request_def table_login_def Let_def)
  have s3: "xClk x2 0 0 \<le> t3" "t3 + day < 2 ^ 63" "serial (xClk x2 0 0) t3 (Request x3 q3)" using order(3) by simp_all
  have c2: "0 \<le> xClk x2 0 0" "nano_clock (xClk x2 0 0)" using s1(1) order(2) s3 by (simp_all add: nano_clock_def day_def)
  obtain w2' where g: "cache_Get env (xClk x2 0) (xFault x2 0) self (''session:'' @ token) (DestVal ()) w1 =
      (w2', map_option GVal (live_session (xClk x2 0 0) token st1))" "session_rel env self (xClk x2 0 0) st1 w2'"
    by (rule session_rel_Get [where clk = "xClk x2 0", OF ok(1) r1 order(2) c2(2)])
  have w2: "w2' = w2" using g(1) worlds(2) by simp
  have live: "live_session (xClk x2 0 0) token st1 = Some ?s1" using st1 alive(1) by (simp add: live_session_def)
  define st3 where "st3 = fst (table_request decode x3 q3 st1)"
  have r3: "snd (sessions_mux env decode x3 self q3 w2) = snd (table_request decode x3 q3 st1)"
    "session_rel env self t3 st3 (fst (sessions_mux env decode x3 self q3 w2))"
    using session_rel_request [OF ok g(2) c2(1) s3, of decode] by (simp_all add: st3_def w2)
  have out: "snd (table_request decode x3 q3 st1) = logout_response"
    using logout login(5) st1 alive(2) by (simp add: table_request_def authorized_def live_session_def table_logout_def)
  have s4: "xClk x2 1 0 \<le> t4" "t4 + day < 2 ^ 63" "serial (xClk x2 1 0) t4 (Request x4 q2)" using order(5) by simp_all
  have c3: "0 \<le> xClk x2 1 0" "xClk x2 1 0 + day < 2 ^ 63" using c2(1) s3(1) order(4) s4 by simp_all
  define st4 where "st4 = fst (table_me x2 q2 ?s1 st3)"
  note h = session_rel_me [where x = x2 and s = ?s1 and q = q2, OF ok r3(2) c3]
  have mux: "sessions_mux env decode x2 self q2 w1 = handleMe env x2 self q2 ?s1 (fst (sessions_mux env decode x3 self q3 w2))"
    using me login(5) g(1) live inside w2 by (simp add: sessions_mux_def requireAuth_def Let_def)
  have r4: "session_rel env self (xClk x2 1 0) st4 w3"
    using session_rel_mono [OF conjunct2 [OF h] order(4)] by (simp add: worlds(3) mux st4_def)
  have st4: "stSessions st4 token = Some (?s1\<lparr>ssLastSeen := xClk x2 2 0\<rparr>, xClk x2 1 0 + day)"
    using me(2) by (simp add: st4_def table_me_def Let_def)
  have "snd (sessions_mux env decode x4 self q2 w3) = snd (table_request decode x4 q2 st4)"
    using session_rel_request [OF ok r4 c3(1) s4, of decode] by simp
  also have "sStatus (snd (table_request decode x4 q2 st4)) = 200"
    using me login(5) st4 alive(3) by (simp add: table_request_def authorized_def live_session_def table_me_def writeJSON_def Let_def)
  finally show ?thesis using r3(1) out mux h by (simp add: table_me_def writeJSON_def Let_def)
qed


definition demo_race_http :: "(string, bytes) gomap http_env" where
  "demo_race_http = (demo_session_http 2)\<lparr>
     xClk := (\<lambda>i _. if i = 0 then 2 else 4),
     xOthers := (\<lambda>_ w. fst (sessions_mux demo_session_env (\<lambda>_. Some ''alice'') (demo_session_http 3) ''s''
       (demo_session_request ''POST'' ''logout'') w))\<rparr>"

theorem session_logout_race_witness:
  "\<exists>c m w1 w3. NewDisk list_pebble ''h'' (Inr []) None (Inr ()) 0 ''./session-data'' = Inr (c, m) \<and>
     w1 = fst (sessions_mux demo_session_env (\<lambda>_. Some ''alice'') (demo_session_http 1) ''s''
       (demo_session_request ''POST'' ''login'') [(''s'', c)]) \<and>
     w3 = fst (sessions_mux demo_session_env (\<lambda>_. Some ''alice'') demo_race_http ''s'' (demo_session_request ''GET'' ''me'') w1) \<and>
     sStatus (snd (sessions_mux demo_session_env (\<lambda>_. Some ''alice'') (demo_session_http 5) ''s''
       (demo_session_request ''GET'' ''me'') w3)) = 200"
proof -
  obtain c m where c: "NewDisk list_pebble ''h'' (Inr []) None (Inr ()) 0 ''./session-data'' = Inr (c, m)"
    using NewDisk_opens [of list_pebble "''h''" "[]" 0] by (elim exE)
  have api: "eApi demo_session_env = list_pebble" by (simp add: demo_session_env_def)
  have e: "db_Get (eApi demo_session_env) [] = Map.empty" by (simp add: api list_pebble_def)
  note race = session_logout_race [where ?x1.0 = "demo_session_http 1" and ?x2.0 = demo_race_http and ?x3.0 = "demo_session_http 3"
    and ?x4.0 = "demo_session_http 5" and ?q1.0 = "demo_session_request ''POST'' ''login''" and ?q2.0 = "demo_session_request ''GET'' ''me''"
    and ?q3.0 = "demo_session_request ''POST'' ''logout''" and ?t1.0 = 1 and ?t3.0 = 3 and ?t4.0 = 5 and self = "''s''" and decode = "\<lambda>_. Some ''alice''"
    and token = "''07''" and name = "''alice''", OF demo_session_ok e c [folded api]]
  let ?w1 = "fst (sessions_mux demo_session_env (\<lambda>_. Some ''alice'') (demo_session_http 1) ''s'' (demo_session_request ''POST'' ''login'') [(''s'', c)])"
  let ?w3 = "fst (sessions_mux demo_session_env (\<lambda>_. Some ''alice'') demo_race_http ''s'' (demo_session_request ''GET'' ''me'') ?w1)"
  have "sStatus (snd (sessions_mux demo_session_env (\<lambda>_. Some ''alice'') (demo_session_http 5) ''s'' (demo_session_request ''GET'' ''me'') ?w3)) = 200"
    by (rule conjunct2 [OF conjunct2 [OF race [OF _ _ _ _ _ _ _ _ _ _ _ _ _ _ _ _ _ _ refl refl refl]]])
      (simp_all add: demo_session_request_def sessions_route_def session_token_def demo_session_http_def demo_race_http_def
        hex_digit_def extractToken_def day_def)
  with c show ?thesis by (intro exI conjI) (assumption, rule refl, rule refl, assumption)
qed

end
