(* ===== verification/Bookstore.thy ===== *)
theory Bookstore
  imports Middleware Embedded
begin

text \<open>
  The bookstore \<open>src/examples/webapi/main.go\<close>: an HTTP application that caches books and lists of books with tags,
  invalidates them on writes, guards purchases with a lock, and wraps everything in the rate limiter and the
  response cache of the library. The variables \<open>bookDB\<close> and \<open>nextID\<close> are the state of the application. The
  section of a handler that holds \<open>dbMu\<close> is atomic, and a handler has only one; handlers run one at a time here,
  except that other processes may run between the attempts to take the lock. Of the environment of a request,
  \<open>xClk x i\<close> are the clock readings of the \<open>i\<close>-th call of the cache.
\<close>

section \<open>Definitions\<close>

record Book =
  bkID :: string
  bkTitle :: string
  bkAuthor :: string
  bkPrice :: float64
  bkStock :: int64

text \<open>The values that the handlers cache and the pointers they read them into.\<close>

datatype book_value = OneBook Book | BookList "Book list"
datatype book_dest = ToBook | ToBookList

record book_db =
  bookDB :: "(string, Book) gomap"
  nextBookID :: int64

definition initial_db :: book_db where
  "initial_db =
     \<lparr>bookDB =
        [(''1'', \<lparr>bkID = ''1'', bkTitle = ''The Go Programming Language'', bkAuthor = ''Donovan & Kernighan'',
                  bkPrice = fl (3499 / 100), bkStock = 10\<rparr>),
         (''2'', \<lparr>bkID = ''2'', bkTitle = ''Designing Data-Intensive Applications'', bkAuthor = ''Martin Kleppmann'',
                  bkPrice = fl (4299 / 100), bkStock = 5\<rparr>),
         (''3'', \<lparr>bkID = ''3'', bkTitle = ''Clean Code'', bkAuthor = ''Robert C. Martin'',
                  bkPrice = fl (2999 / 100), bkStock = 8\<rparr>)],
      nextBookID = 4\<rparr>"

definition book_json :: "Book \<Rightarrow> json" where
  "book_json b =
     JObj [(''id'', JStr (bkID b)), (''title'', JStr (bkTitle b)), (''author'', JStr (bkAuthor b)),
           (''price'', JFloat (bkPrice b)), (''stock'', JNum (sint (bkStock b)))]"

definition book_error :: "nat \<Rightarrow> string \<Rightarrow> http_response" where
  "book_error st msg = http_Error st (Json (JObj [(''error'', JStr msg)]))"

definition handleListBooks ::
    "('d, book_value, book_dest, 'w) env \<Rightarrow> 'd http_env \<Rightarrow> string \<Rightarrow> book_db \<Rightarrow> 'd world \<Rightarrow>
     book_db \<times> 'd world \<times> http_response" where
  "handleListBooks env x self bdb w =
     (case cache_Get env (xClk x 0) (xFault x 0) self ''books:list'' (DestVal ToBookList) w of
        (w1, Some (GVal (BookList books))) \<Rightarrow> (bdb, w1, writeJSON 200 (JList (map book_json books)))
      | (w1, _) \<Rightarrow>
          (let books = map snd (bookDB bdb)
           in (bdb,
               fst (SetWithTags env (xClk x 1) (xTs x) (xFault x 1) self ''books:list'' (GVal (BookList books))
                 (30 * second) [''books''] w1),
               writeJSON 200 (JList (map book_json books)))))"

definition handleGetBook ::
    "('d, book_value, book_dest, 'w) env \<Rightarrow> 'd http_env \<Rightarrow> string \<Rightarrow> string \<Rightarrow> book_db \<Rightarrow> 'd world \<Rightarrow>
     book_db \<times> 'd world \<times> http_response" where
  "handleGetBook env x self bid bdb w =
     (let cacheKey = ''book:'' @ bid
      in case cache_Get env (xClk x 0) (xFault x 0) self cacheKey (DestVal ToBook) w of
           (w1, Some (GVal (OneBook book))) \<Rightarrow> (bdb, w1, writeJSON 200 (book_json book))
         | (w1, _) \<Rightarrow>
             (case gm_get (bookDB bdb) bid of
                None \<Rightarrow> (bdb, w1, book_error 404 ''book not found'')
              | Some book \<Rightarrow>
                  (bdb,
                   fst (SetWithTags env (xClk x 1) (xTs x) (xFault x 1) self cacheKey (GVal (OneBook book)) minute
                     [''books'', ''book:'' @ bid] w1),
                   writeJSON 200 (book_json book))))"

text \<open>\<open>WriteHeader\<close> runs before the header \<open>Content-Type\<close> is set, so the header is not sent.\<close>

definition handleCreateBook ::
    "('d, book_value, book_dest, 'w) env \<Rightarrow> (bytes \<Rightarrow> Book option) \<Rightarrow> 'd http_env \<Rightarrow> string \<Rightarrow> http_request \<Rightarrow> book_db \<Rightarrow>
     'd world \<Rightarrow> book_db \<times> 'd world \<times> http_response" where
  "handleCreateBook env decode x self r bdb w =
     (case decode (hBody r) of
        None \<Rightarrow> (bdb, w, book_error 400 ''invalid JSON'')
      | Some book0 \<Rightarrow>
          (let book = book0\<lparr>bkID := Itoa (sint (nextBookID bdb)), bkStock := 10\<rparr>
           in (bdb\<lparr>nextBookID := nextBookID bdb + 1, bookDB := gm_set (bkID book) book (bookDB bdb)\<rparr>,
               InvalidateTag env (xClk x) (\<lambda>_. xTs x) (xFault x) self ''books'' w,
               \<lparr>sStatus = 201, sHeaders = [], sBody = Json (book_json book)\<rparr>)))"

text \<open>The part of \<open>handlePurchase\<close> that holds \<open>dbMu\<close>: the error to answer, or the book with its new stock.\<close>

definition take_one :: "string \<Rightarrow> book_db \<Rightarrow> book_db \<times> (http_response + Book)" where
  "take_one bid bdb =
     (case gm_get (bookDB bdb) bid of
        None \<Rightarrow> (bdb, Inl (book_error 404 ''book not found''))
      | Some book \<Rightarrow>
          if \<not> pos64 (bkStock book) then (bdb, Inl (book_error 409 ''out of stock''))
          else (let book' = book\<lparr>bkStock := bkStock book - 1\<rparr>
                in (bdb\<lparr>bookDB := gm_set bid book' (bookDB bdb)\<rparr>, Inr book')))"

definition purchase_options :: LockOptions where
  "purchase_options = \<lparr>loTTL = 5 * second, loRetryCount = 3, loRetryDelay = 100000000\<rparr>"

text \<open>The deferred \<open>Release\<close> runs at the end of every path after the lock was taken.\<close>

definition handlePurchase ::
    "('d, book_value, book_dest, 'w) env \<Rightarrow> 'd http_env \<Rightarrow> string \<Rightarrow> string \<Rightarrow> book_db \<Rightarrow> 'd world \<Rightarrow>
     (book_db \<times> 'd world \<times> http_response) option" where
  "handlePurchase env x self bid bdb w =
     (case Lock env (xClk x) (xRandom x) (xFault x) (xOthers x) self (''purchase:'' @ bid) purchase_options w of
        None \<Rightarrow> None
      | Some (w1, Inl err) \<Rightarrow> Some (bdb, w1, book_error 409 ''could not acquire lock, try again'')
      | Some (w1, Inr h) \<Rightarrow>
          (case take_one bid bdb of
             (bdb', Inl resp) \<Rightarrow> Some (bdb', fst (handle_Release env (xClk x 6) (xFault x 6) h w1), resp)
           | (bdb', Inr book) \<Rightarrow>
               (let w2 = InvalidateTag env (\<lambda>i. xClk x (2 * i + 7)) (\<lambda>_. xTs x) (\<lambda>i. xFault x (2 * i + 7)) self (''book:'' @ bid) w1;
                    w3 = InvalidateTag env (\<lambda>i. xClk x (2 * i + 8)) (\<lambda>_. xTs x) (\<lambda>i. xFault x (2 * i + 8)) self ''books'' w2
                in Some (bdb', fst (handle_Release env (xClk x 6) (xFault x 6) h w3),
                     writeJSON 200 (JObj [(''message'', JStr ''Purchase successful!''), (''book'', JStr (bkTitle book)),
                       (''stock_remaining'', JNum (sint (bkStock book))),
                       (''fencing_token'', JNum (uint (handle_Token h)))])))))"

definition handleStats :: "string \<Rightarrow> book_db \<Rightarrow> 'd world \<Rightarrow> book_db \<times> 'd world \<times> http_response" where
  "handleStats self bdb w = (bdb, w, writeJSON 200 (JObj [(''cached_items'', JNum (sint (cache_Len self w)))]))"

datatype book_route =
    ListBooks
  | GetBook string
  | CreateBook
  | Purchase string
  | Stats
  | NoBookRoute
  | WrongBookMethod

definition bookstore_route :: "string \<Rightarrow> string list \<Rightarrow> book_route" where
  "bookstore_route m path =
     (let get = (m = ''GET'' \<or> m = ''HEAD'')
      in case path of
           [a] \<Rightarrow>
             if a = ''books'' then (if get then ListBooks else if m = ''POST'' then CreateBook else WrongBookMethod)
             else if a = ''stats'' then (if get then Stats else WrongBookMethod)
             else NoBookRoute
         | [a, bid] \<Rightarrow>
             if a = ''books'' \<and> bid \<noteq> '''' then (if get then GetBook bid else WrongBookMethod) else NoBookRoute
         | [a, bid, act] \<Rightarrow>
             if a = ''books'' \<and> bid \<noteq> '''' \<and> act = ''purchase'' then (if m = ''POST'' then Purchase bid else WrongBookMethod)
             else NoBookRoute
         | _ \<Rightarrow> NoBookRoute)"

definition bookstore_mux ::
    "('d, book_value, book_dest, 'w) env \<Rightarrow> (bytes \<Rightarrow> Book option) \<Rightarrow> 'd http_env \<Rightarrow> string \<Rightarrow> (book_db, 'd) app_handler" where
  "bookstore_mux env decode x self flusher r bdb w =
     (case bookstore_route (hMethod r) (hPath r) of
        ListBooks \<Rightarrow> Some (handleListBooks env x self bdb w)
      | GetBook bid \<Rightarrow> Some (handleGetBook env x self bid bdb w)
      | CreateBook \<Rightarrow> Some (handleCreateBook env decode x self r bdb w)
      | Purchase bid \<Rightarrow> handlePurchase env x self bid bdb w
      | Stats \<Rightarrow> Some (handleStats self bdb w)
      | NoBookRoute \<Rightarrow> Some (bdb, w, not_found)
      | WrongBookMethod \<Rightarrow> Some (bdb, w, wrong_method))"

text \<open>
  The handler that \<open>main\<close> starts. The response cache is the outer middleware. It keeps its responses in the same
  cache, with msgpack for responses (\<open>henv\<close>).
\<close>

definition bookstore_ServeHTTP ::
    "('d, book_value, book_dest, 'w) env \<Rightarrow> ('d, cachedResponse, unit, 'w) env \<Rightarrow> (string \<Rightarrow> string) \<Rightarrow> (bytes \<Rightarrow> Book option) \<Rightarrow>
     'd http_env \<Rightarrow> 'd http_env \<Rightarrow> string \<Rightarrow> (book_db, 'd) app_handler" where
  "bookstore_ServeHTTP env henv sha256_hex decode x y self =
     HTTPCache henv sha256_hex (xClk y) (xTs y) (xFault y) self (30 * second) []
       (HTTPRateLimit env (xClk y 2 0) self 100 minute (bookstore_mux env decode x self))"

text \<open>The configuration of its cache; the fields that the literal leaves out are zero.\<close>

definition bookstore_config :: Config where
  "bookstore_config =
     \<lparr>NumShards = 64, MaxMemoryMB = 128, DefaultTTL = 5 * minute, SweeperInterval = second,
      storageMode = Memory, DiskPath = '''', ListenAddr = '''', Peers = [],
      mode = Partitioned, NodeName = '''', GRPCPort = 0, HTTPPort = 0, VirtualNodes = 0\<rparr>"

section \<open>Runs\<close>

text \<open>A request with its two environments; the answers come in order. A request that is never answered has no world after it.\<close>

type_synonym 'd book_call = "'d http_env \<times> 'd http_env \<times> http_request"

fun bookstore_run ::
    "('d, book_value, book_dest, 'w) env \<Rightarrow> ('d, cachedResponse, unit, 'w) env \<Rightarrow> (string \<Rightarrow> string) \<Rightarrow> (bytes \<Rightarrow> Book option) \<Rightarrow>
     string \<Rightarrow> 'd book_call list \<Rightarrow> book_db \<Rightarrow> 'd world \<Rightarrow> (book_db \<times> 'd world \<times> http_response list) option" where
  "bookstore_run env henv sha256_hex decode self [] bdb w = Some (bdb, w, [])"
| "bookstore_run env henv sha256_hex decode self ((x, y, r) # calls) bdb w =
     (case bookstore_ServeHTTP env henv sha256_hex decode x y self True r bdb w of
        None \<Rightarrow> None
      | Some (bdb1, w1, resp) \<Rightarrow>
          (case bookstore_run env henv sha256_hex decode self calls bdb1 w1 of
             None \<Rightarrow> None
           | Some (bdb2, w2, resps) \<Rightarrow> Some (bdb2, w2, resp # resps)))"

text \<open>The purchases of a book that were answered with success.\<close>

fun sold :: "string \<Rightarrow> 'd book_call list \<Rightarrow> http_response list \<Rightarrow> nat" where
  "sold bid ((x, y, r) # calls) (resp # resps) =
     (if bookstore_route (hMethod r) (hPath r) = Purchase bid \<and> sStatus resp = 200 then 1 else 0) + sold bid calls resps"
| "sold bid calls resps = 0"

definition db_inv :: "book_db \<Rightarrow> bool" where
  "db_inv bdb \<longleftrightarrow> 0 \<le> sint (nextBookID bdb) \<and>
     (\<forall>bid b. gm_get (bookDB bdb) bid = Some b \<longrightarrow>
        0 \<le> sint (bkStock b) \<and> (\<exists>n. bid = Itoa n \<and> 0 \<le> n \<and> n < sint (nextBookID bdb)))"

end
