(* ===== verification/Bookstore_Props.thy ===== *)
theory Bookstore_Props
  imports Bookstore
begin

text \<open>
  The bookstore: no book is sold more often than it was in stock, and the response cache shows the old stock
  after a purchase that invalidated the cached book.
\<close>

section \<open>The effect of a request on the books\<close>

definition db_effect :: "http_request \<Rightarrow> http_response \<Rightarrow> book_db \<Rightarrow> book_db \<Rightarrow> bool" where
  "db_effect r resp bdb bdb' \<longleftrightarrow>
     bdb' = bdb \<and> (\<forall>bid. bookstore_route (hMethod r) (hPath r) = Purchase bid \<longrightarrow> sStatus resp \<noteq> 200) \<or>
     (\<exists>b. bookstore_route (hMethod r) (hPath r) = CreateBook \<and> bkStock b = 10 \<and>
        bdb' = bdb\<lparr>nextBookID := nextBookID bdb + 1, bookDB := gm_set (Itoa (sint (nextBookID bdb))) b (bookDB bdb)\<rparr>) \<or>
     (\<exists>bid b. bookstore_route (hMethod r) (hPath r) = Purchase bid \<and> sStatus resp = 200 \<and>
        gm_get (bookDB bdb) bid = Some b \<and> pos64 (bkStock b) \<and>
        bdb' = bdb\<lparr>bookDB := gm_set bid (b\<lparr>bkStock := bkStock b - 1\<rparr>) (bookDB bdb)\<rparr>)"

lemma db_effect_same:
  "(\<forall>bid. bookstore_route (hMethod r) (hPath r) \<noteq> Purchase bid) \<or> sStatus resp \<noteq> 200 \<Longrightarrow> db_effect r resp bdb bdb"
  by (auto simp: db_effect_def)

lemma handlePurchase_effect:
  assumes "handlePurchase env x self bid bdb w = Some (bdb', w', resp)" "bookstore_route (hMethod r) (hPath r) = Purchase bid"
  shows "db_effect r resp bdb bdb'"
  using assms
  by (auto simp: handlePurchase_def take_one_def db_effect_def book_error_def http_Error_def writeJSON_def Let_def
      split: option.splits prod.splits sum.splits if_splits)

lemma handlers_keep_db:
  "fst (handleListBooks env x self bdb w) = bdb" "fst (handleGetBook env x self bid bdb w) = bdb" "fst (handleStats self bdb w) = bdb"
  by (simp_all add: handleListBooks_def handleGetBook_def handleStats_def Let_def
      split: prod.split option.split gvalue.split book_value.split)

lemma mux_effect:
  assumes "bookstore_mux env decode x self flusher r bdb w = Some (bdb', w', resp)"
  shows "db_effect r resp bdb bdb'"
proof (cases "bookstore_route (hMethod r) (hPath r)")
  case CreateBook
  show ?thesis
  proof (cases "decode (hBody r)")
    case None
    then show ?thesis using assms CreateBook db_effect_same by (simp add: bookstore_mux_def handleCreateBook_def)
  next
    case (Some b)
    let ?b = "b\<lparr>bkID := Itoa (sint (nextBookID bdb)), bkStock := 10\<rparr>"
    have "bdb' = bdb\<lparr>nextBookID := nextBookID bdb + 1, bookDB := gm_set (Itoa (sint (nextBookID bdb))) ?b (bookDB bdb)\<rparr>" "bkStock ?b = 10"
      using assms CreateBook Some by (simp_all add: bookstore_mux_def handleCreateBook_def Let_def)
    then show ?thesis using CreateBook unfolding db_effect_def by blast
  qed
next
  case (Purchase bid)
  then show ?thesis using assms handlePurchase_effect by (simp add: bookstore_mux_def)
next
  case ListBooks
  then show ?thesis
    using assms handlers_keep_db(1) [of env x self bdb w] db_effect_same by (simp add: bookstore_mux_def)
next
  case (GetBook bid)
  then show ?thesis
    using assms handlers_keep_db(2) [of env x self bid bdb w] db_effect_same by (simp add: bookstore_mux_def)
next
  case Stats
  then show ?thesis
    using assms handlers_keep_db(3) [of self bdb w] db_effect_same by (simp add: bookstore_mux_def)
qed (use assms db_effect_same in \<open>auto simp: bookstore_mux_def\<close>)

lemma db_effect_status: "sStatus resp' = sStatus resp \<Longrightarrow> db_effect r resp' bdb bdb' = db_effect r resp bdb bdb'"
  by (simp add: db_effect_def)

lemma limited_effect:
  assumes "HTTPRateLimit env t self limit win (bookstore_mux env decode x self) flusher r bdb w = Some (bdb', w', resp)"
  shows "db_effect r resp bdb bdb'"
proof -
  obtain c where c: "gm_get w self = Some c" using assms by (auto simp: HTTPRateLimit_def split: option.splits)
  obtain c' allowed state where l: "RateLimit env t (''ratelimit:'' @ clientIP r) \<lparr>rlLimit = limit, rlWindow = win\<rparr> c = (c', allowed, state)"
    by (cases "RateLimit env t (''ratelimit:'' @ clientIP r) \<lparr>rlLimit = limit, rlWindow = win\<rparr> c")
  show ?thesis
  proof (cases allowed)
    case True
    then obtain resp' where "bookstore_mux env decode x self flusher r bdb (gm_set self c' w) = Some (bdb', w', resp')"
      "resp = add_headers (limit_headers state) resp'"
      using assms c l by (auto simp: HTTPRateLimit_def)
    then show ?thesis using mux_effect db_effect_status [of resp resp'] by (simp add: add_headers_def)
  next
    case False
    then have "bdb' = bdb" "sStatus resp = 429"
      using assms c l by (auto simp: HTTPRateLimit_def add_headers_def http_Error_def)
    then show ?thesis by (simp add: db_effect_same)
  qed
qed

lemma route_GET: "bookstore_route ''GET'' path \<noteq> Purchase bid"
  by (auto simp: bookstore_route_def split: list.split)

lemma serve_effect:
  assumes "bookstore_ServeHTTP env henv sha256_hex decode x y self flusher r bdb w = Some (bdb', w', resp)"
  shows "db_effect r resp bdb bdb'"
proof (cases "hMethod r = ''GET''")
  case True
  let ?next = "HTTPRateLimit env (xClk y 2 0) self 100 minute (bookstore_mux env decode x self)"
  have "bdb' = bdb \<or> (\<exists>w1 w2. ?next False r bdb w1 = Some (bdb', w2, resp))"
    using assms True unfolding bookstore_ServeHTTP_def HTTPCache_def Let_def
    by (auto split: prod.splits option.splits gvalue.splits if_splits)
  then show ?thesis using limited_effect db_effect_same route_GET True by metis
next
  case False
  then show ?thesis using assms limited_effect by (simp add: bookstore_ServeHTTP_def HTTPCache_def)
qed


lemma Itoa_inj: "0 \<le> a \<Longrightarrow> 0 \<le> b \<Longrightarrow> Itoa a = Itoa b \<longleftrightarrow> a = b"
  by (auto simp: Itoa_def itoa_inj)

lemma sint_next: "sint n + 1 < 2 ^ 63 \<Longrightarrow> sint (n + 1 :: int64) = sint n + 1"
  using sint64_bounds(1) [of n] by (simp add: sint_word_ariths(1) signed_take_bit_int_eq_self)

lemma sint_pred: "0 < sint n \<Longrightarrow> sint (n - 1 :: int64) = sint n - 1"
  using sint64_bounds [of n] by (simp add: sint_word_ariths(2) signed_take_bit_int_eq_self)

lemma db_effect_step:
  assumes e: "db_effect r resp bdb bdb'" and inv: "db_inv bdb" and small: "sint (nextBookID bdb) + 1 < 2 ^ 63"
    and b: "gm_get (bookDB bdb) bid = Some b"
  shows "db_inv bdb' \<and> sint (nextBookID bdb') \<le> sint (nextBookID bdb) + 1 \<and>
    (\<exists>b'. gm_get (bookDB bdb') bid = Some b' \<and> sint (bkStock b') +
       (if bookstore_route (hMethod r) (hPath r) = Purchase bid \<and> sStatus resp = 200 then 1 else 0) = sint (bkStock b))"
proof -
  have inv': "0 \<le> sint (nextBookID bdb)"
    "\<And>i x. gm_get (bookDB bdb) i = Some x \<Longrightarrow> 0 \<le> sint (bkStock x) \<and> (\<exists>n. i = Itoa n \<and> 0 \<le> n \<and> n < sint (nextBookID bdb))"
    using inv unfolding db_inv_def by blast+
  obtain n where n: "bid = Itoa n" "0 \<le> n" "n < sint (nextBookID bdb)" using inv'(2) [OF b] by blast
  consider (same) "bdb' = bdb" "\<forall>bid. bookstore_route (hMethod r) (hPath r) = Purchase bid \<longrightarrow> sStatus resp \<noteq> 200"
    | (create) x where "bookstore_route (hMethod r) (hPath r) = CreateBook" "bkStock x = 10"
        "bdb' = bdb\<lparr>nextBookID := nextBookID bdb + 1, bookDB := gm_set (Itoa (sint (nextBookID bdb))) x (bookDB bdb)\<rparr>"
    | (purchase) i x where "bookstore_route (hMethod r) (hPath r) = Purchase i" "sStatus resp = 200" "gm_get (bookDB bdb) i = Some x"
        "pos64 (bkStock x)" "bdb' = bdb\<lparr>bookDB := gm_set i (x\<lparr>bkStock := bkStock x - 1\<rparr>) (bookDB bdb)\<rparr>"
    using e unfolding db_effect_def by blast
  then show ?thesis
  proof cases
    case same
    then show ?thesis using inv b by auto
  next
    case create
    have "bid \<noteq> Itoa (sint (nextBookID bdb))" using n inv'(1) by (simp add: Itoa_inj)
    moreover have "db_inv bdb'"
      using create inv' sint_next [OF small] unfolding db_inv_def by (fastforce split: if_splits)
    ultimately show ?thesis using create b sint_next [OF small] by simp
  next
    case purchase
    have s: "0 < sint (bkStock x)" "sint (bkStock x - 1) = sint (bkStock x) - 1"
      using purchase(4) sint_pred by (simp_all add: pos64_def)
    have "db_inv bdb'" using purchase inv' s unfolding db_inv_def by auto
    then show ?thesis using purchase s b by auto
  qed
qed

lemma run_stock:
  assumes "bookstore_run env henv sha256_hex decode self calls bdb w = Some (bdb', w', resps)" "db_inv bdb"
    and "sint (nextBookID bdb) + int (length calls) < 2 ^ 63" "gm_get (bookDB bdb) bid = Some b"
  shows "\<exists>b'. gm_get (bookDB bdb') bid = Some b' \<and> 0 \<le> sint (bkStock b') \<and> sint (bkStock b') + int (sold bid calls resps) = sint (bkStock b)"
  using assms
proof (induction calls arbitrary: bdb w b resps)
  case Nil
  then show ?case unfolding db_inv_def by auto
next
  case (Cons call calls)
  obtain x y r where call: "call = (x, y, r)" by (cases call)
  obtain bdb1 w1 resp resps1 where s: "bookstore_ServeHTTP env henv sha256_hex decode x y self True r bdb w = Some (bdb1, w1, resp)"
    and rest: "bookstore_run env henv sha256_hex decode self calls bdb1 w1 = Some (bdb', w', resps1)" and resps: "resps = resp # resps1"
    using Cons.prems(1) by (auto simp: call split: option.splits prod.splits)
  have small: "sint (nextBookID bdb) + 1 < 2 ^ 63" using Cons.prems(3) by simp
  obtain b1 where b1: "db_inv bdb1" "sint (nextBookID bdb1) \<le> sint (nextBookID bdb) + 1" "gm_get (bookDB bdb1) bid = Some b1"
    "sint (bkStock b1) + (if bookstore_route (hMethod r) (hPath r) = Purchase bid \<and> sStatus resp = 200 then 1 else 0) = sint (bkStock b)"
    using db_effect_step [OF serve_effect [OF s] Cons.prems(2) small Cons.prems(4)] by blast
  have "sint (nextBookID bdb1) + int (length calls) < 2 ^ 63" using b1(2) Cons.prems(3) by simp
  from Cons.IH [OF rest b1(1) this b1(3)] obtain b' where b': "gm_get (bookDB bdb') bid = Some b'" "0 \<le> sint (bkStock b')"
    "sint (bkStock b') + int (sold bid calls resps1) = sint (bkStock b1)" by blast
  moreover have "sint (bkStock b') + int (sold bid (call # calls) resps) = sint (bkStock b)"
    using b'(3) b1(4) by (auto simp: call resps split: if_splits)
  ultimately show ?case by blast
qed

lemma db_inv_initial: "db_inv initial_db"
proof -
  have "Itoa 1 = ''1''" "Itoa 2 = ''2''" "Itoa 3 = ''3''" by code_simp+
  then show ?thesis
    unfolding db_inv_def initial_db_def by (auto split: if_splits intro: exI [of _ 1] exI [of _ 2] exI [of _ 3])
qed


section \<open>A cached response is left alone\<close>

text \<open>
  The embedded cache of the bookstore holds what \<open>L\<close> says under \<open>key\<close>, and \<open>key\<close> has no tags. Everything that a
  purchase does to the cache keeps it so.
\<close>

definition kept :: "('d, 'v, 'x, 'w) env \<Rightarrow> string \<Rightarrow> string \<Rightarrow> (instant \<Rightarrow> bytes option) \<Rightarrow> 'd world \<Rightarrow> bool" where
  "kept env self key L w \<longleftrightarrow>
     embedded self w \<and>
     (\<exists>c. gm_get w self = Some c \<and> st_inv (eApi env) (cStore c) \<and> tag_inv (cTags c) \<and>
        gm_get (keyToTags (cTags c)) key = None \<and> (\<forall>t. st_look (eApi env) t (cStore c) key = L t))"

lemma kept_set:
  assumes "kept env self key L w" "gm_get w self = Some c" "role c' = role c" "cStore c' = cStore c" "cTags c' = cTags c"
  shows "kept env self key L (gm_set self c' w)"
proof -
  have "roles (gm_set self c' w) self = roles w self" using assms(2,3) by (simp add: views_at)
  then show ?thesis using assms embedded_roles [of "gm_set self c' w" self w] by (auto simp: kept_def)
qed

lemma tags_publish: "cTags (fire f (do_publish t ty k v c)) = cTags c"
  by (simp add: fire_def do_publish_def split: option.split)

lemma kept_Delete:
  assumes "kept env self key L w" "k \<noteq> key"
  shows "kept env self key L (cache_Delete env clk ts ft self k w)"
proof (cases "k = ''''")
  case False
  obtain c where c: "gm_get w self = Some c" "st_inv (eApi env) (cStore c)" "tag_inv (cTags c)"
    "gm_get (keyToTags (cTags c)) key = None" "\<And>t. st_look (eApi env) t (cStore c) key = L t" and em: "embedded self w"
    using assms(1) by (auto simp: kept_def)
  obtain c0 where c0: "gm_get w self = Some c0" "\<And>k. ownerAddr k c0 = ''''" "mode (cConfig c0) = Partitioned" "\<not> cClosed c0"
    by (rule embeddedE [OF em]) blast
  let ?c1 = "fire (FireDelete k) (do_publish ts EventDelete k [] (fst (node_Delete env k c)))"
  have e: "cache_Delete env clk ts ft self k w = gm_set self (?c1\<lparr>cTags := tag_Remove k (cTags ?c1)\<rparr>) (gm_set self (fst (node_Delete env k c)) w)"
    using False c0 c(1) embedded_open [OF em] by (simp add: cache_Delete_def distributedDelete_def on_node_def Let_def)
  have t: "cTags (fst (node_Delete env k c)) = cTags c" by (simp add: node_Delete_def split: prod.split)
  have "embedded self (cache_Delete env clk ts ft self k w)"
    using embedded_Delete(1) [OF em False views_at(1) [OF c(1)]] embedded_roles em by metis
  then show ?thesis
    unfolding kept_def e
    using c assms(2) backend.del_look [OF c(2), of _ k]
    by (simp add: tags_publish t backend.inv_del tag_inv_Remove tag_Remove_spec)
qed (use assms in \<open>simp add: cache_Delete_def\<close>)

lemma kept_loop:
  "kept env self key L w \<Longrightarrow> key \<notin> set keys \<Longrightarrow> kept env self key L (invalidate_loop env clk ts ft self i keys w)"
proof (induction keys arbitrary: i w)
  case (Cons k keys)
  then have "k \<noteq> key" by auto
  from kept_Delete [OF Cons.prems(1) this] Cons show ?case by simp
qed simp

lemma kept_Invalidate:
  assumes "kept env self key L w" shows "kept env self key L (InvalidateTag env clk ts ft self tag w)"
proof -
  obtain c where c: "gm_get w self = Some c" "tag_inv (cTags c)" "gm_get (keyToTags (cTags c)) key = None"
    using assms by (auto simp: kept_def)
  have "key \<notin> set (GetKeysByTag tag (cTags c))" using GetKeysByTag_inv(2) [OF c(2)] c(3) by (auto simp: tagged_def)
  then show ?thesis unfolding InvalidateTag_def using kept_loop [OF assms] c(1) by (simp add: node_at_def)
qed

lemma kept_attempt:
  assumes "kept env self key L w" "lock_attempt env' clk random ft self k ttl w = (w1, r)"
  shows "kept env self key L w1 \<and> (\<forall>h. r = Some (Inr h) \<longrightarrow> hOwnerAddr h = '''' \<and> hCache h = self)"
proof -
  have em: "embedded self w" using assms(1) by (simp add: kept_def)
  obtain c where c: "gm_get w self = Some c" "\<And>k. ownerAddr k c = ''''"
    by (rule embeddedE [OF em]) blast
  have "\<exists>e. w1 = gm_set self (c\<lparr>cLocks := e\<rparr>) w" and h: "\<forall>h. r = Some (Inr h) \<longrightarrow> hOwnerAddr h = '''' \<and> hCache h = self"
    using assms(2) c by (auto simp: lock_attempt_def split: prod.splits option.splits)
  then show ?thesis using kept_set [OF assms(1) c(1)] by auto
qed

lemma kept_lock_loop:
  assumes "sint (loRetryCount opts) + 1 < 2 ^ 63" "\<And>i w. others i w = w" "n = nat (sint (loRetryCount opts) - sint attempt + 1)"
    and "lock_loop env' clk random ft others self k opts attempt i w = Some (w1, r)" "kept env self key L w"
  shows "kept env self key L w1 \<and> (\<forall>h. r = Inr h \<longrightarrow> hOwnerAddr h = '''' \<and> hCache h = self)"
  using assms(3-)
proof (induction n arbitrary: attempt i w)
  case 0
  then have "less64 (loRetryCount opts) attempt" by (simp add: less64_def)
  then show ?case using 0 by (subst (asm) lock_loop.simps) auto
next
  case (Suc n)
  then have le: "\<not> less64 (loRetryCount opts) attempt" "sint attempt + 1 < 2 ^ 63" using assms(1) by (simp_all add: less64_def)
  have n: "n = nat (sint (loRetryCount opts) - sint (attempt + 1) + 1)" using Suc.prems(1) sint_next [OF le(2)] by simp
  obtain w2 r2 where a: "lock_attempt env' (clk i) (random i) (ft i) self k (loTTL opts) w = (w2, r2)" by fastforce
  note k = kept_attempt [OF Suc.prems(3) a]
  show ?case
  proof (cases r2)
    case None
    have w2: "(if c then others i w2 else w2) = w2" for c by (simp add: assms(2))
    have "lock_loop env' clk random ft others self k opts (attempt + 1) (Suc i) w2 = Some (w1, r)"
      using None Suc.prems(2) le(1) a by (subst (asm) lock_loop.simps) (simp add: w2)
    then show ?thesis using Suc.IH [OF n] k by blast
  next
    case (Some q)
    then show ?thesis using Suc.prems(2) le(1) a k by (subst (asm) lock_loop.simps) simp
  qed
qed

lemma kept_Lock:
  assumes "Lock env' clk random ft others self k opts w = Some (w1, r)" "sint (loRetryCount opts) + 1 < 2 ^ 63"
    and "\<And>i w. others i w = w" "kept env self key L w"
  shows "kept env self key L w1 \<and> (\<forall>h. r = Inr h \<longrightarrow> hOwnerAddr h = '''' \<and> hCache h = self)"
proof (cases "k = '''' \<or> is_closed self w")
  case True
  then show ?thesis using assms(1,4) by (auto simp: Lock_def split: if_splits)
next
  case False
  then have "lock_loop env' clk random ft others self (''__lock:'' @ k) opts 0 0 w = Some (w1, r)"
    using assms(1) by (simp add: Lock_def)
  then show ?thesis by (rule kept_lock_loop [where others = others, OF assms(2) assms(3) refl _ assms(4)])
qed

lemma kept_Release:
  assumes "kept env self key L w" "hOwnerAddr h = ''''" "hCache h = self"
  shows "kept env self key L (fst (handle_Release env' clk ft h w))"
proof -
  obtain c where c: "gm_get w self = Some c" using assms(1) by (auto simp: kept_def)
  have "\<exists>e. fst (handle_Release env' clk ft h w) = gm_set self (c\<lparr>cLocks := e\<rparr>) w"
    using assms(2,3) c by (auto simp: handle_Release_def split: prod.split)
  then show ?thesis using kept_set [OF assms(1) c] by auto
qed

lemma kept_purchase:
  assumes "handlePurchase env x self bid bdb w = Some (bdb', w', resp)" "\<And>i w. xOthers x i w = w" "kept env self key L w"
  shows "kept env self key L w'"
proof -
  have opts: "sint (loRetryCount purchase_options) + 1 < 2 ^ 63" by (simp add: purchase_options_def)
  obtain w1 r where l: "Lock env (xClk x) (xRandom x) (xFault x) (xOthers x) self (''purchase:'' @ bid) purchase_options w = Some (w1, r)"
    using assms(1) by (auto simp: handlePurchase_def split: option.splits prod.splits)
  note k = kept_Lock [OF l opts assms(2,3)]
  show ?thesis
  proof (cases r)
    case (Inl err)
    then show ?thesis using assms(1) l k by (simp add: handlePurchase_def)
  next
    case (Inr h)
    then have h: "hOwnerAddr h = ''''" "hCache h = self" and k1: "kept env self key L w1" using k by simp_all
    obtain bdb1 q where t: "take_one bid bdb = (bdb1, q)" by fastforce
    show ?thesis
      using assms(1) l Inr t kept_Release [OF k1 h] kept_Release [OF kept_Invalidate [OF kept_Invalidate [OF k1]] h]
      by (cases q) (auto simp: handlePurchase_def Let_def)
  qed
qed

section \<open>Properties\<close>

text \<open>
  C25: No book is sold more often than it was in stock. Whatever requests the bookstore serves, behind its rate
  limiter and its response cache and with any failure of the cache and of its locks, the stock of a book is
  never negative, and the stock that is left plus the number of purchases that were answered with success is
  the stock at the start. Creating books never overwrites a book.\<close>

theorem bookstore_never_oversells:
  assumes "bookstore_run env henv sha256_hex decode self calls initial_db w = Some (bdb, w', resps)"
    and "length calls < 2 ^ 62" "gm_get (bookDB initial_db) bid = Some book"
  shows "\<exists>book'. gm_get (bookDB bdb) bid = Some book' \<and> 0 \<le> sint (bkStock book') \<and>
    sint (bkStock book') + int (sold bid calls resps) = sint (bkStock book)"
proof -
  have "int (length calls) < 2 ^ 62" using assms(2) by (metis of_nat_less_iff of_nat_numeral of_nat_power)
  then have "sint (nextBookID initial_db) + int (length calls) < 2 ^ 63" by (simp add: initial_db_def)
  then show ?thesis by (rule run_stock [OF assms(1) db_inv_initial _ assms(3)])
qed

definition demo_shop :: "(string, bytes) gomap \<Rightarrow> (string, bytes) gomap cache" where
  "demo_shop d =
     \<lparr>cStore = DiskStore \<lparr>db = d, pcount = 0, ponEvict = True, ponExpire = True\<rparr>, cConfig = bookstore_config, cClosed = False,
      cRing = None, cState = None, cConns = [], cStopped = False, cLocks = NewEngine, cBuckets = NewTokenBucket,
      cWindows = NewSlidingWindow, cBroker = NewBroker, cTags = newTagIndex, cEvicted = [], cSpawned = [], cCalls = [],
      cPanicked = False\<rparr>"

definition demo_book_env :: "((string, bytes) gomap, book_value, book_dest, request + response) env" where
  "demo_book_env =
     \<lparr>eApi = list_pebble,
      eMsgpack = msgpack.extend fixed_msgpack \<lparr>marshal_any = (\<lambda>_. Inr []), unmarshal_any = (\<lambda>_ _. Inl ''short'')\<rparr>,
      eCodec = plain_codec, eConv = (\<lambda>_. 0)\<rparr>"

definition demo_page_env :: "cachedResponse \<Rightarrow> ((string, bytes) gomap, cachedResponse, unit, request + response) env" where
  "demo_page_env page =
     \<lparr>eApi = list_pebble,
      eMsgpack = msgpack.extend fixed_msgpack \<lparr>marshal_any = (\<lambda>_. Inr [7]), unmarshal_any = (\<lambda>_ _. Inr page)\<rparr>,
      eCodec = plain_codec, eConv = (\<lambda>_. 0)\<rparr>"

definition demo_shop_http :: "(string, bytes) gomap http_env" where
  "demo_shop_http =
     \<lparr>xClk = (\<lambda>_ _. 5), xTs = 5, xFault = (\<lambda>_. NoFault), xRandom = (\<lambda>_. [7]), xOthers = (\<lambda>_ w. w),
      xParse = (\<lambda>_. None), xKeys = (\<lambda>_. None), xLock = (\<lambda>_. None), xTTL = (\<lambda>_. None), xLimit = (\<lambda>_. None),
      xStart = 0, xRuntime = (0, 0, 0), xSched = []\<rparr>"

definition demo_shop_request :: "string \<Rightarrow> string list \<Rightarrow> http_request" where
  "demo_shop_request m path =
     \<lparr>hMethod = m, hPath = path, hHeader = (\<lambda>_. ''''), hBody = [], hReadFails = False, hRemoteAddr = '''', hURL = ''/''\<rparr>"

lemma demo_purchase:
  assumes "gm_get w ''b'' = Some (demo_shop d\<lparr>cBuckets := tb\<rparr>)"
  shows "\<exists>bdb w' resp. bookstore_mux demo_book_env (\<lambda>_. None) demo_shop_http ''b'' flusher
    (demo_shop_request ''POST'' [''books'', ''1'', ''purchase'']) initial_db w = Some (bdb, w', resp) \<and> sStatus resp = 200"
proof -
  let ?lock = "Lock demo_book_env (xClk demo_shop_http) (xRandom demo_shop_http) (xFault demo_shop_http) (xOthers demo_shop_http) ''b''
      (''purchase:'' @ ''1'') purchase_options w"
  have "\<exists>w1 h. ?lock = Some (w1, Inr h)"
    using assms unfolding Lock_def
    by (subst lock_loop.simps) (simp add: is_closed_def demo_shop_def lock_attempt_def ownerAddr_def Acquire_def NewEngine_def
        purchase_options_def less64_def Let_def)
  then obtain w1 h where l: "?lock = Some (w1, Inr h)" by (elim exE)
  have "\<exists>bdb b. take_one ''1'' initial_db = (bdb, Inr b)" by (simp add: take_one_def initial_db_def pos64_def Let_def)
  then obtain bdb b where t: "take_one ''1'' initial_db = (bdb, Inr b)" by (elim exE)
  have r: "bookstore_route ''POST'' [''books'', ''1'', ''purchase''] = Purchase ''1''" by (simp add: bookstore_route_def)
  show ?thesis using l t r by (simp add: bookstore_mux_def demo_shop_request_def handlePurchase_def Let_def writeJSON_def)
qed

definition demo_book_page :: cachedResponse where
  "demo_book_page = \<lparr>crStatusCode = 200, crBody = Json (book_json (the (gm_get (bookDB initial_db) ''1''))), crHeaders = []\<rparr>"

theorem bookstore_never_oversells_witness:
  "\<exists>bdb w' resps book'. bookstore_run demo_book_env (demo_page_env demo_book_page) (\<lambda>_. '''') (\<lambda>_. None) ''b''
      [(demo_shop_http, demo_shop_http, demo_shop_request ''POST'' [''books'', ''1'', ''purchase''])] initial_db [(''b'', demo_shop [])] =
      Some (bdb, w', resps) \<and> gm_get (bookDB bdb) ''1'' = Some book' \<and> sint (bkStock book') = 9"
proof -
  let ?r = "demo_shop_request ''POST'' [''books'', ''1'', ''purchase'']" and ?w = "[(''b'', demo_shop [])]"
  let ?calls = "[(demo_shop_http, demo_shop_http, ?r)]"
  let ?key = "''ratelimit:'' @ clientIP ?r"
  obtain s tb where a: "tb_Allow (eConv demo_book_env) (xClk demo_shop_http 2 0) ?key 100 minute NewTokenBucket = (s, tb)" by fastforce
  have "Allowed (fst (tb_Allow (eConv demo_book_env) (xClk demo_shop_http 2 0) ?key 100 minute NewTokenBucket))"
    by (rule tb_Allow_fresh) (simp_all add: minute_def second_def NewTokenBucket_def)
  then have ok: "Allowed s" using a by simp
  let ?c = "demo_shop []\<lparr>cBuckets := tb\<rparr>"
  have l: "RateLimit demo_book_env (xClk demo_shop_http 2 0) ?key \<lparr>rlLimit = 100, rlWindow = minute\<rparr> (demo_shop []) =
      (?c, True, stateFromInternal s)"
    using a ok by (simp add: RateLimit_def demo_shop_def stateFromInternal_def)
  have g: "gm_get (gm_set ''b'' ?c ?w) ''b'' = Some ?c" by simp
  from demo_purchase [OF g, of True] obtain bdb w' resp where m: "bookstore_mux demo_book_env (\<lambda>_. None) demo_shop_http ''b'' True ?r initial_db (gm_set ''b'' ?c ?w) =
    Some (bdb, w', resp)" "sStatus resp = 200" by (elim exE conjE)
  let ?resp = "add_headers (limit_headers (stateFromInternal s)) resp"
  have post: "hMethod ?r \<noteq> ''GET''" "bookstore_route (hMethod ?r) (hPath ?r) = Purchase ''1''"
    by (simp_all add: demo_shop_request_def bookstore_route_def)
  have "bookstore_ServeHTTP demo_book_env (demo_page_env demo_book_page) (\<lambda>_. '''') (\<lambda>_. None) demo_shop_http demo_shop_http ''b'' True ?r
      initial_db ?w = Some (bdb, w', ?resp)"
    unfolding bookstore_ServeHTTP_def HTTPCache_def HTTPRateLimit_def Let_def using post(1) l m(1) by simp
  then have run: "bookstore_run demo_book_env (demo_page_env demo_book_page) (\<lambda>_. '''') (\<lambda>_. None) ''b'' ?calls initial_db ?w = Some (bdb, w', [?resp])"
    by simp
  have book: "\<exists>book. gm_get (bookDB initial_db) ''1'' = Some book \<and> sint (bkStock book) = 10" by (simp add: initial_db_def)
  then obtain book where b: "gm_get (bookDB initial_db) ''1'' = Some book" "sint (bkStock book) = 10" by (elim exE conjE)
  have "sold ''1'' ?calls [?resp] = 1" using post(2) m(2) by (simp add: add_headers_def)
  then have "\<exists>book'. gm_get (bookDB bdb) ''1'' = Some book' \<and> sint (bkStock book') = 9"
    using bookstore_never_oversells [OF run _ b(1)] b(2) by auto
  then show ?thesis using run by (elim exE conjE) (intro exI conjI, assumption+)
qed

text \<open>
  C38: The response cache shows a stock that is no longer there. The handlers invalidate the cached book on a
  purchase, but the response cache around them stores whole pages under keys without tags. When it holds the
  page of a book and a purchase of the book is answered with success, the next \<open>GET\<close> for the page is answered
  with the old stock while the page has not expired, although the stock in the database is one less.\<close>

theorem bookstore_page_stale:
  assumes node: "embedded self w" "gm_get w self = Some c" "st_inv (eApi env) (cStore c)" "tag_inv (cTags c)" "eApi henv = eApi env"
    and page: "hMethod r' = ''GET''" "hPath r' = [''books'', bid]" "key = ''httpcache:'' @ hashRequest sha256_hex r'"
      "gm_get (keyToTags (cTags c)) key = None" "st_look (eApi env) (xClk y 0 0) (cStore c) key = Some b"
      "unmarshal_any (eMsgpack henv) b () = Inr cached"
    and book: "gm_get (bookDB bdb) bid = Some book" "crBody cached = Json (book_json book)"
    and purchase: "bookstore_route (hMethod r) (hPath r) = Purchase bid" "\<And>i w. xOthers x i w = w"
      "bookstore_mux env decode x self flusher r bdb w = Some (bdb', w', resp)" "sStatus resp = 200"
  shows "\<exists>book' w'' resp'. gm_get (bookDB bdb') bid = Some book' \<and> sint (bkStock book') = sint (bkStock book) - 1 \<and>
    bookstore_ServeHTTP env henv sha256_hex decode x' y self flusher' r' bdb' w' = Some (bdb', w'', resp') \<and>
    sBody resp' = Json (book_json book)"
proof -
  have "kept env self key (\<lambda>t. st_look (eApi env) t (cStore c) key) w" using node page(4) by (simp add: kept_def)
  moreover have "handlePurchase env x self bid bdb w = Some (bdb', w', resp)" using purchase(1,3) by (simp add: bookstore_mux_def)
  ultimately have k: "kept env self key (\<lambda>t. st_look (eApi env) t (cStore c) key) w'" using kept_purchase purchase(2) by blast
  then obtain c' where c': "gm_get w' self = Some c'" "st_inv (eApi env) (cStore c')" "embedded self w'"
    "st_look (eApi env) (xClk y 0 0) (cStore c') key = Some b"
    using page(5) by (auto simp: kept_def)
  have s: "sint (bkStock book - 1) = sint (bkStock book) - 1" "gm_get (bookDB bdb') bid = Some (book\<lparr>bkStock := bkStock book - 1\<rparr>)"
    using mux_effect [OF purchase(3)] purchase(1,4) book(1) sint_pred by (auto simp: db_effect_def pos64_def)
  have ne: "key \<noteq> ''''" by (simp add: page(3))
  have look: "snd (st_Get (eApi henv) (xClk y 0 0) key (cStore c')) = Some b"
    using backend.get_look [OF c'(2), of "xClk y 0 0" key] c'(4) node(5) by simp
  obtain w'' where g: "cache_Get henv (xClk y 0) (xFault y 0) self key (DestVal ()) w' = (w'', Some (GVal cached))"
    by (rule embedded_Get [OF c'(3) ne views_at(1) [OF c'(1)], of henv "xClk y 0" "xFault y 0" "DestVal ()"])
      (use look page(6) in simp)
  have "bookstore_ServeHTTP env henv sha256_hex decode x' y self flusher' r' bdb' w' =
      Some (bdb', w'', \<lparr>sStatus = crStatusCode cached, sHeaders = gm_set ''X-Cache'' (FStr ''HIT'') (crHeaders cached), sBody = crBody cached\<rparr>)"
    unfolding bookstore_ServeHTTP_def HTTPCache_def page(3) [symmetric] Let_def using page(1) g by simp
  then show ?thesis using s book(2) by auto
qed


theorem bookstore_page_stale_witness:
  "\<exists>bdb w' book' w'' resp'. gm_get (bookDB bdb) ''1'' = Some book' \<and> sint (bkStock book') = 9 \<and>
     bookstore_ServeHTTP demo_book_env (demo_page_env demo_book_page) (\<lambda>_. ''0'') (\<lambda>_. None) demo_shop_http demo_shop_http ''b'' True
       (demo_shop_request ''GET'' [''books'', ''1'']) bdb w' = Some (bdb, w'', resp') \<and>
     sBody resp' = crBody demo_book_page"
proof -
  let ?key = "''httpcache:'' @ hashRequest (\<lambda>_. ''0'') (demo_shop_request ''GET'' [''books'', ''1''])"
  let ?c = "demo_shop [(?key, ps_encode 0 [7] 0)]" and ?w = "[(''b'', demo_shop [(?key, ps_encode 0 [7] 0)])]"
  have g: "gm_get ?w ''b'' = Some (?c\<lparr>cBuckets := cBuckets ?c\<rparr>)" "gm_get ?w ''b'' = Some ?c" by simp_all
  from demo_purchase [OF g(1), of True] obtain bdb w' resp where m: "bookstore_mux demo_book_env (\<lambda>_. None) demo_shop_http ''b'' True
      (demo_shop_request ''POST'' [''books'', ''1'', ''purchase'']) initial_db ?w = Some (bdb, w', resp)" "sStatus resp = 200"
    by (elim exE conjE)
  have "\<exists>book. gm_get (bookDB initial_db) ''1'' = Some book \<and> sint (bkStock book) = 10" by (simp add: initial_db_def)
  then obtain book where b: "gm_get (bookDB initial_db) ''1'' = Some book" "sint (bkStock book) = 10" by (elim exE conjE)
  have page: "crBody demo_book_page = Json (book_json book)" using b(1) by (simp add: demo_book_page_def)
  have em: "embedded ''b'' ?w" by (simp add: embedded_def demo_shop_def bookstore_config_def)
  have inv: "st_inv (eApi demo_book_env) (cStore ?c)" "tag_inv (cTags ?c)" "gm_get (keyToTags (cTags ?c)) ?key = None"
    using tag_inv_new by (simp_all add: st_inv_def demo_shop_def demo_book_env_def pebble_ok_list newTagIndex_def)
  have look: "st_look (eApi demo_book_env) (xClk demo_shop_http 0 0) (cStore ?c) ?key = Some [7]"
    by (simp add: st_look_def demo_shop_def ps_look_def demo_book_env_def list_pebble_def raw_look_def ps_decode_encode ps_isExpired_def)
  have "\<exists>book' w'' resp'. gm_get (bookDB bdb) ''1'' = Some book' \<and> sint (bkStock book') = sint (bkStock book) - 1 \<and>
     bookstore_ServeHTTP demo_book_env (demo_page_env demo_book_page) (\<lambda>_. ''0'') (\<lambda>_. None) demo_shop_http demo_shop_http ''b'' True
       (demo_shop_request ''GET'' [''books'', ''1'']) bdb w' = Some (bdb, w'', resp') \<and> sBody resp' = Json (book_json book)"
    by (rule bookstore_page_stale [OF em g(2) inv(1,2) _ _ _ refl inv(3) look _ b(1) page _ _ m])
      (simp_all add: demo_book_env_def demo_page_env_def demo_shop_request_def bookstore_route_def demo_shop_http_def msgpack.defs)
  then show ?thesis using b(2) page by (elim exE conjE) (intro exI conjI, assumption, simp, assumption, simp)
qed

end
