(* ===== verification/Spec2Isabelle.thy ===== *)
theory Spec2Isabelle
  imports Shard_Props Memory_Store Pebble_Props Ring_Props Lock_Props Tag_Index Pubsub Rate_Limit
    Cluster Store Config Node Transport Cache Api Server Middleware
    Cluster_Props Mode_Props Replicated Lock_Cluster_Props Node_Props Http_Props Tag_Props Middleware_Props
    Session_Props Bookstore_Props
begin

text \<open>
  CacheGrid is a distributed cache written in Go. A process embeds a cache (\<open>src/cache.go\<close>) that stores bytes
  under string keys, in memory or on disk. Caches that know each other form a cluster: they gossip about their
  members, place the members on a consistent hash ring, and send the operations on a key to the member that
  owns it. On top of the cache there are tags, distributed locks, rate limiters, namespaces, publish/subscribe,
  an HTTP server and HTTP middleware. This development models these parts, one theory per component, and proves
  what each of them promises, up to the behaviour of a whole cluster and of the HTTP interface. The
  counterexample theorems state where the code falls short of a promise.

  \<^bold>\<open>How Go is modelled\<close> (theories \<open>Prelude\<close>, \<open>Go_Std\<close>, \<open>Net_Addr\<close>, \<open>Fnv\<close>, \<open>Float64\<close>, \<open>Path_Match\<close>).
  A Go string is a HOL string, \<open>[]byte\<close> a list of 8-bit words, \<open>int64\<close>, \<open>uint64\<close> and \<open>time.Duration\<close> are 64-bit
  words with their wrap-around, an instant is an integer number of nanoseconds. A Go map is an association list
  with distinct keys, so that a range over it has an order; statements do not depend on that order. A pointer
  that is shared is an index into a list or the name of a node. An error is a value of a sum or option type,
  a panic is \<open>None\<close> or the flag \<open>cPanicked\<close> of a node. Every reading of a clock, every random byte and every
  failure of the network is an argument, so a theorem holds for all of them. A method that runs under a mutex
  is one function; what the code does without a lock is split where other goroutines can run (\<open>ps_Get_finish\<close>,
  \<open>publish_send\<close>, the pending callbacks \<open>cEvicted\<close> and the pending copies \<open>cSpawned\<close>). \<open>float64\<close> is modelled
  exactly, with rounding to nearest, infinities and NaN.

  \<^bold>\<open>Parameters\<close>. Code that is not part of the repository is an argument with named laws: the Pebble engine
  (\<open>pebble_api\<close>, law \<open>pebble_ok\<close>, concrete instance \<open>list_pebble\<close>), msgpack for values, counters and messages
  (\<open>msgpack_any\<close>, \<open>msgpack_int_ok\<close>, \<open>codec_ok\<close>), the gossip library memberlist (its events, with the law
  \<open>ml_contract\<close>), the JSON and duration parsers of the HTTP server, SHA-256, and the conversion of an
  out-of-range \<open>float64\<close> to \<open>int64\<close>. The witnesses instantiate all of them.

  \<^bold>\<open>Storage\<close>.
  \<^item> \<open>Serializer\<close> (\<open>internal/cache/serializer.go\<close>), \<open>Entry_LRU\<close> (\<open>entry.go\<close>, \<open>eviction.go\<close>), \<open>Shard\<close>
    (\<open>shard.go\<close>): a shard is a map of entries and a recency list. \<open>Shard_Refine\<close> gives the specification, one list
    of keys ordered by recency, and the simulation; \<open>Shard_Props\<close> the properties: refinement, invariant (map and list
    agree, the size is exact, the limit holds), evictions take the oldest entries, and how \<open>Incr\<close> can lose an expiry.
  \<^item> \<open>Store_Contract\<close> is the interface \<open>Store\<close> of \<open>store.go\<close> as the locale \<open>store\<close>, and \<open>roomy_store\<close> for a store that
    loses nothing. \<open>Memory_Store\<close> (\<open>store_memory.go\<close>) and \<open>Pebble_Store\<close> (\<open>store_pebble.go\<close>) interpret both; \<open>Store\<close>
    interprets the contract for the value of the interface, so that nothing above depends on the backend.
    No store ever answers a value that is not the last one written, and a store with room loses no write. \<open>Pebble_Props\<close>
    adds the on-disk encoding, the exactness of the key counter and the two places where it drifts.

  \<^bold>\<open>Cluster\<close>.
  \<^item> \<open>Hash_Ring\<close> and \<open>Ring_Props\<close> (\<open>internal/cluster/hashring.go\<close>): \<open>GetNode\<close> is the clockwise successor, a change of
    members moves only the keys it must, replicas are distinct, and what a collision of hashes does.
  \<^item> \<open>Cluster\<close> (\<open>state.go\<close>, \<open>member.go\<close>): the table of members and the ring follow every sequence of gossip events, and
    two nodes with the same live members agree on the owner of every key.
  \<^item> \<open>Config\<close> (\<open>config.go\<close>, \<open>cmd/cachegrid/main.go\<close>): defaults, validation, environment variables.

  \<^bold>\<open>Services of a node\<close>. \<open>Lock_Engine\<close>, \<open>Lock_Props\<close> (\<open>internal/lock/lock.go\<close>), \<open>Tag_Index\<close> (\<open>tags.go\<close>), \<open>Pubsub\<close>
  (\<open>internal/pubsub\<close>, with the patterns of \<open>path.Match\<close> shown equal to their declarative meaning), \<open>Rate_Limit\<close>
  (\<open>internal/ratelimit\<close>): each is a state, its operations, an invariant, and a refinement of a simpler specification
  (locks held by grants, a relation of tags and keys, bounded mailboxes) or a bound on what it admits.

  \<^bold>\<open>The node and the network\<close>. \<open>Node\<close> is the \<open>Cache\<close> object with all its parts and the handlers of requests
  (\<open>cache.go\<close>, \<open>distributed.go\<close>, \<open>internal/transport/rpc.go\<close>). A world maps RPC addresses to nodes. \<open>Transport\<close> is a
  remote call: it may fail before the request is processed or after it, and the connection pool and \<open>Stop\<close> decide who
  can be reached. \<open>Cache\<close> is the routing of the three modes, the public operations, \<open>New\<close> and the tags API; \<open>Api\<close> is
  \<open>lock.go\<close>, \<open>namespace.go\<close>, \<open>ratelimit.go\<close>, \<open>pubsub.go\<close>; \<open>Server\<close> is \<open>internal/server\<close> and \<open>Middleware\<close> is
  \<open>middleware.go\<close>.

  \<^bold>\<open>What holds of the whole\<close>. \<open>Fleet\<close> describes every remote operation by its effect on two views of the world, the
  stores and the routing data. On it rest:
  \<^item> \<open>Partitioned\<close>, \<open>Cluster_Props\<close>: a partitioned cluster behaves like one cache whose failed writes may or may not
    have happened; reads at any node see the last write, deletes are seen everywhere.
  \<^item> \<open>Replicated\<close>, \<open>Mode_Props\<close>: replicas converge once the pending copies have run, unless two copies overtake each
    other; near-cache copies are never invalidated and outlive their entry.
  \<^item> \<open>Lock_Cluster\<close>, \<open>Lock_Cluster_Props\<close>: over every interleaving of lock requests of all clients and every failure, a
    lock has one holder in the whole cluster; free locks are granted; \<open>Lock\<close> returns.
  \<^item> \<open>Node_Inv\<close>, \<open>Node_Props\<close>: nodes built by \<open>New\<close> keep the invariants of all their parts and never panic.
  \<^item> \<open>Tag_Props\<close>, \<open>Http_Props\<close>, \<open>Middleware_Props\<close>: tags across nodes, the HTTP server end to end, response caching.
  \<^item> \<open>Embedded\<close>, \<open>Sessions\<close>, \<open>Session_Props\<close>, \<open>Bookstore\<close>, \<open>Bookstore_Props\<close>: the two HTTP applications under \<open>examples\<close>
    (\<open>sessions/main.go\<close>, \<open>webapi/main.go\<close>) over a cache outside a cluster. The session store refines a table of sessions
    with deadlines, across restarts of the process, unless two requests overlap; the bookstore sells only what is in stock, and its
    response cache shows an old stock.

  \<^bold>\<open>Loops, fuel and bounds\<close>. All loops are structural or have a termination proof, except the retry loop of \<open>Lock\<close>,
  which counts with an \<open>int64\<close> and is a \<open>partial_function\<close>: \<open>Lock_returns\<close> shows that it always returns. No definition
  uses fuel; the schedule of \<open>sse_loop\<close> is the sequence of events the stream sees. Hypotheses on sizes are the ranges of
  the machine types: at most 2^32 shards, instants between the years 1678 and 2262 on disk (\<open>nano_clock\<close>), fewer than
  2^64 subscriptions. \<open>clash_free\<close> excludes hash collisions of virtual nodes, which \<open>ring_collision_strands_member\<close>
  shows to be necessary.

  \<^bold>\<open>Not modelled\<close>. Sockets, deadlines and the accept loop of the RPC server, and two calls at the same time on one
  pooled connection; the protocol of memberlist, and \<open>Join\<close>, \<open>Leave\<close> and \<open>Members\<close>, which only call it; \<open>Start\<close> and
  \<open>Stop\<close> of the HTTP server, which only call \<open>net/http\<close>; tickers and the channels that stop them (a tick is a step that may
  happen at any time); signal handling, logging and exit of the server binary; loss of unsynced writes of Pebble when the
  machine crashes; the programs \<open>examples/basic\<close> and \<open>examples/pubsub\<close>, which call the
  modelled operations with constants and print the results.
\<close>

end
